(* ===== verification/Prelude.thy ===== *)
theory Prelude
  imports Main "HOL-Library.Word" "HOL-Library.Signed_Division"
begin

unbundle bit_operations_syntax

text \<open>
  What every component of the development shares: the fact collections, the Go runtime
  panics, the conversions between Go's \<open>int\<close> and the fixed-width unsigned integers, and
  the arithmetic of power-of-two aligned blocks of naturals on which all reasoning about
  CIDR ranges rests.

  Go's \<open>int\<close> is modelled as HOL \<open>int\<close>. The places where the source can leave the 64-bit
  range or converts to an unsigned type are written with the conversions of this theory.
\<close>

named_theorems byte_val \<open>rewriting byte strings and words to the natural number they denote\<close>
named_theorems cset_frame \<open>fields an operation of a CIDR set leaves unchanged\<close>

subsection \<open>Go runtime: panics and integer conversions\<close>

text \<open>
  The ways a call ends without returning: the runtime panics, and \<open>klog.Fatalf\<close>, which writes
  its message and ends the process with status 255.
\<close>

datatype go_panic =
    IndexOutOfRange
  | DivideByZero
  | NilDereference
  | TypeAssertion
  | NonPositiveTicker
  | CloseOfClosedChannel
  | FatalExit string

text \<open>\<open>uint32(x)\<close> and \<open>uint64(x)\<close> for an \<open>int\<close>, as the natural number denoted.\<close>

definition uint32_of :: "int \<Rightarrow> nat" where
  "uint32_of x = nat (x mod 2 ^ 32)"

definition uint64_of :: "int \<Rightarrow> nat" where
  "uint64_of x = nat (x mod 2 ^ 64)"

lemma unat_lt: "unat (w :: 'a::len word) < 2 ^ LENGTH('a)"
  by (rule unsigned_less)

lemma unat_word_of_int:
  "0 \<le> x \<Longrightarrow> x < 2 ^ LENGTH('a) \<Longrightarrow> unat (word_of_int x :: 'a::len word) = nat x"
  by (simp add: unsigned_of_int take_bit_int_eq_self)

text \<open>\<open>x << k\<close> and \<open>x >> k\<close> on an unsigned word: a count of at least the width gives 0.\<close>

definition go_shl :: "'a::len word \<Rightarrow> nat \<Rightarrow> 'a word" where
  "go_shl x k = (if k < LENGTH('a) then push_bit k x else 0)"

definition go_shr :: "'a::len word \<Rightarrow> nat \<Rightarrow> 'a word" where
  "go_shr x k = (if k < LENGTH('a) then drop_bit k x else 0)"

lemma uint32_of_small [simp]: "0 \<le> x \<Longrightarrow> x < 2 ^ 32 \<Longrightarrow> uint32_of x = nat x"
  by (simp add: uint32_of_def)

lemma uint64_of_small [simp]: "0 \<le> x \<Longrightarrow> x < 2 ^ 64 \<Longrightarrow> uint64_of x = nat x"
  by (simp add: uint64_of_def)

lemma unat_go_shr: "unat (go_shr x k) = unat (x :: 'a::len word) div 2 ^ k"
proof (cases "k < LENGTH('a)")
  case True
  then show ?thesis by (simp add: go_shr_def unat_drop_bit_eq flip: drop_bit_eq_div)
next
  case False
  then have "unat x < 2 ^ k"
    by (meson less_le_trans not_less one_le_numeral power_increasing unsigned_less)
  with False show ?thesis by (simp add: go_shr_def)
qed

lemma unat_go_shl:
  assumes "unat x * 2 ^ k < 2 ^ LENGTH('a)"
  shows "unat (go_shl (x :: 'a::len word) k) = unat x * 2 ^ k"
proof (cases "k < LENGTH('a)")
  case True
  with assms show ?thesis
    by (simp add: go_shl_def unsigned_push_bit_eq take_bit_nat_eq_self push_bit_nat_def)
next
  case False
  then have "(2::nat) ^ LENGTH('a) \<le> 2 ^ k" by simp
  with assms have "unat x = 0"
    by (metis le_less_trans mult.commute mult_le_mono2 nat_mult_1_right not_less not_gr_zero
        One_nat_def Suc_leI)
  with False show ?thesis by (simp add: go_shl_def)
qed

text \<open>\<open>1 << k\<close> as an \<open>int\<close>.\<close>

lemma sint_go_shl_1:
  assumes "k \<le> 62"
  shows "sint (go_shl (1 :: 64 word) k) = 2 ^ k"
proof -
  have p: "(2::nat) ^ k \<le> 2 ^ 62" using assms by (intro power_increasing) simp_all
  have "unat (go_shl (1 :: 64 word) k) = 2 ^ k" using p by (subst unat_go_shl) simp_all
  then have h: "uint (go_shl (1 :: 64 word) k) = int (2 ^ k)" by (metis of_nat_unat)
  from p have "int (2 ^ k) \<le> int (2 ^ 62)" by (simp only: of_nat_le_iff)
  then have q: "int (2 ^ k) \<le> 4611686018427387904" by (simp del: of_nat_power)
  have "signed_take_bit (LENGTH(64) - Suc 0) (int (2 ^ k)) = int (2 ^ k)"
    by (rule signed_take_bit_int_eq_self) (use q in \<open>simp_all del: of_nat_power\<close>)
  then show ?thesis by (simp add: sint_uint h)
qed


subsection \<open>Aligned blocks of naturals\<close>

text \<open>
  \<open>blk k x\<close> is the first address of the \<open>2 ^ k\<close>-aligned block that holds \<open>x\<close>: what masking
  off the \<open>k\<close> low bits of an address leaves.
\<close>

definition blk :: "nat \<Rightarrow> nat \<Rightarrow> nat" where
  "blk k x = x div 2 ^ k * 2 ^ k"

lemma blk_le [simp]: "blk k x \<le> x"
  by (simp add: blk_def)

lemma blk_dvd [simp]: "2 ^ k dvd blk k x"
  by (simp add: blk_def)

lemma blk_id [simp]: "2 ^ k dvd x \<Longrightarrow> blk k x = x"
  by (simp add: blk_def)

lemma blk_gt: "x < blk k x + 2 ^ k"
  using dividend_less_div_times [of "2 ^ k" x] by (simp add: blk_def)

lemma blk_div [simp]: "blk k x div 2 ^ k = x div 2 ^ k"
  by (simp add: blk_def)

lemma blk_minus_div: "(blk k x - 2 ^ k * c) div 2 ^ k = (x - 2 ^ k * c) div 2 ^ k"
proof (cases "2 ^ k * c \<le> x")
  case True
  then obtain d where x: "x = 2 ^ k * c + d" using le_Suc_ex by blast
  then have "blk k x = 2 ^ k * c + blk k d" by (simp add: blk_def distrib_right)
  then show ?thesis by (simp add: x)
next
  case False
  then have "x - 2 ^ k * c = 0" "blk k x - 2 ^ k * c = 0"
    using blk_le [of k x] by linarith+
  then show ?thesis by simp
qed

lemma or_disjoint_add:
  fixes c r :: nat
  assumes "2 ^ k dvd c" "r < 2 ^ k"
  shows "c OR r = c + r"
proof -
  obtain q where c: "c = push_bit k q"
    using assms(1) by (auto simp: push_bit_eq_mult ac_simps)
  have "take_bit k r = r" using assms(2) by (simp add: take_bit_nat_eq_self)
  then have "bit r i \<Longrightarrow> i < k" for i by (metis bit_take_bit_iff)
  then have "c AND r = 0" by (auto simp: c bit_eq_iff bit_simps dest: leD)
  then show ?thesis by (simp add: disjunctive_add_eq_or)
qed

lemma or_mask_nat: "(x::nat) OR mask k = blk k x + (2 ^ k - 1)"
proof -
  have "x OR mask k = blk k x OR mask k"
    by (auto simp: blk_def bit_eq_iff bit_simps simp flip: push_bit_eq_mult drop_bit_eq_div)
  also have "\<dots> = blk k x + mask k"
    by (rule or_disjoint_add [where k = k]) (simp_all add: mask_eq_exp_minus_1)
  finally show ?thesis by (simp add: mask_eq_exp_minus_1)
qed

lemma xor_same_block:
  fixes c a :: nat
  assumes "2 ^ k dvd c" "a div 2 ^ k = c div 2 ^ k"
  shows "c XOR a = a - c"
proof -
  have *: "drop_bit k a = drop_bit k c" using assms(2) by (simp add: drop_bit_eq_div)
  obtain q where c: "c = push_bit k q"
    using assms(1) by (auto simp: push_bit_eq_mult ac_simps)
  have "bit (c XOR a) i = bit (take_bit k a) i" for i
  proof (cases "i < k")
    case True
    then show ?thesis by (simp add: c bit_simps)
  next
    case False
    then have "bit a i = bit c i"
      using arg_cong [OF *, of "\<lambda>x. bit x (i - k)"] by (simp add: bit_simps)
    with False show ?thesis by (simp add: bit_simps)
  qed
  then have "c XOR a = take_bit k a" by (rule bit_eqI)
  also have "\<dots> = a - blk k c"
    using assms(2) by (simp add: blk_def take_bit_eq_mod minus_div_mult_eq_mod [symmetric])
  finally show ?thesis using assms(1) by simp
qed

lemma xor_other_block:
  fixes c a :: nat
  assumes "a div 2 ^ k \<noteq> c div 2 ^ k"
  shows "2 ^ k \<le> c XOR a"
proof (rule ccontr)
  assume "\<not> 2 ^ k \<le> c XOR a"
  then have "drop_bit k (c XOR a) = 0" by (simp add: drop_bit_eq_div)
  then have "drop_bit k c = drop_bit k a"
    by (metis drop_bit_xor xor_self_eq xor.right_neutral xor.assoc)
  with assms show False by (simp add: drop_bit_eq_div)
qed

lemma div_block_iff: "0 < b \<Longrightarrow> (x::nat) div b = q \<longleftrightarrow> b * q \<le> x \<and> x < b * q + b"
  by (metis add.commute div_nat_eqI dividend_less_times_div mult_Suc_right times_div_less_eq_dividend)

text \<open>Two aligned blocks of different sizes are nested or disjoint.\<close>

lemma div_div_pow: "k \<le> l \<Longrightarrow> (x::nat) div 2 ^ l = x div 2 ^ k div 2 ^ (l - k)"
  by (metis div_mult2_eq power_add le_add_diff_inverse)

lemma div_eq_mono: "k \<le> l \<Longrightarrow> (x::nat) div 2 ^ k = y div 2 ^ k \<Longrightarrow> x div 2 ^ l = y div 2 ^ l"
  by (simp add: div_div_pow)

text \<open>Half-open intervals of naturals.\<close>

lemma interval_meets:
  "0 < p \<Longrightarrow> 0 < q \<Longrightarrow> {a ..< a + p} \<inter> {c ..< c + q} \<noteq> {} \<longleftrightarrow> a < c + q \<and> c < a + (p::nat)"
  by (auto simp: disjoint_iff)

lemma interval_last: "0 < q \<Longrightarrow> v + (q - 1) \<in> {v ..< v + (q::nat)}"
  by simp

lemma interval_shift:
  fixes c v q a B :: nat
  assumes "0 < q" "c \<le> v"
  shows "(c + a < v + q \<and> v < c + a + B) \<longleftrightarrow> (a \<le> v + (q - 1) - c \<and> v - c < a + B)"
  using assms by arith

end
