(* ===== verification/GoNet.thy ===== *)
theory GoNet
  imports Prelude
begin

text \<open>
  The part of Go's standard library \<open>net\<close>, \<open>encoding/binary\<close> and \<open>math/big\<close> that the
  repository computes with: byte strings as lists of 8-bit words, big-endian loads and
  stores, IP addresses (\<open>net.IP\<close>), masks (\<open>net.IPMask\<close>) and networks (\<open>net.IPNet\<close>).
  A nil slice and an empty slice are both the empty list: the source only compares them
  with nil or takes their length.

  The lemmas read every operation as arithmetic on the number an address denotes
  (\<open>ip_val\<close>): masking is rounding down to a block, \<open>Contains\<close> is equality of blocks.
\<close>

subsection \<open>Bytes and big-endian integers\<close>

type_synonym byte = "8 word"

text \<open>\<open>big.Int.SetBytes\<close>: the number a big-endian byte string denotes.\<close>

fun ip_val :: "byte list \<Rightarrow> nat" where
  "ip_val [] = 0"
| "ip_val (b # bs) = unat b * 256 ^ length bs + ip_val bs"

text \<open>
  \<open>binary.BigEndian.Uint32\<close> and \<open>Uint64\<close> read the first 4 or 8 bytes and panic when the
  slice is shorter.
\<close>

definition load_be :: "byte list \<Rightarrow> 'a::len word" where
  "load_be bs = fold (\<lambda>b acc. push_bit 8 acc OR ucast b) bs 0"

definition be_uint32 :: "byte list \<Rightarrow> go_panic + 32 word" where
  "be_uint32 bs = (if length bs < 4 then Inl IndexOutOfRange else Inr (load_be (take 4 bs)))"

definition be_uint64 :: "byte list \<Rightarrow> go_panic + 64 word" where
  "be_uint64 bs = (if length bs < 8 then Inl IndexOutOfRange else Inr (load_be (take 8 bs)))"

text \<open>\<open>PutUint32\<close> and \<open>PutUint64\<close> into a slice of exactly that size.\<close>

fun store_be :: "nat \<Rightarrow> 'a::len word \<Rightarrow> byte list" where
  "store_be 0 w = []"
| "store_be (Suc n) w = ucast (drop_bit (8 * n) w) # store_be n w"

definition put_uint32 :: "32 word \<Rightarrow> byte list" where
  "put_uint32 w = store_be 4 w"

definition put_uint64 :: "64 word \<Rightarrow> byte list" where
  "put_uint64 w = store_be 8 w"

lemma unat_byte_le: "unat (b :: byte) \<le> 255"
  using unat_lt [of b] by simp

lemma unat_byte [simp]: "unat (b :: byte) < 256"
  using unat_lt [of b] by simp

lemma ip_val_bound: "ip_val bs < 256 ^ length bs"
proof (induction bs)
  case (Cons b bs)
  have "unat b \<le> 255" by (rule unat_byte_le)
  then have "unat b * 256 ^ length bs \<le> 255 * 256 ^ length bs" by (rule mult_right_mono) simp
  then have "unat b * 256 ^ length bs + ip_val bs < 255 * 256 ^ length bs + 256 ^ length bs"
    using Cons.IH by linarith
  then show ?case by simp
qed simp

lemma ip_val_append [simp]: "ip_val (xs @ ys) = ip_val xs * 256 ^ length ys + ip_val ys"
  by (induction xs) (simp_all add: algebra_simps power_add)

lemma ip_val_replicate0 [simp]: "ip_val (replicate n 0) = 0"
  by (induction n) auto

lemma ip_val_inject: "length xs = length ys \<Longrightarrow> ip_val xs = ip_val ys \<Longrightarrow> xs = ys"
proof (induction xs ys rule: list_induct2)
  case (Cons x xs y ys)
  have bnd_x: "ip_val xs < 256 ^ length ys" and bnd_y: "ip_val ys < 256 ^ length ys"
    using ip_val_bound [of xs] ip_val_bound [of ys] Cons.hyps by simp_all
  from Cons.prems Cons.hyps
  have eq: "ip_val xs + unat x * 256 ^ length ys = ip_val ys + unat y * 256 ^ length ys"
    by simp
  from arg_cong [OF eq, of "\<lambda>n. n div 256 ^ length ys"] bnd_x bnd_y
  have "unat x = unat y" by simp
  with eq Cons.IH show ?case by (simp add: word_unat_eq_iff)
qed simp

lemma unat_shift_in_byte:
  assumes "unat acc * 256 + 256 \<le> 2 ^ LENGTH('a)"
  shows "unat (push_bit 8 acc OR ucast b :: 'a::len word) = unat acc * 256 + unat (b :: byte)"
proof -
  have b: "unat b < 2 ^ 8" using unat_lt [of b] by simp
  have "(256::nat) \<le> 2 ^ LENGTH('a)" using assms by (rule add_leD2)
  then have "unat b < 2 ^ LENGTH('a)" using unat_byte_le [of b] by linarith
  then have "unat (ucast b :: 'a word) = unat b"
    by (simp add: unsigned_ucast_eq take_bit_nat_eq_self)
  moreover have "unat (push_bit 8 acc) = unat acc * 2 ^ 8"
    using assms by (simp add: unsigned_push_bit_eq push_bit_nat_def take_bit_nat_eq_self)
  ultimately show ?thesis
    using b by (simp add: unsigned_or_eq or_disjoint_add [where k = 8])
qed

lemma fold_be_val:
  assumes "unat acc * 256 ^ length bs + 256 ^ length bs \<le> 2 ^ LENGTH('a)"
  shows "unat (fold (\<lambda>b acc. push_bit 8 acc OR ucast b) bs (acc :: 'a::len word))
    = unat acc * 256 ^ length bs + ip_val bs"
  using assms
proof (induction bs arbitrary: acc)
  case (Cons b bs)
  let ?acc = "push_bit 8 acc OR ucast b :: 'a word"
  have "256 * (unat acc + 1) \<le> 256 ^ length (b # bs) * (unat acc + 1)"
    by (rule mult_right_mono) simp_all
  also have "\<dots> \<le> 2 ^ LENGTH('a)" using Cons.prems by (simp add: algebra_simps)
  finally have acc: "unat ?acc = unat acc * 256 + unat b"
    by (intro unat_shift_in_byte) simp
  have "(unat ?acc + 1) * 256 ^ length bs \<le> (unat acc * 256 + 256) * 256 ^ length bs"
    using unat_byte_le [of b] unfolding acc by (intro mult_right_mono) simp_all
  also have "\<dots> \<le> 2 ^ LENGTH('a)" using Cons.prems by (simp add: algebra_simps)
  finally have "unat (fold (\<lambda>b acc. push_bit 8 acc OR ucast b) bs ?acc)
      = unat ?acc * 256 ^ length bs + ip_val bs"
    by (intro Cons.IH) (simp add: algebra_simps)
  then show ?case by (simp add: acc algebra_simps)
qed simp

lemma unat_load_be:
  "256 ^ length bs \<le> (2::nat) ^ LENGTH('a) \<Longrightarrow> unat (load_be bs :: 'a::len word) = ip_val bs"
  using fold_be_val [of 0 bs] by (simp add: load_be_def)

lemma length_store_be [simp]: "length (store_be n w) = n"
  by (induction n) auto

lemma ip_val_store_be: "ip_val (store_be n w) = unat w mod 256 ^ n"
proof (induction n)
  case (Suc n)
  have "unat (ucast (drop_bit (8 * n) w) :: byte) = unat w div 256 ^ n mod 256"
    by (simp add: unsigned_ucast_eq take_bit_eq_mod unat_drop_bit_eq power_mult drop_bit_nat_def)
  with Suc mod_mult2_eq [of "unat w" "256 ^ n" 256] show ?case
    by (simp add: mult.commute)
qed simp

lemma length_put_uint [simp]: "length (put_uint32 w) = 4" "length (put_uint64 v) = 8"
  by (simp_all add: put_uint32_def put_uint64_def)

lemma ip_val_put_uint32 [byte_val]: "ip_val (put_uint32 w) = unat w"
  using unat_lt [of w] by (simp add: put_uint32_def ip_val_store_be)

lemma ip_val_put_uint64 [byte_val]: "ip_val (put_uint64 w) = unat w"
  using unat_lt [of w] by (simp add: put_uint64_def ip_val_store_be)

lemma unat_load_be32 [byte_val]: "length bs = 4 \<Longrightarrow> unat (load_be bs :: 32 word) = ip_val bs"
  by (simp add: unat_load_be)

lemma unat_load_be64 [byte_val]: "length bs = 8 \<Longrightarrow> unat (load_be bs :: 64 word) = ip_val bs"
  by (simp add: unat_load_be)


subsection \<open>net.IP\<close>

definition IPv4len :: nat where "IPv4len = 4"
definition IPv6len :: nat where "IPv6len = 16"

definition v4InV6Prefix :: "byte list" where
  "v4InV6Prefix = replicate 10 0 @ [0xff, 0xff]"

definition to4 :: "byte list \<Rightarrow> byte list" where
  "to4 ip = (if length ip = IPv4len then ip
     else if length ip = IPv6len \<and> take 12 ip = v4InV6Prefix then drop 12 ip else [])"

definition to16 :: "byte list \<Rightarrow> byte list" where
  "to16 ip = (if length ip = IPv4len then v4InV6Prefix @ ip
     else if length ip = IPv6len then ip else [])"

lemmas ip_len = IPv4len_def IPv6len_def

lemma to4_len4 [simp]: "length ip = 4 \<Longrightarrow> to4 ip = ip"
  by (simp add: to4_def ip_len)

lemma to4_Nil [simp]: "to4 [] = []"
  by (simp add: to4_def ip_len)

lemma length_to4: "length (to4 ip) = 4 \<or> to4 ip = []"
  by (auto simp: to4_def ip_len)

lemma to16_len16 [simp]: "length ip = 16 \<Longrightarrow> to16 ip = ip"
  by (simp add: to16_def ip_len)

lemma ip_val_split: "ip_val bs = ip_val (take n bs) * 256 ^ (length bs - n) + ip_val (drop n bs)"
  using ip_val_append [of "take n bs" "drop n bs"] by simp

text \<open>An IPv4-mapped IPv6 address is below \<open>2 ^ 48\<close>.\<close>

lemma to4_large [simp]:
  assumes "length ip = 16" "2 ^ 48 \<le> ip_val ip"
  shows "to4 ip = []"
proof (rule ccontr)
  assume "to4 ip \<noteq> []"
  with assms(1) have "ip_val ip = ip_val v4InV6Prefix * 256 ^ 4 + ip_val (drop 12 ip)"
    using ip_val_split [of ip 12] by (auto simp: to4_def ip_len split: if_splits)
  moreover have "ip_val v4InV6Prefix = 65535"
    by (simp add: v4InV6Prefix_def)
  moreover have "ip_val (drop 12 ip) < 256 ^ 4"
    using ip_val_bound [of "drop 12 ip"] assms(1) by simp
  ultimately show False using assms(2) by simp
qed

subsection \<open>net.IPMask\<close>

text \<open>\<open>CIDRMask\<close>: \<open>ones\<close> one bits in a mask of \<open>bits\<close> bits, nil for other sizes.\<close>

fun mask_bytes :: "nat \<Rightarrow> nat \<Rightarrow> byte list" where
  "mask_bytes 0 n = []"
| "mask_bytes (Suc l) n =
     (if 8 \<le> n then 0xff # mask_bytes l (n - 8) else NOT (drop_bit n 0xff) # mask_bytes l 0)"

definition CIDRMask :: "int \<Rightarrow> int \<Rightarrow> byte list" where
  "CIDRMask ones bits =
     (if bits \<noteq> 32 \<and> bits \<noteq> 128 then []
      else if ones < 0 \<or> bits < ones then []
      else mask_bytes (nat bits div 8) (nat ones))"

text \<open>
  \<open>simpleMaskLength\<close>: the number of leading one bits, \<open>None\<close> (Go's -1) when a one bit
  follows a zero bit. The inner loop shifts the first byte that is not 0xff left while its
  top bit is set; a byte has 8 bits, so 8 rounds are enough.
\<close>

fun count_ones :: "nat \<Rightarrow> byte \<Rightarrow> nat \<times> byte" where
  "count_ones 0 v = (0, v)"
| "count_ones (Suc k) v =
     (if v AND 0x80 \<noteq> 0 then (let (n, w) = count_ones k (push_bit 1 v) in (Suc n, w)) else (0, v))"

fun simpleMaskLength :: "byte list \<Rightarrow> nat option" where
  "simpleMaskLength [] = Some 0"
| "simpleMaskLength (v # vs) =
     (if v = 0xff then map_option ((+) 8) (simpleMaskLength vs)
      else (let (n, w) = count_ones 8 v in
        if w \<noteq> 0 then None else if list_all (\<lambda>b. b = 0) vs then Some n else None))"

text \<open>\<open>IPMask.Size\<close>: the number of ones and of bits, 0 and 0 for a mask of no canonical form.\<close>

definition mask_Size :: "byte list \<Rightarrow> int \<times> int" where
  "mask_Size m = (case simpleMaskLength m of None \<Rightarrow> (0, 0)
     | Some n \<Rightarrow> (int n, int (length m) * 8))"

lemma length_mask_bytes [simp]: "length (mask_bytes l n) = l"
  by (induction l n rule: mask_bytes.induct) auto

lemma mask_bytes_0 [simp]: "mask_bytes l 0 = replicate l 0"
  by (induction l) auto

lemma less8_cases:
  "n < 8 \<Longrightarrow> n = 0 \<or> n = 1 \<or> n = 2 \<or> n = 3 \<or> n = 4 \<or> n = 5 \<or> n = 6 \<or> n = (7::nat)"
  by arith

lemma count_ones_mask: "n < 8 \<Longrightarrow> count_ones 8 (NOT (drop_bit n 0xff)) = (n, 0)"
  by (drule less8_cases, elim disjE; hypsubst; code_simp)

lemma simpleMaskLength_mask_bytes:
  "n \<le> 8 * l \<Longrightarrow> simpleMaskLength (mask_bytes l n) = Some n"
proof (induction l n rule: mask_bytes.induct)
  case (2 l n)
  have "n < 8 \<Longrightarrow> NOT (drop_bit n 0xff) \<noteq> (0xff :: byte)"
    by (auto dest!: less8_cases)
  then show ?case using 2 by (auto simp: count_ones_mask list_all_length)
qed simp

lemma mask_Size_mask_bytes:
  "n \<le> 8 * l \<Longrightarrow> mask_Size (mask_bytes l n) = (int n, int l * 8)"
  by (simp add: mask_Size_def simpleMaskLength_mask_bytes)


subsection \<open>IP.Mask and IPNet\<close>

definition ip_Mask :: "byte list \<Rightarrow> byte list \<Rightarrow> byte list" where
  "ip_Mask ip m =
     (let m' = (if length m = IPv6len \<and> length ip = IPv4len \<and> list_all (\<lambda>b. b = 0xff) (take 12 m)
                then drop 12 m else m);
          ip' = (if length m' = IPv4len \<and> length ip = IPv6len \<and> take 12 ip = v4InV6Prefix
                 then drop 12 ip else ip)
      in if length ip' \<noteq> length m' then [] else map2 (AND) ip' m')"

record IPNet =
  IP :: "byte list"
  Mask :: "byte list"

definition networkNumberAndMask :: "IPNet \<Rightarrow> byte list \<times> byte list" where
  "networkNumberAndMask n =
     (let ip = (if to4 (IP n) \<noteq> [] then to4 (IP n) else IP n); m = Mask n in
      if to4 (IP n) = [] \<and> length ip \<noteq> IPv6len then ([], [])
      else if length m = IPv4len then (if length ip \<noteq> IPv4len then ([], []) else (ip, m))
      else if length m = IPv6len then (if length ip = IPv4len then (ip, drop 12 m) else (ip, m))
      else ([], []))"

definition Contains :: "IPNet \<Rightarrow> byte list \<Rightarrow> bool" where
  "Contains n ip =
     (let (nn, m) = networkNumberAndMask n; ip' = (if to4 ip \<noteq> [] then to4 ip else ip) in
      length ip' = length nn \<and> map2 (AND) nn m = map2 (AND) ip' m)"

subsection \<open>Masks as arithmetic\<close>

text \<open>\<open>mask_of l n\<close> keeps the \<open>n\<close> high bits of an address of \<open>l\<close> bytes.\<close>

lemma and_not_mask_byte:
  assumes "n < 8"
  shows "unat (b AND NOT (drop_bit n 0xff) :: byte) = blk (8 - n) (unat b)"
proof -
  have m: "drop_bit n 0xff = (mask (8 - n) :: byte)"
    using less8_cases [OF assms] by (elim disjE) (simp_all add: mask_eq_exp_minus_1)
  have "b AND NOT (mask k) = push_bit k (drop_bit k b)" for k
    by (auto simp: bit_eq_iff bit_simps)
  moreover have "unat (push_bit k (drop_bit k b)) = blk k (unat b)" if "k \<le> 8" for k
  proof -
    have "blk k (unat b) < 2 ^ 8" using le_less_trans [OF blk_le unat_byte] by simp
    then show ?thesis
      by (simp add: unsigned_push_bit_eq unat_drop_bit_eq blk_def drop_bit_nat_def push_bit_nat_def
          take_bit_nat_eq_self)
  qed
  ultimately show ?thesis by (simp add: m)
qed

lemma map2_and_zeros: "map2 (AND) bs (replicate (length bs) 0) = replicate (length bs) (0 :: byte)"
  by (induction bs) auto

lemma ip_val_and_mask [byte_val]:
  "length bs = l \<Longrightarrow> n \<le> 8 * l \<Longrightarrow>
    ip_val (map2 (AND) bs (mask_bytes l n)) = blk (8 * l - n) (ip_val bs)"
proof (induction l n arbitrary: bs rule: mask_bytes.induct)
  case (2 l n)
  then obtain b cs where bs: "bs = b # cs" and l: "length cs = l"
    by (cases bs) auto
  have P: "(256::nat) ^ l = 2 ^ (8 * l)" by (simp add: power_mult)
  show ?case
  proof (cases "8 \<le> n")
    case True
    let ?k = "8 * l - (n - 8)"
    have "(2::nat) ^ (8 * l) = 2 ^ (n - 8) * 2 ^ ?k"
      using 2 True by (simp flip: power_add)
    then have "blk ?k (unat b * 256 ^ l + ip_val cs) = unat b * 256 ^ l + blk ?k (ip_val cs)"
      unfolding blk_def P by (simp add: mult.assoc [symmetric] distrib_right)
    moreover have "8 * Suc l - n = ?k" using True 2 by simp
    moreover have "b AND 0xff = b"
    proof -
      have "(0xff :: byte) = - 1" by simp
      then show ?thesis by (metis and.right_neutral)
    qed
    ultimately show ?thesis using 2 True l by (simp add: bs)
  next
    case False
    have "ip_val cs < 2 ^ (8 * l)" using ip_val_bound [of cs] l P by simp
    then have "(unat b * 2 ^ (8 * l) + ip_val cs) div 2 ^ (8 * l) div 2 ^ (8 - n)
        = unat b div 2 ^ (8 - n)" by simp
    then have "blk (8 * l + (8 - n)) (unat b * 2 ^ (8 * l) + ip_val cs)
        = blk (8 - n) (unat b) * 2 ^ (8 * l)"
      by (simp add: blk_def power_add div_mult2_eq)
    moreover have "8 * Suc l - n = 8 * l + (8 - n)" using False by simp
    ultimately show ?thesis
      using False l map2_and_zeros [of cs] by (simp add: bs and_not_mask_byte P)
  qed
qed simp


subsection \<open>Canonical networks\<close>

text \<open>
  \<open>canon l k n\<close>: the network \<open>n\<close> has an address of \<open>l\<close> bytes (4 or 16) in its own family
  (no IPv4-mapped IPv6 address), the prefix mask of \<open>k\<close> bits, and no bit outside the mask.
  \<open>net.ParseCIDR\<close> returns such networks, but for those that are \<open>mapped\<close>.
\<close>

definition canon :: "nat \<Rightarrow> nat \<Rightarrow> IPNet \<Rightarrow> bool" where
  "canon l k n \<longleftrightarrow> length (IP n) = l \<and> Mask n = mask_bytes l k \<and> k \<le> 8 * l
     \<and> 2 ^ (8 * l - k) dvd ip_val (IP n) \<and> (l = 4 \<or> l = 16 \<and> to4 (IP n) = [])"

definition mapped :: "IPNet \<Rightarrow> bool" where
  "mapped n \<longleftrightarrow> length (IP n) = 16 \<and> to4 (IP n) \<noteq> []"

text \<open>The first and the last address of a network, and its address set.\<close>

definition net_first :: "IPNet \<Rightarrow> nat" where
  "net_first n = ip_val (IP n)"

definition net_bits :: "IPNet \<Rightarrow> nat" where
  "net_bits n = 8 * length (IP n) - the (simpleMaskLength (Mask n))"

definition net_addrs :: "IPNet \<Rightarrow> nat set" where
  "net_addrs n = {net_first n ..< net_first n + 2 ^ net_bits n}"

lemma canonD:
  assumes "canon l k n"
  shows "length (IP n) = l" "length (Mask n) = l" "Mask n = mask_bytes l k" "k \<le> 8 * l"
    "2 ^ (8 * l - k) dvd ip_val (IP n)" "l = 4 \<or> l = 16" "0 < l"
    "to4 (IP n) = (if l = 4 then IP n else [])" "l = 16 \<Longrightarrow> to4 (IP n) = []"
  using assms by (auto simp: canon_def)

lemma canon_net_bits: "canon l k n \<Longrightarrow> net_bits n = 8 * l - k"
  by (simp add: canon_def net_bits_def simpleMaskLength_mask_bytes)

lemma canon_mask_Size: "canon l k n \<Longrightarrow> mask_Size (Mask n) = (int k, int l * 8)"
  by (simp add: canon_def mask_Size_mask_bytes)

lemma mem_net_addrs:
  "canon l k n \<Longrightarrow> x \<in> net_addrs n \<longleftrightarrow> x div 2 ^ (8 * l - k) = ip_val (IP n) div 2 ^ (8 * l - k)"
proof -
  assume n: "canon l k n"
  let ?b = "2 ^ (8 * l - k) :: nat"
  obtain q where q: "ip_val (IP n) = ?b * q"
    using canonD(5) [OF n] by (rule dvdE)
  have "x div ?b = q \<longleftrightarrow> ?b * q \<le> x \<and> x < ?b * q + ?b"
    by (rule div_block_iff) simp
  then show ?thesis by (simp add: net_addrs_def net_first_def canon_net_bits [OF n] q)
qed

lemma networkNumberAndMask_canon: "canon l k n \<Longrightarrow> networkNumberAndMask n = (IP n, Mask n)"
  using canonD [of l k n] by (auto simp: networkNumberAndMask_def ip_len Let_def)

lemma ip_Mask_same: "length ip = length m \<Longrightarrow> ip_Mask ip m = map2 (AND) ip m"
  by (auto simp: ip_Mask_def ip_len Let_def)

lemma to4_iff: 
  assumes "length ip = 16"
  shows "to4 ip \<noteq> [] \<longleftrightarrow> ip_val ip div 2 ^ 32 = 65535"
proof -
  have v: "ip_val v4InV6Prefix = 65535" by (simp add: v4InV6Prefix_def)
  have len: "length (take 12 ip) = length v4InV6Prefix"
    using assms by (simp add: v4InV6Prefix_def)
  have "ip_val (drop 12 ip) < 2 ^ 32" using ip_val_bound [of "drop 12 ip"] assms by simp
  then have "ip_val ip div 2 ^ 32 = ip_val (take 12 ip)"
    using ip_val_split [of ip 12] assms by simp
  then have "ip_val ip div 2 ^ 32 = 65535 \<longleftrightarrow> take 12 ip = v4InV6Prefix"
    using v len ip_val_inject by metis
  then show ?thesis using assms by (auto simp: to4_def ip_len)
qed

lemma to4_masked:
  assumes "length ip = 16" "to4 ip = []" "k \<le> 128"
  shows "to4 (map2 (AND) ip (mask_bytes 16 k)) = []"
proof (rule ccontr)
  let ?m = "128 - k"
  assume "to4 (map2 (AND) ip (mask_bytes 16 k)) \<noteq> []"
  then have b: "blk ?m (ip_val ip) div 2 ^ 32 = 65535"
    using assms by (simp add: to4_iff byte_val)
  show False
  proof (cases "?m \<le> 32")
    case True
    have "blk ?m (ip_val ip) div 2 ^ 32 = ip_val ip div 2 ^ 32"
      using div_eq_mono [OF True blk_div] .
    with b to4_iff [OF assms(1)] assms(2) show False by simp
  next
    case False
    then have "(2::nat) ^ 33 dvd blk ?m (ip_val ip)"
      by (intro dvd_trans [OF le_imp_power_dvd blk_dvd]) simp
    then have "2 dvd blk ?m (ip_val ip) div 2 ^ 32" by auto
    with b show False by simp
  qed
qed

lemma Contains_canon:
  assumes n: "canon l k n" and ip: "length ip = l" "l = 16 \<Longrightarrow> to4 ip = []"
  shows "Contains n ip \<longleftrightarrow> ip_val ip \<in> net_addrs n"
proof -
  note nD = canonD [OF n]
  have "(if to4 ip \<noteq> [] then to4 ip else ip) = ip"
    using ip nD(6) by auto
  then have "Contains n ip \<longleftrightarrow> map2 (AND) (IP n) (Mask n) = map2 (AND) ip (Mask n)"
    using ip(1) nD(1) by (simp add: Contains_def networkNumberAndMask_canon [OF n])
  also have "\<dots> \<longleftrightarrow> ip_val (map2 (AND) (IP n) (Mask n)) = ip_val (map2 (AND) ip (Mask n))"
    using ip_val_inject [of "map2 (AND) (IP n) (Mask n)" "map2 (AND) ip (Mask n)"] ip(1) nD(1)
    by auto
  also have "\<dots> \<longleftrightarrow> ip_val (IP n) div 2 ^ (8 * l - k) = ip_val ip div 2 ^ (8 * l - k)"
    using ip(1) nD(1,3,4) by (simp add: byte_val) (simp add: blk_def)
  finally show ?thesis by (auto simp: mem_net_addrs [OF n])
qed

end
