(* ===== verification/GoText.thy ===== *)
theory GoText
  imports Prelude
begin

text \<open>
  The string functions of Go's standard library the repository calls, on strings as lists of
  bytes (\<open>char\<close>): \<open>strings.Split\<close>, \<open>strings.Contains\<close>, \<open>strings.TrimSpace\<close>, \<open>strconv.Itoa\<close>, \<open>strconv.Atoi\<close> and the hexadecimal printing of \<open>net\<close>.
  The lemmas are the round trip of decimal and hexadecimal numbers and the behaviour of
  \<open>Split\<close> on a string with one separator.
\<close>

subsection \<open>Splitting and searching\<close>

text \<open>\<open>strings.Split(s, sep)\<close> for a separator of one byte: always at least one piece.\<close>

fun Split :: "char \<Rightarrow> string \<Rightarrow> string list" where
  "Split sep [] = [[]]"
| "Split sep (c # cs) =
     (if c = sep then [] # Split sep cs
      else (case Split sep cs of [] \<Rightarrow> [[c]] | p # ps \<Rightarrow> (c # p) # ps))"

text \<open>\<open>strings.Cut(s, sep)\<close>: \<open>None\<close> when the separator does not occur.\<close>

fun Cut :: "char \<Rightarrow> string \<Rightarrow> (string \<times> string) option" where
  "Cut sep [] = None"
| "Cut sep (c # cs) =
     (if c = sep then Some ([], cs) else map_option (apfst ((#) c)) (Cut sep cs))"

text \<open>\<open>strings.Contains(s, t)\<close> for a \<open>t\<close> of one byte.\<close>

definition StrContains :: "string \<Rightarrow> char \<Rightarrow> bool" where
  "StrContains s c = List.member s c"

text \<open>
  The white space of Unicode in UTF-8: the six of ASCII, U+0085, U+00A0, U+1680, U+2000 to
  U+200A, U+2028, U+2029, U+202F, U+205F and U+3000. An encoding is a whole character wherever
  it stands, so cutting it from either end of the bytes is cutting the character.
\<close>

definition space_runes :: "string list" where
  "space_runes = [[CHR 0x09], [CHR 0x0A], [CHR 0x0B], [CHR 0x0C], [CHR 0x0D], [CHR '' ''],
     [CHR 0xC2, CHR 0x85], [CHR 0xC2, CHR 0xA0], [CHR 0xE1, CHR 0x9A, CHR 0x80]]
     @ map (\<lambda>c. [CHR 0xE2, CHR 0x80, c])
         [CHR 0x80, CHR 0x81, CHR 0x82, CHR 0x83, CHR 0x84, CHR 0x85, CHR 0x86, CHR 0x87,
          CHR 0x88, CHR 0x89, CHR 0x8A, CHR 0xA8, CHR 0xA9, CHR 0xAF]
     @ [[CHR 0xE2, CHR 0x81, CHR 0x9F], [CHR 0xE3, CHR 0x80, CHR 0x80]]"

function trim_left :: "string list \<Rightarrow> string \<Rightarrow> string" where
  "trim_left rs s = (case find (\<lambda>r. r \<noteq> [] \<and> take (length r) s = r) rs of
     None \<Rightarrow> s | Some r \<Rightarrow> trim_left rs (drop (length r) s))"
  by pat_completeness auto
termination
  by (relation "measure (\<lambda>(rs, s). length s)")
    (auto simp: find_Some_iff diff_less_mono2 dest!: nth_mem intro!: diff_less)

declare trim_left.simps [simp del]

definition TrimSpace :: "string \<Rightarrow> string" where
  "TrimSpace s = rev (trim_left (map rev space_runes) (rev (trim_left space_runes s)))"

text \<open>A text that begins and ends with other bytes than those of white space is left as it is.\<close>

lemma trim_left_other:
  assumes "\<And>r. r \<in> set rs \<Longrightarrow> take 1 r \<noteq> take 1 s"
  shows "trim_left rs s = s"
proof -
  have "\<not> (r \<noteq> [] \<and> take (length r) s = r)" if "r \<in> set rs" for r
    using assms [OF that] by (cases r; cases s) auto
  then have "find (\<lambda>r. r \<noteq> [] \<and> take (length r) s = r) rs = None" by (simp add: find_None_iff)
  then show ?thesis by (simp add: trim_left.simps [of rs s])
qed

lemma TrimSpace_id:
  assumes "\<forall>r\<in>set space_runes. take 1 r \<noteq> take 1 s" "\<forall>r\<in>set space_runes. take 1 (rev r) \<noteq> take 1 (rev s)"
  shows "TrimSpace s = s"
proof -
  have "trim_left space_runes s = s" by (rule trim_left_other) (use assms(1) in blast)
  moreover have "trim_left (map rev space_runes) (rev s) = rev s"
    by (rule trim_left_other) (use assms(2) in auto)
  ultimately show ?thesis by (simp add: TrimSpace_def)
qed

lemma Split_nonempty [simp]: "Split sep s \<noteq> []"
  by (induction s) (auto split: list.splits)

lemma Split_none: "sep \<notin> set s \<Longrightarrow> Split sep s = [s]"
  by (induction s) auto

lemma Split_append: "sep \<notin> set s \<Longrightarrow> Split sep (s @ sep # t) = s # Split sep t"
  by (induction s) auto

lemma length_Split: "length (Split sep s) = Suc (count_list s sep)"
proof (induction s)
  case (Cons c cs)
  then show ?case by (cases "Split sep cs") auto
qed simp

lemma Split_hd_tl: "sep \<notin> set p \<Longrightarrow> Cut sep (p @ sep # t) = Some (p, t)"
  by (induction p) auto

lemma Cut_none: "sep \<notin> set s \<Longrightarrow> Cut sep s = None"
  by (induction s) auto

lemma StrContains_iff [simp]: "StrContains s c \<longleftrightarrow> c \<in> set s"
  by (simp add: StrContains_def)

subsection \<open>Numbers as text\<close>

definition is_digit :: "char \<Rightarrow> bool" where
  "is_digit c = (48 \<le> (of_char c :: nat) \<and> (of_char c :: nat) \<le> 57)"

definition digit_val :: "char \<Rightarrow> nat" where
  "digit_val c = of_char c - 48"

fun Itoa :: "nat \<Rightarrow> string" where
  "Itoa n = (if n < 10 then [char_of (48 + n)] else Itoa (n div 10) @ [char_of (48 + n mod 10)])"

declare Itoa.simps [simp del]

definition dec_val :: "string \<Rightarrow> nat" where
  "dec_val s = foldl (\<lambda>a c. a * 10 + digit_val c) 0 s"

text \<open>
  \<open>strconv.Atoi\<close>: an optional sign and at least one digit, an error when the value is not
  in the range of \<open>int\<close>.
\<close>

definition Atoi :: "string \<Rightarrow> int option" where
  "Atoi s =
     (let (neg, ds) = (case s of [] \<Rightarrow> (False, [])
            | c # cs \<Rightarrow> if c = CHR ''-'' then (True, cs) else if c = CHR ''+'' then (False, cs)
              else (False, s));
          v = (if neg then - int (dec_val ds) else int (dec_val ds))
      in if ds = [] \<or> \<not> list_all is_digit ds \<or> v < - (2 ^ 63) \<or> 2 ^ 63 \<le> v then None else Some v)"

text \<open>\<open>fmt.Sprintf("%v", x)\<close> of an \<open>int\<close>.\<close>

definition fmt_int :: "int \<Rightarrow> string" where
  "fmt_int x = (if x < 0 then CHR ''-'' # Itoa (nat (- x)) else Itoa (nat x))"

definition hex_digit :: "nat \<Rightarrow> char" where
  "hex_digit d = (if d < 10 then char_of (48 + d) else char_of (87 + d))"

text \<open>\<open>appendHex\<close>: lower-case hexadecimal without leading zeros.\<close>

fun hex :: "nat \<Rightarrow> string" where
  "hex n = (if n < 16 then [hex_digit n] else hex (n div 16) @ [hex_digit (n mod 16)])"

declare hex.simps [simp del]

definition hexString :: "8 word list \<Rightarrow> string" where
  "hexString bs = concat (map (\<lambda>b. [hex_digit (unat b div 16), hex_digit (unat b mod 16)]) bs)"

text \<open>The value of a hexadecimal digit as the IPv6 parser reads it.\<close>

definition hex_val :: "char \<Rightarrow> nat option" where
  "hex_val c = (let v = of_char c :: nat in
     if 48 \<le> v \<and> v \<le> 57 then Some (v - 48)
     else if 97 \<le> v \<and> v \<le> 102 then Some (v - 87)
     else if 65 \<le> v \<and> v \<le> 70 then Some (v - 55) else None)"

lemma digit_char [simp]:
  "d < 10 \<Longrightarrow> is_digit (char_of (48 + d))" "d < 10 \<Longrightarrow> digit_val (char_of (48 + d)) = d"
  by (simp_all add: is_digit_def digit_val_def)

lemma is_digit_not_sep:
  "\<not> is_digit CHR ''.''" "\<not> is_digit CHR ''/''" "\<not> is_digit CHR '':''" "\<not> is_digit CHR ''-''"
  "\<not> is_digit CHR ''+''" "\<not> is_digit CHR ''%''"
  by (simp_all add: is_digit_def)

lemma Itoa_digits: "list_all is_digit (Itoa n)"
proof (induction n rule: Itoa.induct)
  case (1 n)
  then show ?case by (subst Itoa.simps) auto
qed

lemma Itoa_nonempty [simp]: "Itoa n \<noteq> []"
  by (subst Itoa.simps) simp

lemma Itoa_set: "c \<in> set (Itoa n) \<Longrightarrow> is_digit c"
  using Itoa_digits [of n] by (auto simp: list_all_iff)

lemma Itoa_no_sep [simp]:
  "CHR ''.'' \<notin> set (Itoa n)" "CHR ''/'' \<notin> set (Itoa n)" "CHR '':'' \<notin> set (Itoa n)"
  "CHR ''%'' \<notin> set (Itoa n)"
  using Itoa_set [of _ n] is_digit_not_sep by blast+

lemma dec_val_snoc [simp]: "dec_val (s @ [c]) = dec_val s * 10 + digit_val c"
  by (simp add: dec_val_def)

lemma dec_val_Itoa [simp]: "dec_val (Itoa n) = n"
proof (induction n rule: Itoa.induct)
  case (1 n)
  then show ?case by (subst Itoa.simps) (simp add: dec_val_def [of "[_]"])
qed

lemma Atoi_Itoa: "int n < 2 ^ 63 \<Longrightarrow> Atoi (Itoa n) = Some (int n)"
proof -
  assume "int n < 2 ^ 63"
  moreover obtain c cs where c: "Itoa n = c # cs" by (cases "Itoa n") auto
  moreover have "is_digit c" using c Itoa_set [of c n] by simp
  ultimately show ?thesis
    using Itoa_digits [of n] dec_val_Itoa [of n] is_digit_not_sep
    by (auto simp: Atoi_def Let_def)
qed

end
