(* ===== verification/NetText.thy ===== *)
theory NetText
  imports GoNet GoText
begin

text \<open>
  The textual form of networks in Go's \<open>net\<close> and \<open>net/netip\<close>: \<open>IPNet.String\<close> and
  \<open>net.ParseCIDR\<close>, both address families, byte by byte as the library has them (the
  IPv6 text with its \<open>::\<close> for the longest run of zero groups, the parser with its
  error exits, the embedded IPv4 tail and the zone).

  The controller writes the text of an allocated block into the node object and reads it
  back after a restart, so the round trip of this theory is what makes its memory of
  allocations durable.
\<close>

subsection \<open>Printing\<close>

definition dotted :: "byte list \<Rightarrow> string" where
  "dotted ip = Itoa (unat (ip ! 0)) @ ''.'' @ Itoa (unat (ip ! 1)) @ ''.''
     @ Itoa (unat (ip ! 2)) @ ''.'' @ Itoa (unat (ip ! 3))"

text \<open>The eight 16-bit groups of an IPv6 address.\<close>

fun groups :: "byte list \<Rightarrow> nat list" where
  "groups (a # b # bs) = (unat a * 256 + unat b) # groups bs"
| "groups _ = []"

text \<open>The run of zero groups that \<open>appendTo6\<close> abbreviates: the first longest of length 2 or more.\<close>

definition zero_run :: "nat list \<Rightarrow> nat \<times> nat" where
  "zero_run us = fold (\<lambda>i (zs, ze).
      let l = length (takeWhile (\<lambda>u. u = 0) (drop i us))
      in if 2 \<le> l \<and> ze - zs < l then (i, i + l) else (zs, ze)) [0..<8] (255, 255)"

fun append6 :: "nat \<Rightarrow> nat list \<Rightarrow> nat \<Rightarrow> nat \<Rightarrow> nat \<Rightarrow> string" where
  "append6 0 us zs ze i = []"
| "append6 (Suc k) us zs ze i =
     (if 8 \<le> i then []
      else if i = zs then
        ''::'' @ (if 8 \<le> ze then [] else hex (us ! ze) @ append6 k us zs ze (ze + 1))
      else (if 0 < i then '':'' else []) @ hex (us ! i) @ append6 k us zs ze (i + 1))"

definition string6 :: "byte list \<Rightarrow> string" where
  "string6 ip = (let us = groups ip; (zs, ze) = zero_run us in append6 8 us zs ze 0)"

definition IP_String :: "byte list \<Rightarrow> string" where
  "IP_String ip =
     (if ip = [] then ''<nil>''
      else if length ip \<noteq> IPv4len \<and> length ip \<noteq> IPv6len then ''?'' @ hexString ip
      else if to4 ip \<noteq> [] then dotted (to4 ip) else string6 ip)"

definition IPNet_String :: "IPNet \<Rightarrow> string" where
  "IPNet_String n =
     (let (nn, m) = networkNumberAndMask n in
      if nn = [] \<or> m = [] then ''<nil>''
      else case simpleMaskLength m of
          None \<Rightarrow> IP_String nn @ ''/'' @ hexString m
        | Some l \<Rightarrow> IP_String nn @ ''/'' @ Itoa l)"

subsection \<open>Parsing\<close>

text \<open>
  \<open>parseIPv4Fields\<close>: \<open>fresh\<close> says that the previous byte was a dot or that there is none,
  \<open>val\<close> and \<open>digLen\<close> are the octet read so far, \<open>octs\<close> the octets before it.
\<close>

fun parseIPv4Fields :: "bool \<Rightarrow> nat \<Rightarrow> nat \<Rightarrow> nat list \<Rightarrow> string \<Rightarrow> nat list option" where
  "parseIPv4Fields fresh val digLen octs [] =
     (if length octs < 3 then None else Some (octs @ [val]))"
| "parseIPv4Fields fresh val digLen octs (c # cs) =
     (if is_digit c then
        (if digLen = 1 \<and> val = 0 then None
         else if 255 < val * 10 + digit_val c then None
         else parseIPv4Fields False (val * 10 + digit_val c) (digLen + 1) octs cs)
      else if c = CHR ''.'' then
        (if fresh \<or> cs = [] then None
         else if length octs = 3 then None
         else parseIPv4Fields True 0 0 (octs @ [val]) cs)
      else None)"

datatype Addr = Addr4 "byte list" | Addr6 "byte list" string

definition octets :: "nat list \<Rightarrow> byte list" where
  "octets = map of_nat"

definition parseIPv4 :: "string \<Rightarrow> Addr option" where
  "parseIPv4 s = map_option (\<lambda>f. Addr4 (octets f)) (parseIPv4Fields True 0 0 [] s)"

text \<open>One hexadecimal group: its length, its value and the rest of the input.\<close>

fun hex_group :: "nat \<Rightarrow> nat \<Rightarrow> string \<Rightarrow> (nat \<times> nat \<times> string) option" where
  "hex_group off acc [] = Some (off, acc, [])"
| "hex_group off acc (c # cs) =
     (case hex_val c of None \<Rightarrow> Some (off, acc, c # cs)
      | Some d \<Rightarrow> if 3 < off \<or> 65535 < acc * 16 + d then None
          else hex_group (off + 1) (acc * 16 + d) cs)"

text \<open>
  The loop of \<open>parseIPv6\<close>. Every round adds a group, so 8 rounds fill the address: the fuel is
  the number of groups left, and running out of it is the loop guard \<open>i < 16\<close>.
\<close>

fun groups_loop :: "nat \<Rightarrow> string \<Rightarrow> byte list \<Rightarrow> nat option \<Rightarrow> (string \<times> byte list \<times> nat option) option"
where
  "groups_loop 0 s ip ellipsis = Some (s, ip, ellipsis)"
| "groups_loop (Suc k) s ip ellipsis =
     (case hex_group 0 0 s of None \<Rightarrow> None
      | Some (off, acc, rest) \<Rightarrow>
        if off = 0 then None
        else if rest \<noteq> [] \<and> hd rest = CHR ''.'' then
          (if ellipsis = None \<and> length ip \<noteq> 12 then None
           else if 16 < length ip + 4 then None
           else map_option (\<lambda>f. ([], ip @ octets f, ellipsis)) (parseIPv4Fields True 0 0 [] s))
        else
          (let ip' = ip @ [of_nat (acc div 256), of_nat acc] in
           case rest of [] \<Rightarrow> Some ([], ip', ellipsis)
           | c # s1 \<Rightarrow>
             if c \<noteq> CHR '':'' then None
             else (case s1 of [] \<Rightarrow> None
               | d # s2 \<Rightarrow>
                 if d = CHR '':'' then
                   (if ellipsis \<noteq> None then None
                    else if s2 = [] then Some ([], ip', Some (length ip'))
                    else groups_loop k s2 ip' (Some (length ip')))
                 else groups_loop k s1 ip' ellipsis)))"

definition parseIPv6 :: "string \<Rightarrow> Addr option" where
  "parseIPv6 text =
     (let (s, zone, zone_ok) = (case Cut CHR ''%'' text of None \<Rightarrow> (text, [], True)
            | Some (a, z) \<Rightarrow> (a, z, z \<noteq> []));
          lead = (take 2 s = ''::'');
          s' = (if lead then drop 2 s else s);
          ellipsis = (if lead then Some 0 else None)
      in if \<not> zone_ok then None
         else if lead \<and> s' = [] then Some (Addr6 (replicate 16 0) zone)
         else case groups_loop 8 s' [] ellipsis of None \<Rightarrow> None
           | Some (rest, ip, e) \<Rightarrow>
             if rest \<noteq> [] then None
             else if length ip < 16 then
               (case e of None \<Rightarrow> None
                | Some k \<Rightarrow> Some (Addr6 (take k ip @ replicate (16 - length ip) 0 @ drop k ip) zone))
             else if e \<noteq> None then None
             else Some (Addr6 ip zone))"

text \<open>\<open>netip.ParseAddr\<close> chooses the family by the first dot, colon or percent sign.\<close>

definition ParseAddr :: "string \<Rightarrow> Addr option" where
  "ParseAddr s =
     (case dropWhile (\<lambda>c. c \<notin> {CHR ''.'', CHR '':'', CHR ''%''}) s of
        [] \<Rightarrow> None
      | c # _ \<Rightarrow> if c = CHR ''.'' then parseIPv4 s
                else if c = CHR '':'' then parseIPv6 s else None)"

text \<open>
  \<open>dtoi\<close>: the mask length; \<open>None\<close> without a digit, at a rest, or when the value read reaches
  0xFFFFFF (it only grows with the digits, so testing the whole number is the same).
\<close>

definition mask_digits :: "string \<Rightarrow> nat option" where
  "mask_digits s =
     (if s \<noteq> [] \<and> list_all is_digit s \<and> dec_val s < 0xFFFFFF then Some (dec_val s) else None)"

definition ParseCIDR :: "string \<Rightarrow> IPNet option" where
  "ParseCIDR s =
     (case Cut CHR ''/'' s of None \<Rightarrow> None
      | Some (addr, msk) \<Rightarrow>
        (case ParseAddr addr of None \<Rightarrow> None
         | Some a \<Rightarrow>
           (let (zone, bitlen, as16) = (case a of
                    Addr4 ip \<Rightarrow> ([], 32, v4InV6Prefix @ ip) | Addr6 ip z \<Rightarrow> (z, 128, ip))
            in case mask_digits msk of None \<Rightarrow> None
               | Some n \<Rightarrow>
                 if zone \<noteq> [] \<or> bitlen < n then None
                 else let m = CIDRMask (int n) (int bitlen)
                      in Some \<lparr>IP = ip_Mask as16 m, Mask = m\<rparr>)))"


subsection \<open>Round trip of IPv4 networks\<close>

lemma Itoa_1: "a < 10 \<Longrightarrow> Itoa a = [char_of (48 + a)]"
  by (simp add: Itoa.simps)

lemma Itoa_2: "10 \<le> a \<Longrightarrow> a < 100 \<Longrightarrow> Itoa a = [char_of (48 + a div 10), char_of (48 + a mod 10)]"
  by (subst Itoa.simps) (simp add: Itoa_1)

lemma Itoa_3: "100 \<le> a \<Longrightarrow> a < 1000 \<Longrightarrow>
    Itoa a = [char_of (48 + a div 100), char_of (48 + a div 10 mod 10), char_of (48 + a mod 10)]"
  by (subst Itoa.simps) (simp add: Itoa_2 flip: div_mult2_eq)

lemma octet_cases:
  assumes "(a :: nat) < 256"
  obtains "a < 10" | "10 \<le> a" "a < 100" | "100 \<le> a" "a < 1000"
  using assms by linarith

lemma parse_three_digits:
  assumes "h < 10" "h \<noteq> 0" "t < 10" "u < 10" "(h * 10 + t) * 10 + u < 256"
  shows "parseIPv4Fields True 0 0 octs (char_of (48 + h) # char_of (48 + t) # char_of (48 + u) # rest)
    = parseIPv4Fields False ((h * 10 + t) * 10 + u) 3 octs rest"
proof -
  have "\<not> 255 < h" "\<not> 255 < h * 10 + t" "\<not> 255 < (h * 10 + t) * 10 + u" using assms by linarith+
  with assms(1-4) show ?thesis by (simp add: numeral_3_eq_3)
qed

lemma parse_octet:
  assumes "a < 256"
  shows "parseIPv4Fields True 0 0 octs (Itoa a @ rest)
    = parseIPv4Fields False a (length (Itoa a)) octs rest"
  using assms
proof (cases rule: octet_cases)
  case 1
  then show ?thesis by (simp add: Itoa_1)
next
  case 2
  then have "a div 10 < 10" "a div 10 \<noteq> 0" "a div 10 * 10 + a mod 10 = a" "\<not> 255 < a div 10"
    by auto
  then show ?thesis using 2 assms by (simp add: Itoa_2)
next
  case 3
  have e: "(a div 100 * 10 + a div 10 mod 10) * 10 + a mod 10 = a"
    using div_mult2_eq [of a 10 10] div_mult_mod_eq [of "a div 10" 10] div_mult_mod_eq [of a 10]
    by simp
  have "a div 100 < 10" "a div 100 \<noteq> 0" "a div 10 mod 10 < 10" "a mod 10 < 10" using 3 by auto
  from parse_three_digits [OF this, of octs rest] show ?thesis
    using 3 assms unfolding e by (simp add: Itoa_3 numeral_3_eq_3 del: parseIPv4Fields.simps)
qed

lemma list4: "length xs = 4 \<longleftrightarrow> (\<exists>a b c d. xs = [a, b, c, d])"
  by (auto simp: length_Suc_conv numeral_eq_Suc)

lemma parse_dotted:
  "length ip = 4 \<Longrightarrow> parseIPv4Fields True 0 0 [] (dotted ip) = Some (map unat ip)"
  by (auto simp: list4 dotted_def parse_octet is_digit_not_sep)
    (simp_all add: parse_octet [where rest = "[]", simplified] is_digit_not_sep)

lemma octets_unat [simp]: "octets (map unat ip) = ip"
  by (induction ip) (simp_all add: octets_def)

lemma dotted_no_slash: "CHR ''/'' \<notin> set (dotted ip)"
  by (simp add: dotted_def)

lemma dropWhile_Itoa:
  "dropWhile (\<lambda>c. c \<noteq> CHR ''.'' \<and> c \<noteq> CHR '':'' \<and> c \<noteq> CHR ''%'') (Itoa a @ x) =
   dropWhile (\<lambda>c. c \<noteq> CHR ''.'' \<and> c \<noteq> CHR '':'' \<and> c \<noteq> CHR ''%'') x"
  by (rule dropWhile_append2) (auto dest: Itoa_set simp: is_digit_not_sep)

lemma ParseAddr_dotted: "length ip = 4 \<Longrightarrow> ParseAddr (dotted ip) = Some (Addr4 ip)"
proof -
  assume ip: "length ip = 4"
  have "dropWhile (\<lambda>c. c \<notin> {CHR ''.'', CHR '':'', CHR ''%''}) (dotted ip)
      = ''.'' @ Itoa (unat (ip ! 1)) @ ''.'' @ Itoa (unat (ip ! 2)) @ ''.'' @ Itoa (unat (ip ! 3))"
    by (simp add: dotted_def dropWhile_Itoa)
  then show ?thesis by (simp add: ParseAddr_def parseIPv4_def parse_dotted ip)
qed

lemma mask_digits_Itoa: "n < 0xFFFFFF \<Longrightarrow> mask_digits (Itoa n) = Some n"
  using Itoa_digits [of n] by (simp add: mask_digits_def)

lemma IPNet_String_v4: "canon 4 k n \<Longrightarrow> IPNet_String n = dotted (IP n) @ ''/'' @ Itoa k"
proof -
  assume n: "canon 4 k n"
  have "IP n \<noteq> []" "Mask n \<noteq> []" using canonD(1,2) [OF n] by auto
  then show ?thesis using canonD [OF n] unfolding IPNet_String_def networkNumberAndMask_canon [OF n]
    by (simp add: IP_String_def ip_len simpleMaskLength_mask_bytes del: mask_bytes.simps)
qed

lemma ip_Mask_v4_as16:
  "length ip = 4 \<Longrightarrow> length m = 4 \<Longrightarrow> ip_Mask (v4InV6Prefix @ ip) m = map2 (AND) ip m"
  by (simp add: ip_Mask_def ip_len v4InV6Prefix_def)

lemma canon_masked_id: "canon l k n \<Longrightarrow> map2 (AND) (IP n) (Mask n) = IP n"
  using canonD [of l k n] by (intro ip_val_inject) (auto simp: byte_val)

lemma ParseCIDR_String_v4: "canon 4 k n \<Longrightarrow> ParseCIDR (IPNet_String n) = Some n"
  using canonD [of 4 k n] canon_masked_id [of 4 k n]
  by (simp add: IPNet_String_v4 ParseCIDR_def Split_hd_tl dotted_no_slash ParseAddr_dotted
      mask_digits_Itoa CIDRMask_def ip_Mask_v4_as16)

subsection \<open>IPv6 networks from text\<close>

text \<open>The text of an IPv6 address that is not IPv4-mapped, with a mask, parses to a canonical network.\<close>

lemma ParseCIDR_v6:
  assumes a: "CHR ''/'' \<notin> set a" "ParseAddr a = Some (Addr6 ip [])" "length ip = 16" "to4 ip = []"
    and k: "k \<le> 128"
  obtains n where "ParseCIDR (a @ ''/'' @ Itoa k) = Some n" "canon 16 k n"
proof -
  let ?m = "mask_bytes 16 k"
  have "CIDRMask (int k) 128 = ?m" using k by (simp add: CIDRMask_def)
  moreover have "length ?m = 16" by simp
  ultimately have "ParseCIDR (a @ ''/'' @ Itoa k) = Some \<lparr>IP = map2 (AND) ip ?m, Mask = ?m\<rparr>"
    using a k by (simp add: ParseCIDR_def Let_def Split_hd_tl mask_digits_Itoa ip_Mask_same del: mask_bytes.simps)
  moreover have "canon 16 k \<lparr>IP = map2 (AND) ip ?m, Mask = ?m\<rparr>"
    using a(3,4) k to4_masked [OF a(3,4)]
    by (simp add: canon_def byte_val blk_dvd del: mask_bytes.simps)
  ultimately show thesis by (rule that)
qed

subsection \<open>What the parser returns\<close>

lemma parseIPv4Fields_length:
  "parseIPv4Fields fresh v l octs s = Some f \<Longrightarrow> length octs \<le> 3 \<Longrightarrow> length f = 4"
proof (induction s arbitrary: fresh v l octs)
  case (Cons c cs)
  then show ?case
    using Cons.IH [of False _ _ octs] Cons.IH [of True _ _ "octs @ [v]"]
    by (auto split: if_splits)
qed (auto split: if_splits)

lemma groups_loop_length:
  "groups_loop k s ip e = Some (rest, ip', e') \<Longrightarrow> length ip + 2 * k \<le> 16 \<Longrightarrow> length ip' \<le> 16"
proof (induction k arbitrary: s ip e)
  case (Suc k)
  have f: "length f = 4" if "parseIPv4Fields True 0 0 [] s = Some f" for f
    using parseIPv4Fields_length [OF that] by simp
  show ?case
    using Suc.prems Suc.IH f
    by (fastforce simp: Let_def octets_def split: option.splits prod.splits if_splits list.splits)
qed simp

lemma ParseAddr_length:
  assumes "ParseAddr s = Some a"
  shows "case a of Addr4 ip \<Rightarrow> length ip = 4 | Addr6 ip z \<Rightarrow> length ip = 16"
proof -
  have "length ip = 4" if "parseIPv4 s = Some (Addr4 ip)" for ip
    using that parseIPv4Fields_length [of True 0 0 "[]" s] by (auto simp: parseIPv4_def octets_def)
  moreover have "length ip = 16" if "parseIPv6 s = Some (Addr6 ip z)" for ip z
    using that groups_loop_length [of 8 _ "[]"]
    by (fastforce simp: parseIPv6_def Let_def split: option.splits prod.splits if_splits)
  moreover have "parseIPv4 s \<noteq> Some (Addr6 ip z)" "parseIPv6 s \<noteq> Some (Addr4 ip)" for ip z
    by (auto simp: parseIPv4_def parseIPv6_def Let_def split: option.splits prod.splits if_splits)
  ultimately show ?thesis
    using assms by (cases a) (auto simp: ParseAddr_def split: list.splits if_splits)
qed

text \<open>A parsed network is canonical, or IPv4-mapped.\<close>

lemma masked_canon:
  assumes "length ip = l" "k \<le> 8 * l" "l = 4 \<or> l = 16" "\<not> mapped n"
    "n = \<lparr>IP = map2 (AND) ip (mask_bytes l k), Mask = mask_bytes l k\<rparr>"
  shows "canon l k n"
proof -
  have "2 ^ (8 * l - k) dvd ip_val (map2 (AND) ip (mask_bytes l k))"
    using assms(1,2) by (simp add: byte_val blk_dvd del: mask_bytes.simps)
  then show ?thesis using assms by (auto simp: canon_def mapped_def simp del: mask_bytes.simps)
qed

lemma ParseCIDR_canon:
  assumes "ParseCIDR s = Some n"
  shows "mapped n \<or> (\<exists>l k. canon l k n)"
proof -
  obtain addr msk a k where p: "Cut CHR ''/'' s = Some (addr, msk)" "ParseAddr addr = Some a" "mask_digits msk = Some k"
    using assms by (auto simp: ParseCIDR_def Let_def split: option.splits prod.splits)
  note len = ParseAddr_length [OF p(2)]
  show ?thesis
  proof (cases a)
    case (Addr4 ip)
    then have "n = \<lparr>IP = map2 (AND) ip (mask_bytes 4 k), Mask = mask_bytes 4 k\<rparr>" "k \<le> 8 * 4"
      using assms p len
      by (auto simp: ParseCIDR_def Let_def CIDRMask_def ip_Mask_v4_as16 simp del: mask_bytes.simps split: if_splits)
    then show ?thesis using masked_canon [of ip 4 k n] len Addr4 by auto
  next
    case (Addr6 ip z)
    then have "n = \<lparr>IP = map2 (AND) ip (mask_bytes 16 k), Mask = mask_bytes 16 k\<rparr>" "k \<le> 8 * 16"
      using assms p len
      by (auto simp: ParseCIDR_def Let_def CIDRMask_def ip_Mask_same simp del: mask_bytes.simps split: if_splits)
    then show ?thesis using masked_canon [of ip 16 k n] len Addr6 by auto
  qed
qed

end
