(* ===== verification/CidrSet.thy ===== *)
theory CidrSet
  imports NetText
begin

text \<open>
  \<open>pkg/ipam/cidrset\<close>: the set of node-sized blocks of one cluster CIDR with a bitmap of the
  blocks in use (\<open>cidrset.go\<close>), and the metric updates it makes (\<open>metrics.go\<close>).

  The definitions follow the source operation by operation. Every operation takes the lock
  of the set for its reads and writes of mutable fields, so it is one atomic function from
  the state to a result, the next state and the list of metric calls it makes. The metrics
  library itself is not under the repository: the calls are recorded, not interpreted.
\<close>

subsection \<open>Metrics\<close>

text \<open>
  The collectors: their options and their labels. The buckets of a histogram are the library's
  \<open>ExponentialBuckets\<close>, here of whole numbers.
\<close>

datatype collector_kind = CounterVec | GaugeVec | HistogramVec "int list"

record collector =
  c_kind :: collector_kind
  c_subsystem :: string
  c_name :: string
  c_help :: string
  c_stability :: string
  c_labels :: "string list"

definition ExponentialBuckets :: "int \<Rightarrow> int \<Rightarrow> nat \<Rightarrow> int list" where
  "ExponentialBuckets start factor n = map (\<lambda>i. start * factor ^ i) [0..<n]"

definition nodeIpamSubsystem :: string where
  "nodeIpamSubsystem = ''node_ipam_controller''"

definition cidrSetAllocations :: collector where
  "cidrSetAllocations = \<lparr>c_kind = CounterVec, c_subsystem = nodeIpamSubsystem,
     c_name = ''cidrset_cidrs_allocations_total'',
     c_help = ''Counter measuring total number of CIDR allocations.'',
     c_stability = ''ALPHA'', c_labels = [''clusterCIDR'']\<rparr>"

definition cidrSetReleases :: collector where
  "cidrSetReleases = \<lparr>c_kind = CounterVec, c_subsystem = nodeIpamSubsystem,
     c_name = ''cidrset_cidrs_releases_total'',
     c_help = ''Counter measuring total number of CIDR releases.'',
     c_stability = ''ALPHA'', c_labels = [''clusterCIDR'']\<rparr>"

definition cidrSetUsage :: collector where
  "cidrSetUsage = \<lparr>c_kind = GaugeVec, c_subsystem = nodeIpamSubsystem,
     c_name = ''cidrset_usage_cidrs'',
     c_help = ''Gauge measuring percentage of allocated CIDRs.'',
     c_stability = ''ALPHA'', c_labels = [''clusterCIDR'']\<rparr>"

definition cidrSetAllocationTriesPerRequest :: collector where
  "cidrSetAllocationTriesPerRequest = \<lparr>c_kind = HistogramVec (ExponentialBuckets 1 5 5),
     c_subsystem = nodeIpamSubsystem, c_name = ''cidrset_allocation_tries_per_request'',
     c_help = ''Number of endpoints added on each Service sync'',
     c_stability = ''ALPHA'', c_labels = [''clusterCIDR'']\<rparr>"

text \<open>
  The calls: a registration; \<open>Inc\<close> of the allocations and of the releases, \<open>Observe\<close> of the tries
  and \<open>Set\<close> of the usage (a quotient, kept as its two numbers), each with its label.
\<close>

datatype metric =
    Register collector
  | AllocationsInc string
  | ReleasesInc string
  | TriesObserve string int
  | UsageSet string int int

text \<open>
  \<open>registerCidrsetMetrics\<close>: a \<open>sync.Once\<close>, here the flag that it has run, around the four
  registrations.
\<close>

definition registerCidrsetMetrics :: "bool \<Rightarrow> bool \<times> metric list" where
  "registerCidrsetMetrics already =
     (if already then (True, [])
      else (True, [Register cidrSetAllocations, Register cidrSetReleases,
                   Register cidrSetUsage, Register cidrSetAllocationTriesPerRequest]))"

subsection \<open>The bitmap: math/big\<close>

text \<open>
  \<open>big.Int.Bit\<close> and \<open>SetBit\<close> on a number that is never negative. Both panic for a negative
  index, which no caller passes (\<open>cset_inv\<close> keeps candidates in range, the loops start at 0).
\<close>

definition big_Bit :: "nat \<Rightarrow> int \<Rightarrow> bool" where
  "big_Bit x i = bit x (nat i)"

definition big_SetBit :: "nat \<Rightarrow> int \<Rightarrow> bool \<Rightarrow> nat" where
  "big_SetBit x i b = (if b then set_bit (nat i) x else unset_bit (nat i) x)"

text \<open>\<open>bits.LeadingZeros64\<close>.\<close>

fun Len64 :: "nat \<Rightarrow> nat" where
  "Len64 x = (if x = 0 then 0 else Suc (Len64 (x div 2)))"

declare Len64.simps [simp del]

definition LeadingZeros64 :: "64 word \<Rightarrow> nat" where
  "LeadingZeros64 x = 64 - Len64 (unat x)"

subsection \<open>State and errors\<close>

record CidrSet =
  clusterCIDR :: IPNet
  clusterMaskSize :: int
  nodeMask :: "byte list"
  nodeMaskSize :: int
  maxCIDRs :: int
  allocatedCIDRs :: int
  nextCandidate :: int
  used :: nat
  label :: string

datatype cidr_error =
    ErrCIDRRangeNoCIDRsRemaining
  | ErrCIDRSetSubNetTooBig
  | ErrNilCIDR IPNet
  | ErrOutOfClusterRange IPNet IPNet
  | ErrOutOfAllocatorRange "byte list" int
  | ErrInvalidIP "byte list"
  | CidrPanic go_panic

definition clusterSubnetMaxDiff :: int where
  "clusterSubnetMaxDiff = 16"

subsection \<open>Construction\<close>

definition NewCIDRSet :: "IPNet \<Rightarrow> int \<Rightarrow> bool \<Rightarrow> (cidr_error + CidrSet) \<times> bool \<times> metric list" where
  "NewCIDRSet cidr subNetMaskSize registered =
     (let (maskSize, bits) = mask_Size (Mask cidr) in
      if to4 (IP cidr) = [] \<and> clusterSubnetMaxDiff < subNetMaskSize - maskSize
      then (Inl ErrCIDRSetSubNetTooBig, registered, [])
      else
        (let (registered', ms) = registerCidrsetMetrics registered;
             mx = sint (go_shl (1 :: 64 word) (uint32_of (subNetMaskSize - maskSize)))
         in (Inr \<lparr>clusterCIDR = cidr, clusterMaskSize = maskSize,
                  nodeMask = CIDRMask subNetMaskSize bits, nodeMaskSize = subNetMaskSize,
                  maxCIDRs = mx, allocatedCIDRs = 0, nextCandidate = 0, used = 0,
                  label = IPNet_String cidr\<rparr>, registered', ms)))"

subsection \<open>Index to block\<close>

text \<open>
  In the IPv4 case the address has 4 or 16 bytes and in the IPv6 case 16, so none of the
  loads can panic.
\<close>

definition blockIPv4 :: "CidrSet \<Rightarrow> int \<Rightarrow> byte list" where
  "blockIPv4 s index =
     (let j = go_shl (word_of_int index :: 32 word) (uint32_of (32 - nodeMaskSize s));
          ipInt = load_be (take 4 (IP (clusterCIDR s))) OR j
      in put_uint32 ipInt)"

definition blockIPv6 :: "CidrSet \<Rightarrow> int \<Rightarrow> byte list" where
  "blockIPv6 s index =
     (let idx = word_of_int index :: 64 word;
          leftClusterIP = load_be (take 8 (IP (clusterCIDR s))) :: 64 word;
          rightClusterIP = load_be (drop 8 (IP (clusterCIDR s))) :: 64 word
      in if nodeMaskSize s \<le> 64 then
           put_uint64 (leftClusterIP OR go_shl idx (uint64_of (64 - nodeMaskSize s)))
             @ put_uint64 rightClusterIP
         else
           (let btl = uint64_of (nodeMaskSize s - 64);
                indexMaxBit = 64 - LeadingZeros64 idx;
                left = (if clusterMaskSize s < 64 \<and> btl < indexMaxBit
                        then leftClusterIP OR go_shr idx btl else leftClusterIP)
            in put_uint64 left
                 @ put_uint64 (rightClusterIP OR go_shl idx (uint64_of (128 - nodeMaskSize s)))))"

definition indexToCIDRBlock :: "CidrSet \<Rightarrow> int \<Rightarrow> IPNet" where
  "indexToCIDRBlock s index =
     \<lparr>IP = (if to4 (IP (clusterCIDR s)) \<noteq> [] then blockIPv4 s index
            else if to16 (IP (clusterCIDR s)) \<noteq> [] then blockIPv6 s index else []),
      Mask = nodeMask s\<rparr>"

subsection \<open>Block to index\<close>

definition getIndexForIP :: "CidrSet \<Rightarrow> byte list \<Rightarrow> cidr_error + int" where
  "getIndexForIP s ip =
     (if to4 ip \<noteq> [] then
        (case be_uint32 (IP (clusterCIDR s)) of Inl p \<Rightarrow> Inl (CidrPanic p)
         | Inr c \<Rightarrow>
           (let cidrIndex = go_shr (c XOR load_be (to4 ip)) (uint32_of (32 - nodeMaskSize s)) :: 32 word
            in if word_of_int (maxCIDRs s) \<le> cidrIndex
               then Inl (ErrOutOfAllocatorRange ip (nodeMaskSize s))
               else Inr (uint cidrIndex)))
      else if to16 ip \<noteq> [] then
        (let bigIP = ip_val (IP (clusterCIDR s)) XOR ip_val ip;
             cidrIndexBig = drop_bit (uint64_of (int IPv6len * 8 - nodeMaskSize s)) bigIP;
             cidrIndex = of_nat cidrIndexBig :: 64 word
         in if word_of_int (maxCIDRs s) \<le> cidrIndex
            then Inl (ErrOutOfAllocatorRange ip (nodeMaskSize s))
            else Inr (sint cidrIndex))
      else Inl (ErrInvalidIP ip))"

definition getIndexForCIDR :: "CidrSet \<Rightarrow> IPNet \<Rightarrow> cidr_error + int" where
  "getIndexForCIDR s cidr = getIndexForIP s (IP cidr)"

text \<open>The last address of a network: all host bits set.\<close>

definition lastIP :: "IPNet \<Rightarrow> go_panic + byte list" where
  "lastIP cidr =
     (if to4 (IP cidr) \<noteq> [] then
        (case be_uint32 (IP cidr) of Inl p \<Rightarrow> Inl p
         | Inr a \<Rightarrow> (case be_uint32 (Mask cidr) of Inl p \<Rightarrow> Inl p
           | Inr m \<Rightarrow> Inr (put_uint32 (a OR NOT m))))
      else
        (case be_uint64 (IP cidr) of Inl p \<Rightarrow> Inl p
         | Inr al \<Rightarrow> (case be_uint64 (Mask cidr) of Inl p \<Rightarrow> Inl p
           | Inr ml \<Rightarrow> (case be_uint64 (drop 8 (IP cidr)) of Inl p \<Rightarrow> Inl p
             | Inr ar \<Rightarrow> (case be_uint64 (drop 8 (Mask cidr)) of Inl p \<Rightarrow> Inl p
               | Inr mr \<Rightarrow> Inr (put_uint64 (al OR NOT ml) @ put_uint64 (ar OR NOT mr)))))))"

definition getBeginingAndEndIndices :: "CidrSet \<Rightarrow> IPNet option \<Rightarrow> cidr_error + int \<times> int" where
  "getBeginingAndEndIndices s cidr_ptr =
     (case cidr_ptr of None \<Rightarrow> Inl (ErrNilCIDR (clusterCIDR s))
      | Some cidr \<Rightarrow>
        (let (maskSize, _) = mask_Size (Mask cidr); cluster = clusterCIDR s in
         if \<not> Contains cluster (ip_Mask (IP cidr) (Mask cluster))
            \<and> \<not> Contains cidr (ip_Mask (IP cluster) (Mask cidr))
         then Inl (ErrOutOfClusterRange cidr cluster)
         else if clusterMaskSize s < maskSize then
           (case getIndexForCIDR s \<lparr>IP = ip_Mask (IP cidr) (nodeMask s), Mask = nodeMask s\<rparr> of
              Inl e \<Rightarrow> Inl e
            | Inr beg \<Rightarrow>
              (case lastIP cidr of Inl p \<Rightarrow> Inl (CidrPanic p)
               | Inr ip \<Rightarrow>
                 (case getIndexForCIDR s \<lparr>IP = ip_Mask ip (nodeMask s), Mask = nodeMask s\<rparr> of
                    Inl e \<Rightarrow> Inl e
                  | Inr fin \<Rightarrow> Inr (beg, fin))))
         else Inr (0, maxCIDRs s - 1)))"

subsection \<open>Allocation\<close>

text \<open>
  The search loop of \<open>AllocateNext\<close>: \<open>i\<close> counts the tries, \<open>candidate\<close> goes round the
  bitmap. Go's remainder truncates, which is \<open>smod\<close>.
\<close>

function findCandidate :: "nat \<Rightarrow> int \<Rightarrow> int \<Rightarrow> int \<Rightarrow> int \<times> int" where
  "findCandidate bitmap mx i candidate =
     (if i < mx then
        (if \<not> big_Bit bitmap candidate then (candidate, i)
         else findCandidate bitmap mx (i + 1) ((candidate + 1) smod mx))
      else (candidate, i))"
  by pat_completeness auto
termination
  by (relation "measure (\<lambda>(b, mx, i, c). nat (mx - i))") auto

declare findCandidate.simps [simp del]

definition AllocateNext :: "CidrSet \<Rightarrow> (cidr_error + IPNet) \<times> CidrSet \<times> metric list" where
  "AllocateNext s =
     (if allocatedCIDRs s = maxCIDRs s then (Inl ErrCIDRRangeNoCIDRsRemaining, s, [])
      else
        (let (candidate, i) = findCandidate (used s) (maxCIDRs s) 0 (nextCandidate s) in
         if maxCIDRs s = 0 then (Inl (CidrPanic DivideByZero), s, [])
         else
           (let s' = s\<lparr>nextCandidate := (candidate + 1) smod maxCIDRs s,
                       used := big_SetBit (used s) candidate True,
                       allocatedCIDRs := allocatedCIDRs s + 1\<rparr>
            in (Inr (indexToCIDRBlock s' candidate), s',
                [AllocationsInc (label s), TriesObserve (label s) i,
                 UsageSet (label s) (allocatedCIDRs s') (maxCIDRs s)]))))"

subsection \<open>Release and occupation of a range\<close>

function releaseRange :: "int \<Rightarrow> int \<Rightarrow> CidrSet \<Rightarrow> CidrSet \<times> metric list" where
  "releaseRange i fin s =
     (if i \<le> fin then
        (if big_Bit (used s) i then
           (let (s', ms) = releaseRange (i + 1) fin
                  (s\<lparr>used := big_SetBit (used s) i False, allocatedCIDRs := allocatedCIDRs s - 1\<rparr>)
            in (s', ReleasesInc (label s) # ms))
         else releaseRange (i + 1) fin s)
      else (s, []))"
  by pat_completeness auto
termination
  by (relation "measure (\<lambda>(i, fin, s). nat (fin + 1 - i))") auto

function occupyRange :: "int \<Rightarrow> int \<Rightarrow> CidrSet \<Rightarrow> CidrSet \<times> metric list" where
  "occupyRange i fin s =
     (if i \<le> fin then
        (if \<not> big_Bit (used s) i then
           (let (s', ms) = occupyRange (i + 1) fin
                  (s\<lparr>used := big_SetBit (used s) i True, allocatedCIDRs := allocatedCIDRs s + 1\<rparr>)
            in (s', AllocationsInc (label s) # ms))
         else occupyRange (i + 1) fin s)
      else (s, []))"
  by pat_completeness auto
termination
  by (relation "measure (\<lambda>(i, fin, s). nat (fin + 1 - i))") auto

declare releaseRange.simps [simp del] occupyRange.simps [simp del]

definition Release :: "CidrSet \<Rightarrow> IPNet option \<Rightarrow> (cidr_error + unit) \<times> CidrSet \<times> metric list" where
  "Release s cidr =
     (case getBeginingAndEndIndices s cidr of Inl e \<Rightarrow> (Inl e, s, [])
      | Inr (beg, fin) \<Rightarrow>
        (let (s', ms) = releaseRange beg fin s
         in (Inr (), s', ms @ [UsageSet (label s) (allocatedCIDRs s') (maxCIDRs s)])))"

definition Occupy :: "CidrSet \<Rightarrow> IPNet option \<Rightarrow> (cidr_error + unit) \<times> CidrSet \<times> metric list" where
  "Occupy s cidr =
     (case getBeginingAndEndIndices s cidr of Inl e \<Rightarrow> (Inl e, s, [])
      | Inr (beg, fin) \<Rightarrow>
        (let (s', ms) = occupyRange beg fin s
         in (Inr (), s', ms @ [UsageSet (label s) (allocatedCIDRs s') (maxCIDRs s)])))"

end
