(* ===== verification/CidrBlocks.thy ===== *)
theory CidrBlocks
  imports CidrSet
begin

text \<open>
  The address arithmetic of a CIDR set. For a well-formed set (\<open>cset_wf\<close>) the IPv4
  computation on 32 bits and the IPv6 computation on two 64-bit halves are both the same
  reference: block \<open>i\<close> starts \<open>i\<close> block sizes after the first address of the cluster, and the
  index of an address is its distance from there divided by the block size.
\<close>

subsection \<open>Well-formed sets\<close>

definition cset_wf :: "CidrSet \<Rightarrow> bool" where
  "cset_wf s \<longleftrightarrow>
     (let l = length (IP (clusterCIDR s)); m = nat (clusterMaskSize s); n = nat (nodeMaskSize s) in
      0 \<le> clusterMaskSize s \<and> clusterMaskSize s \<le> nodeMaskSize s
      \<and> nodeMaskSize s \<le> int (8 * l) \<and> nodeMaskSize s - clusterMaskSize s < 32
      \<and> canon l m (clusterCIDR s) \<and> nodeMask s = mask_bytes l n
      \<and> maxCIDRs s = 2 ^ (n - m)
      \<and> (l = 16 \<longrightarrow> 2 ^ 48 \<le> net_first (clusterCIDR s)))"

text \<open>The parameters of a well-formed set: address length in bytes, cluster and node mask.\<close>

definition wf_params :: "CidrSet \<Rightarrow> nat \<Rightarrow> nat \<Rightarrow> nat \<Rightarrow> bool" where
  "wf_params s l m n \<longleftrightarrow> clusterMaskSize s = int m \<and> nodeMaskSize s = int n
     \<and> m \<le> n \<and> n \<le> 8 * l \<and> n - m < 32 \<and> canon l m (clusterCIDR s)
     \<and> nodeMask s = mask_bytes l n \<and> maxCIDRs s = 2 ^ (n - m)
     \<and> (l = 16 \<longrightarrow> 2 ^ 48 \<le> net_first (clusterCIDR s))"

lemma cset_wf_params:
  assumes "cset_wf s"
  obtains l m n where "wf_params s l m n" "l = length (IP (clusterCIDR s))"
    "m = nat (clusterMaskSize s)" "n = nat (nodeMaskSize s)"
  using assms by (force simp: cset_wf_def wf_params_def Let_def)

lemma wf_params_cset_wf: "wf_params s l m n \<Longrightarrow> cset_wf s"
  by (auto simp: cset_wf_def wf_params_def Let_def dest: canonD(1))

lemma wf_paramsD:
  assumes "wf_params s l m n"
  shows "clusterMaskSize s = int m" "nodeMaskSize s = int n" "m \<le> n" "n \<le> 8 * l" "n - m < 32"
    "canon l m (clusterCIDR s)" "nodeMask s = mask_bytes l n" "maxCIDRs s = 2 ^ (n - m)"
    "l = 16 \<Longrightarrow> 2 ^ 48 \<le> ip_val (IP (clusterCIDR s))"
    "length (IP (clusterCIDR s)) = l" "l = 4 \<or> l = 16"
    "2 ^ (8 * l - m) dvd ip_val (IP (clusterCIDR s))"
  using assms by (auto simp: wf_params_def net_first_def dest: canonD)

text \<open>First address and size of a block of the set, in numbers.\<close>

definition block_start :: "CidrSet \<Rightarrow> int \<Rightarrow> nat" where
  "block_start s i = net_first (clusterCIDR s)
     + nat i * 2 ^ (8 * length (IP (clusterCIDR s)) - nat (nodeMaskSize s))"

lemma block_start_params:
  "wf_params s l m n \<Longrightarrow> block_start s i = ip_val (IP (clusterCIDR s)) + nat i * 2 ^ (8 * l - n)"
  by (simp add: block_start_def net_first_def wf_paramsD)

lemma index_fits:
  assumes "wf_params s l m n" "0 \<le> i" "i < maxCIDRs s"
  shows "nat i < 2 ^ (n - m)" "nat i * 2 ^ (8 * l - n) < 2 ^ (8 * l - m)"
proof -
  show i: "nat i < 2 ^ (n - m)"
    using assms wf_paramsD(8) [OF assms(1)] by (simp add: nat_less_iff)
  have "nat i * 2 ^ (8 * l - n) < 2 ^ (n - m) * 2 ^ (8 * l - n)" using i by simp
  also have "\<dots> = 2 ^ (8 * l - m)"
    using wf_paramsD(3,4) [OF assms(1)] by (simp flip: power_add)
  finally show "nat i * 2 ^ (8 * l - n) < 2 ^ (8 * l - m)" .
qed

subsection \<open>Concatenated words\<close>

lemma concat_or:
  assumes "r < 2 ^ k" "y < 2 ^ k"
  shows "(l * 2 ^ k + r) OR (x * 2 ^ k + y) = (l OR x) * 2 ^ k + (r OR (y::nat))"
proof -
  have cat: "a * 2 ^ k + b = push_bit k a OR b" if "b < 2 ^ k" for a b :: nat
    using or_disjoint_add [of k "push_bit k a" b] that by (simp add: push_bit_eq_mult)
  have "r OR y = take_bit k (r OR y)"
    using assms by (simp add: take_bit_nat_eq_self)
  then have "r OR y < 2 ^ k" by (metis take_bit_nat_less_exp)
  then show ?thesis using assms by (simp add: cat push_bit_or or.assoc or.left_commute)
qed

lemma unat_not: "unat (NOT w) = 2 ^ LENGTH('a) - 1 - unat (w :: 'a::len word)"
proof -
  have "uint (NOT w) = mask LENGTH('a) - uint w"
    by (simp add: unsigned_not_eq take_bit_not_eq_mask_diff take_bit_int_eq_self unsigned_less)
  then have "int (unat (NOT w) + 1 + unat w) = int (2 ^ LENGTH('a))"
    by (simp add: mask_eq_exp_minus_1)
  then have "unat (NOT w) + 1 + unat w = 2 ^ LENGTH('a)" by (simp only: of_nat_eq_iff)
  then show ?thesis by simp
qed

lemma ip_val_mask_bytes: "n \<le> 8 * l \<Longrightarrow> ip_val (mask_bytes l n) + 2 ^ (8 * l - n) = 2 ^ (8 * l)"
proof (induction l n rule: mask_bytes.induct)
  case (2 l n)
  have P: "(256::nat) ^ l = 2 ^ (8 * l)" "(2::nat) ^ (8 + 8 * l) = 256 * 2 ^ (8 * l)"
    by (simp_all add: power_mult power_add)
  show ?case
  proof (cases "8 \<le> n")
    case True
    then obtain j where j: "n = j + 8" by (metis le_add_diff_inverse2)
    with 2 have "ip_val (mask_bytes l j) + 2 ^ (8 * l - j) = 2 ^ (8 * l)" by simp
    then show ?thesis using P by (simp add: j)
  next
    case False
    then have "unat (NOT (drop_bit n 0xff) :: byte) + 2 ^ (8 - n) = 256"
      using less8_cases [of n] by auto
    moreover have "(2::nat) ^ (8 * Suc l - n) = 2 ^ (8 - n) * 2 ^ (8 * l)"
      using False by (simp flip: power_add)
    ultimately show ?thesis using False P by (simp flip: distrib_right)
  qed
qed simp

text \<open>The last address of a canonical network.\<close>

lemma lastIP_canon:
  assumes n: "canon l k n"
  obtains ip where "lastIP n = Inr ip" "length ip = l"
    "ip_val ip = ip_val (IP n) + (2 ^ (8 * l - k) - 1)"
proof -
  note nD = canonD [OF n]
  have mk: "ip_val (Mask n) + 2 ^ (8 * l - k) = 2 ^ (8 * l)"
    using ip_val_mask_bytes nD(3,4) by simp
  have base: "ip_val (IP n) OR mask (8 * l - k) = ip_val (IP n) + (2 ^ (8 * l - k) - 1)"
    using nD(5) by (simp add: or_mask_nat)
  show thesis
  proof (cases "l = 4")
    case True
    have "unat (NOT (load_be (Mask n)) :: 32 word) = mask (32 - k)"
      using mk True nD(2) by (simp add: unat_not byte_val mask_eq_exp_minus_1)
    then have "ip_val (put_uint32 (load_be (IP n) OR NOT (load_be (Mask n))))
        = ip_val (IP n) + (2 ^ (8 * l - k) - 1)"
      using True nD(1) base by (simp add: byte_val unsigned_or_eq)
    moreover have "lastIP n = Inr (put_uint32 (load_be (IP n) OR NOT (load_be (Mask n))))"
      using True nD(1,2,8) by (auto simp: lastIP_def be_uint32_def)
    ultimately show thesis using that True by simp
  next
    case False
    then have l: "l = 16" and t4: "to4 (IP n) = []" using nD(6,9) by auto
    let ?al = "take 8 (IP n)" and ?ar = "drop 8 (IP n)"
    let ?ml = "take 8 (Mask n)" and ?mr = "drop 8 (Mask n)"
    let ?ip = "put_uint64 (load_be ?al OR NOT (load_be ?ml)) @ put_uint64 (load_be ?ar OR NOT (load_be ?mr))"
    have a: "ip_val (IP n) = ip_val ?al * 2 ^ 64 + ip_val ?ar" "ip_val ?ar < 2 ^ 64"
      using ip_val_split [of "IP n" 8] ip_val_bound [of ?ar] nD(1) l by simp_all
    have m: "ip_val (Mask n) = ip_val ?ml * 2 ^ 64 + ip_val ?mr" "ip_val ?mr < 2 ^ 64"
      "ip_val ?ml < 2 ^ 64"
      using ip_val_split [of "Mask n" 8] ip_val_bound [of ?mr] ip_val_bound [of ?ml] nD(2) l
      by simp_all
    have nm: "unat (NOT (load_be ?ml) :: 64 word) = 2 ^ 64 - 1 - ip_val ?ml"
      "unat (NOT (load_be ?mr) :: 64 word) = 2 ^ 64 - 1 - ip_val ?mr"
      using nD(2) l by (simp_all add: unat_not byte_val)
    have "(2 ^ 64 - 1 - ip_val ?ml) * 2 ^ 64 + (2 ^ 64 - 1 - ip_val ?mr) = mask (128 - k)"
      using mk m l by (simp add: mask_eq_exp_minus_1)
    then have "ip_val ?ip = ip_val (IP n) OR mask (128 - k)"
      using concat_or [of "ip_val ?ar" 64 "2 ^ 64 - 1 - ip_val ?mr" "ip_val ?al" "2 ^ 64 - 1 - ip_val ?ml"]
        a nD(1,2) l nm by (simp add: byte_val unsigned_or_eq)
    moreover have "lastIP n = Inr ?ip"
      using t4 nD(1,2) l by (simp add: lastIP_def be_uint64_def)
    ultimately show thesis using that base l by simp
  qed
qed


subsection \<open>The address of a block\<close>

lemma blockIPv4_val:
  assumes wf: "wf_params s 4 m n" and i: "0 \<le> i" "i < maxCIDRs s"
  shows "ip_val (blockIPv4 s i) = block_start s i"
proof -
  note D = wf_paramsD [OF wf]
  have fit: "nat i * 2 ^ (32 - n) < 2 ^ (32 - m)" "nat i < 2 ^ (n - m)"
    using index_fits [OF wf i] by simp_all
  have "nat i < 2 ^ 32"
    using fit(2) power_increasing [of "n - m" 32 "2 :: nat"] D(5) by linarith
  then have w: "unat (word_of_int i :: 32 word) = nat i"
    using i by (simp add: unsigned_of_int take_bit_int_eq_self flip: nat_less_iff)
  have "(2::nat) ^ (32 - m) \<le> 2 ^ 32" by (rule power_increasing) simp_all
  then have "unat (go_shl (word_of_int i :: 32 word) (32 - n)) = nat i * 2 ^ (32 - n)"
    using fit w by (subst unat_go_shl) simp_all
  moreover have "uint32_of (32 - nodeMaskSize s) = 32 - n"
    using D(2,4) by (simp add: nat_diff_distrib)
  ultimately show ?thesis
    using D(10,12) fit
    by (simp add: blockIPv4_def block_start_params [OF wf] byte_val unsigned_or_eq
        or_disjoint_add [where k = "32 - m"])
qed

lemma Len64_le_iff: "Len64 x \<le> k \<longleftrightarrow> x < 2 ^ k"
proof (induction x arbitrary: k rule: Len64.induct)
  case (1 x)
  show ?case
  proof (cases k)
    case 0
    then show ?thesis by (subst Len64.simps) simp
  next
    case (Suc j)
    have "x div 2 < 2 ^ j \<longleftrightarrow> x < 2 ^ Suc j" by (simp add: div_less_iff_less_mult mult.commute)
    with 1 Suc show ?thesis by (subst Len64.simps) auto
  qed
qed

text \<open>The guard on \<open>indexMaxBit\<close> only skips a shift that would give 0.\<close>

lemma guarded_shift:
  "(if b < 64 - LeadingZeros64 x then l OR go_shr x b else l) = l OR go_shr (x :: 64 word) b"
proof -
  have "Len64 (unat x) \<le> 64" using unat_lt [of x] by (simp add: Len64_le_iff)
  then have "\<not> b < 64 - LeadingZeros64 x \<Longrightarrow> unat x < 2 ^ b"
    by (simp add: LeadingZeros64_def Len64_le_iff [symmetric])
  then have "\<not> b < 64 - LeadingZeros64 x \<Longrightarrow> unat (go_shr x b) = 0"
    by (simp add: unat_go_shr)
  then show ?thesis by (auto simp: unat_eq_0)
qed

text \<open>The two halves the source adds to the cluster address are the shifted index.\<close>

definition half_shift :: "CidrSet \<Rightarrow> 64 word \<Rightarrow> nat \<times> nat" where
  "half_shift s idx =
     (if nodeMaskSize s \<le> 64 then (unat (go_shl idx (nat (64 - nodeMaskSize s))), 0)
      else (if clusterMaskSize s < 64 then unat (go_shr idx (nat (nodeMaskSize s - 64))) else 0,
            unat (go_shl idx (nat (128 - nodeMaskSize s)))))"

lemma half_shift_val:
  assumes wf: "wf_params s 16 m n" and i: "nat i < 2 ^ (n - m)" "unat idx = nat i"
    and xy: "half_shift s idx = (x, y)"
  shows "x * 2 ^ 64 + y = nat i * 2 ^ (128 - n)" "y < 2 ^ 64"
proof -
  note D = wf_paramsD [OF wf]
  have fit: "nat i * 2 ^ (128 - n) < 2 ^ (128 - m)"
    using i(1) D(3,4) mult_less_mono1 [OF i(1), of "2 ^ (128 - n)"] by (simp flip: power_add)
  have "x * 2 ^ 64 + y = nat i * 2 ^ (128 - n) \<and> y < 2 ^ 64"
  proof (cases "n \<le> 64")
    case True
    have "128 - n = (64 - n) + 64" using True by simp
    then have e: "(2::nat) ^ (128 - n) = 2 ^ (64 - n) * 2 ^ 64" by (simp only: power_add)
    have "nat i * 2 ^ (64 - n) * 2 ^ 64 < 2 ^ 64 * 2 ^ 64"
      using fit power_increasing [of "128 - m" 128 "2 :: nat"] unfolding e by (simp add: mult.assoc)
    then have "unat (go_shl idx (64 - n)) = nat i * 2 ^ (64 - n)"
      using i(2) by (subst unat_go_shl) simp_all
    moreover have "nat (64 - int n) = 64 - n" using True by (simp add: nat_diff_distrib)
    ultimately show ?thesis using xy True D(2) by (auto simp: half_shift_def e)
  next
    case False
    then have e: "(2::nat) ^ 64 = 2 ^ (n - 64) * 2 ^ (128 - n)"
      using D(4) by (simp flip: power_add)
    have k: "nat (128 - int n) = 128 - n" "nat (int n - 64) = n - 64"
      using False D(4) by (simp_all add: nat_diff_distrib)
    have y: "y = nat i * 2 ^ (128 - n) mod 2 ^ 64"
      using xy False D(2) i(2) k
      by (auto simp: half_shift_def go_shl_def unsigned_push_bit_eq take_bit_eq_mod push_bit_nat_def)
    have "x = nat i div 2 ^ (n - 64)"
    proof (cases "m < 64")
      case True
      then show ?thesis using xy False D(1,2) i(2) k by (simp add: half_shift_def unat_go_shr)
    next
      case False
      then have "(2::nat) ^ (n - m) \<le> 2 ^ (n - 64)" using D(3) by (intro power_increasing) simp_all
      with i(1) have "nat i < 2 ^ (n - 64)" by linarith
      then have "nat i div 2 ^ (n - 64) = 0" by (rule div_less)
      moreover have "x = 0" using xy False \<open>\<not> n \<le> 64\<close> D(1,2) by (simp add: half_shift_def)
      ultimately show ?thesis by simp
    qed
    also have "\<dots> = nat i * 2 ^ (128 - n) div 2 ^ 64"
      unfolding e by simp
    finally show ?thesis using y by simp
  qed
  then show "x * 2 ^ 64 + y = nat i * 2 ^ (128 - n)" "y < 2 ^ 64" by simp_all
qed


lemma blockIPv6_half_shift:
  assumes wf: "wf_params s 16 m n" and xy: "half_shift s (word_of_int i) = (x, y)"
    and x: "x < 2 ^ 64" and y: "y < 2 ^ 64"
  shows "ip_val (blockIPv6 s i) = ip_val (IP (clusterCIDR s)) OR (x * 2 ^ 64 + y)"
proof -
  note D = wf_paramsD [OF wf]
  let ?c = "IP (clusterCIDR s)"
  have c: "ip_val ?c = ip_val (take 8 ?c) * 2 ^ 64 + ip_val (drop 8 ?c)" "ip_val (drop 8 ?c) < 2 ^ 64"
    using ip_val_split [of ?c 8] ip_val_bound [of "drop 8 ?c"] D(10) by simp_all
  have u: "uint64_of (64 - nodeMaskSize s) = nat (64 - nodeMaskSize s)" if "nodeMaskSize s \<le> 64"
    using that D(2) by simp
  have v: "uint64_of (128 - nodeMaskSize s) = nat (128 - nodeMaskSize s)"
    "\<not> nodeMaskSize s \<le> 64 \<Longrightarrow> uint64_of (nodeMaskSize s - 64) = nat (nodeMaskSize s - 64)"
    using D(2,4) by simp_all
  have "ip_val (blockIPv6 s i) = (ip_val (take 8 ?c) OR x) * 2 ^ 64 + (ip_val (drop 8 ?c) OR y)"
  proof (cases "nodeMaskSize s \<le> 64")
    case True
    then show ?thesis using xy D(10) u
      by (auto simp: blockIPv6_def half_shift_def Let_def byte_val unsigned_or_eq)
  next
    case False
    have g: "(if clusterMaskSize s < 64 \<and> b < 64 - LeadingZeros64 w then l OR go_shr w b else l)
        = (if clusterMaskSize s < 64 then l OR go_shr w b else l)" for b l and w :: "64 word"
      using guarded_shift [of b w l] by (auto split: if_splits)
    show ?thesis using xy D(10) v False
      by (auto simp: blockIPv6_def half_shift_def Let_def byte_val unsigned_or_eq g)
  qed
  also have "\<dots> = ip_val ?c OR (x * 2 ^ 64 + y)"
    unfolding c(1) by (rule concat_or [OF c(2) y, symmetric])
  finally show ?thesis .
qed

lemma blockIPv6_val:
  assumes wf: "wf_params s 16 m n" and i: "0 \<le> i" "i < maxCIDRs s"
  shows "ip_val (blockIPv6 s i) = block_start s i"
proof -
  note D = wf_paramsD [OF wf]
  have fit: "nat i * 2 ^ (128 - n) < 2 ^ (128 - m)" "nat i < 2 ^ (n - m)"
    using index_fits [OF wf i] by simp_all
  have "nat i < 2 ^ 64"
    using fit(2) power_increasing [of "n - m" 64 "2 :: nat"] D(5) by linarith
  then have w: "unat (word_of_int i :: 64 word) = nat i"
    using i by (simp add: unsigned_of_int take_bit_int_eq_self flip: nat_less_iff)
  obtain x y where xy: "half_shift s (word_of_int i) = (x, y)" by fastforce
  note h = half_shift_val [OF wf fit(2) w xy]
  have "(2::nat) ^ (128 - m) \<le> 2 ^ 64 * 2 ^ 64"
    using power_increasing [of "128 - m" 128 "2 :: nat"] by simp
  with h(1) fit(1) have x: "x < 2 ^ 64" by (simp flip: mult_less_cancel2 [of _ "2 ^ 64"])
  show ?thesis
    unfolding blockIPv6_half_shift [OF wf xy x h(2)] h(1) block_start_params [OF wf]
    using D(12) fit(1) by (simp add: or_disjoint_add [where k = "128 - m"])
qed

subsection \<open>Blocks are canonical networks\<close>

lemma IP_indexToCIDRBlock:
  assumes "wf_params s l m n"
  shows "IP (indexToCIDRBlock s i) = (if l = 4 then blockIPv4 s i else blockIPv6 s i)"
  using wf_paramsD [OF assms] canonD(8) [OF wf_paramsD(6) [OF assms]]
  by (auto simp: indexToCIDRBlock_def)

lemma length_block [simp]:
  "length (blockIPv4 s i) = 4" "length (blockIPv6 s i) = 16"
  by (simp_all add: blockIPv4_def blockIPv6_def Let_def)

lemma indexToCIDRBlock_val:
  assumes wf: "wf_params s l m n" and i: "0 \<le> i" "i < maxCIDRs s"
  shows "ip_val (IP (indexToCIDRBlock s i)) = block_start s i"
    "length (IP (indexToCIDRBlock s i)) = l"
  using wf_paramsD(11) [OF wf] blockIPv4_val [of s m n i] blockIPv6_val [of s m n i] wf i
  by (auto simp: IP_indexToCIDRBlock [OF wf])

lemma block_canon:
  assumes wf: "wf_params s l m n" and i: "0 \<le> i" "i < maxCIDRs s"
  shows "canon l n (indexToCIDRBlock s i)"
proof -
  note D = wf_paramsD [OF wf] and v = indexToCIDRBlock_val [OF wf i]
  have "2 ^ (8 * l - n) dvd ip_val (IP (clusterCIDR s))"
    using D(3,12) by (intro dvd_trans [OF le_imp_power_dvd D(12)]) simp
  moreover have "to4 (IP (indexToCIDRBlock s i)) = []" if "l = 16"
    using v D(9) that by (intro to4_large) (simp_all add: block_start_params [OF wf])
  ultimately show ?thesis
    using D v by (auto simp: canon_def block_start_params [OF wf] indexToCIDRBlock_def)
qed

lemma block_addrs:
  assumes wf: "wf_params s l m n" and i: "0 \<le> i" "i < maxCIDRs s"
  shows "net_addrs (indexToCIDRBlock s i) = {block_start s i ..< block_start s i + 2 ^ (8 * l - n)}"
  using block_canon [OF assms] indexToCIDRBlock_val [OF assms]
  by (simp add: net_addrs_def canon_net_bits net_first_def)


subsection \<open>The index of an address\<close>

definition block_index :: "CidrSet \<Rightarrow> nat \<Rightarrow> nat" where
  "block_index s x = (x - net_first (clusterCIDR s))
     div 2 ^ (8 * length (IP (clusterCIDR s)) - nat (nodeMaskSize s))"

lemma block_index_params:
  "wf_params s l m n \<Longrightarrow> block_index s x = (x - ip_val (IP (clusterCIDR s))) div 2 ^ (8 * l - n)"
  by (simp add: block_index_def net_first_def wf_paramsD)

lemma cluster_addrs:
  assumes wf: "wf_params s l m n"
  shows "x \<in> net_addrs (clusterCIDR s) \<longleftrightarrow>
    x div 2 ^ (8 * l - m) = ip_val (IP (clusterCIDR s)) div 2 ^ (8 * l - m)"
    "x \<in> net_addrs (clusterCIDR s) \<longleftrightarrow>
    ip_val (IP (clusterCIDR s)) \<le> x \<and> x < ip_val (IP (clusterCIDR s)) + 2 ^ (8 * l - m)"
  using mem_net_addrs [OF wf_paramsD(6) [OF wf]]
  by (simp_all add: net_addrs_def net_first_def canon_net_bits [OF wf_paramsD(6) [OF wf]])

lemma block_index_less:
  assumes wf: "wf_params s l m n" and x: "x \<in> net_addrs (clusterCIDR s)"
  shows "block_index s x < 2 ^ (n - m)"
proof -
  have "x - ip_val (IP (clusterCIDR s)) < 2 ^ (8 * l - m)"
    using x by (auto simp: cluster_addrs(2) [OF wf])
  also have "(2::nat) ^ (8 * l - m) = 2 ^ (n - m) * 2 ^ (8 * l - n)"
    using wf_paramsD(3,4) [OF wf] by (simp flip: power_add)
  finally show ?thesis by (simp add: block_index_params [OF wf] div_less_iff_less_mult)
qed

lemma getIndexForIP_in:
  assumes wf: "wf_params s l m n" and ip: "length ip = l" "l = 16 \<Longrightarrow> to4 ip = []"
    and x: "ip_val ip \<in> net_addrs (clusterCIDR s)"
  shows "getIndexForIP s ip = Inr (int (block_index s (ip_val ip)))"
proof -
  note D = wf_paramsD [OF wf]
  let ?c = "IP (clusterCIDR s)"
  have xor: "ip_val ?c XOR ip_val ip = ip_val ip - ip_val ?c"
    using x by (intro xor_same_block [OF D(12)]) (simp add: cluster_addrs(1) [OF wf])
  note lt = block_index_less [OF wf x]
  have small: "(2::nat) ^ (n - m) \<le> 2 ^ 31"
    using D(5) by (intro power_increasing) simp_all
  have mx: "nat (maxCIDRs s) = 2 ^ (n - m)" "maxCIDRs s = int (2 ^ (n - m))"
    using D(8) by (simp_all add: nat_power_eq)
  have mx0: "0 \<le> maxCIDRs s" "maxCIDRs s < 2 ^ 32" "maxCIDRs s < 2 ^ 64"
    using small unfolding mx(2) by (simp_all del: of_nat_power)
  show ?thesis
  proof (cases "l = 4")
    case True
    let ?i = "go_shr (load_be ?c XOR load_be ip :: 32 word) (uint32_of (32 - nodeMaskSize s))"
    have "uint32_of (32 - nodeMaskSize s) = 32 - n"
      using D(2,4) True by (simp add: nat_diff_distrib)
    then have i: "unat ?i = block_index s (ip_val ip)"
      using True ip(1) D(10) xor
      by (simp add: unat_go_shr unsigned_xor_eq byte_val block_index_params [OF wf])
    have "unat (word_of_int (maxCIDRs s) :: 32 word) = 2 ^ (n - m)"
      using mx0 by (subst unat_word_of_int) (simp_all add: mx(1))
    then have "\<not> word_of_int (maxCIDRs s) \<le> ?i"
      using lt i by (simp add: word_le_nat_alt)
    moreover have "uint ?i = int (block_index s (ip_val ip))"
      using arg_cong [OF i, of int] by simp
    ultimately show ?thesis
      using True ip D(10) by (auto simp: getIndexForIP_def be_uint32_def Let_def)
  next
    case False
    then have l: "l = 16" using D(11) by simp
    let ?i = "of_nat (block_index s (ip_val ip)) :: 64 word"
    have "uint64_of (int IPv6len * 8 - nodeMaskSize s) = 128 - n"
      using D(2,4) l by (simp add: nat_diff_distrib ip_len)
    then have db: "drop_bit (uint64_of (int IPv6len * 8 - nodeMaskSize s)) (ip_val ?c XOR ip_val ip)
        = block_index s (ip_val ip)"
      using l by (simp add: xor block_index_params [OF wf] drop_bit_eq_div)
    have bi: "block_index s (ip_val ip) < 2 ^ 31" using lt small by linarith
    then have u: "unat ?i = block_index s (ip_val ip)"
      by (simp add: unsigned_of_nat take_bit_nat_eq_self)
    have "unat (word_of_int (maxCIDRs s) :: 64 word) = 2 ^ (n - m)"
      using mx0 by (subst unat_word_of_int) (simp_all add: mx(1))
    then have "\<not> word_of_int (maxCIDRs s) \<le> ?i"
      using lt u by (simp add: word_le_nat_alt)
    moreover have "sint ?i = int (block_index s (ip_val ip))"
      using bi by (simp add: signed_of_nat signed_take_bit_int_eq_self)
    ultimately show ?thesis
      using ip l db by (auto simp: getIndexForIP_def Let_def)
  qed
qed


subsection \<open>Which block holds an address\<close>

lemma in_block_iff:
  assumes wf: "wf_params s l m n" and i: "0 \<le> i" "i < maxCIDRs s"
    and x: "x \<in> net_addrs (clusterCIDR s)"
  shows "x \<in> net_addrs (indexToCIDRBlock s i) \<longleftrightarrow> block_index s x = nat i"
proof -
  let ?c = "ip_val (IP (clusterCIDR s))" and ?B = "2 ^ (8 * l - n) :: nat"
  obtain d where d: "x = ?c + d"
    using x le_Suc_ex by (auto simp: cluster_addrs(2) [OF wf])
  have "block_index s x = nat i \<longleftrightarrow> ?B * nat i \<le> x - ?c \<and> x - ?c < ?B * nat i + ?B"
    unfolding block_index_params [OF wf] by (rule div_block_iff) simp
  also have "\<dots> \<longleftrightarrow> ?c + nat i * ?B \<le> x \<and> x < ?c + nat i * ?B + ?B"
    by (auto simp: d ac_simps)
  finally show ?thesis by (simp add: block_addrs [OF wf i] block_start_params [OF wf])
qed

lemma block_subset_cluster:
  assumes wf: "wf_params s l m n" and i: "0 \<le> i" "i < maxCIDRs s"
  shows "net_addrs (indexToCIDRBlock s i) \<subseteq> net_addrs (clusterCIDR s)"
proof
  fix x assume "x \<in> net_addrs (indexToCIDRBlock s i)"
  then have x: "block_start s i \<le> x" "x < block_start s i + 2 ^ (8 * l - n)"
    by (simp_all add: block_addrs [OF wf i])
  have "Suc (nat i) * 2 ^ (8 * l - n) \<le> 2 ^ (n - m) * 2 ^ (8 * l - n)"
    by (intro mult_right_mono Suc_leI index_fits(1) [OF wf i]) simp
  also have "\<dots> = (2::nat) ^ (8 * l - m)"
    using wf_paramsD(3,4) [OF wf] by (simp flip: power_add)
  finally show "x \<in> net_addrs (clusterCIDR s)"
    using x by (simp add: cluster_addrs(2) [OF wf] block_start_params [OF wf])
qed

lemma block_start_in: "wf_params s l m n \<Longrightarrow> 0 \<le> i \<Longrightarrow> i < maxCIDRs s \<Longrightarrow>
    block_start s i \<in> net_addrs (indexToCIDRBlock s i)"
  by (simp add: block_addrs)

lemma getIndexForCIDR_block:
  assumes wf: "wf_params s l m n" and i: "0 \<le> i" "i < maxCIDRs s"
  shows "getIndexForCIDR s (indexToCIDRBlock s i) = Inr i"
proof -
  note v = indexToCIDRBlock_val [OF wf i]
  have x: "block_start s i \<in> net_addrs (clusterCIDR s)"
    using block_subset_cluster [OF wf i] block_start_in [OF wf i] by blast
  have "block_index s (block_start s i) = nat i"
    using in_block_iff [OF wf i x] block_start_in [OF wf i] by simp
  then show ?thesis
    using getIndexForIP_in [OF wf v(2)] canonD(9) [OF block_canon [OF wf i]] x v(1) i
    by (simp add: getIndexForCIDR_def)
qed

subsection \<open>The range of indices of a network\<close>

text \<open>\<open>touched s cidr\<close>: the blocks of the set that share an address with \<open>cidr\<close>.\<close>

definition touched :: "CidrSet \<Rightarrow> IPNet \<Rightarrow> nat set" where
  "touched s cidr = {i. i < nat (maxCIDRs s)
     \<and> net_addrs (indexToCIDRBlock s (int i)) \<inter> net_addrs cidr \<noteq> {}}"

lemma touched_interval:
  assumes wf: "wf_params s l m n" and k: "canon l k cidr"
    and sub: "net_addrs cidr \<subseteq> net_addrs (clusterCIDR s)"
  shows "touched s cidr = {block_index s (net_first cidr) ..
    block_index s (net_first cidr + (2 ^ (8 * l - k) - 1))}"
proof -
  let ?c = "ip_val (IP (clusterCIDR s))" and ?B = "2 ^ (8 * l - n) :: nat"
    and ?v = "net_first cidr" and ?q = "2 ^ (8 * l - k) :: nat"
  have cidr: "net_addrs cidr = {?v ..< ?v + ?q}"
    by (simp add: net_addrs_def canon_net_bits [OF k])
  have in1: "?v \<in> net_addrs (clusterCIDR s)" and in2: "?v + (?q - 1) \<in> net_addrs (clusterCIDR s)"
  proof -
    have "0 < ?q" by simp
    then have "?v \<in> net_addrs cidr" "?v + (?q - 1) \<in> net_addrs cidr"
      unfolding cidr using interval_last by auto
    then show "?v \<in> net_addrs (clusterCIDR s)" "?v + (?q - 1) \<in> net_addrs (clusterCIDR s)"
      using sub by blast+
  qed
  have c: "?c \<le> ?v" using in1 by (simp add: cluster_addrs(2) [OF wf])
  have mx: "nat (maxCIDRs s) = 2 ^ (n - m)" by (simp add: wf_paramsD(8) [OF wf] nat_power_eq)
  have meets: "net_addrs (indexToCIDRBlock s (int i)) \<inter> net_addrs cidr \<noteq> {} \<longleftrightarrow>
      block_index s ?v \<le> i \<and> i \<le> block_index s (?v + (?q - 1))" if "i < nat (maxCIDRs s)" for i
  proof -
    have "net_addrs (indexToCIDRBlock s (int i)) = {?c + i * ?B ..< ?c + i * ?B + ?B}"
      using block_addrs [OF wf, of "int i"] that by (simp add: block_start_params [OF wf])
    then have "net_addrs (indexToCIDRBlock s (int i)) \<inter> net_addrs cidr \<noteq> {} \<longleftrightarrow>
        ?c + i * ?B < ?v + ?q \<and> ?v < ?c + i * ?B + ?B"
      unfolding cidr by (simp only:) (rule interval_meets, simp_all)
    also have "\<dots> \<longleftrightarrow> i * ?B \<le> ?v + (?q - 1) - ?c \<and> ?v - ?c < i * ?B + ?B"
      by (rule interval_shift [OF _ c]) simp
    also have "\<dots> \<longleftrightarrow> block_index s ?v \<le> i \<and> i \<le> block_index s (?v + (?q - 1))"
      using div_less_iff_less_mult [of ?B "?v - ?c" "Suc i"]
      by (auto simp: block_index_params [OF wf] less_eq_div_iff_mult_less_eq less_Suc_eq_le
          add.commute)
    finally show ?thesis .
  qed
  have "block_index s (?v + (?q - 1)) < nat (maxCIDRs s)"
    using block_index_less [OF wf in2] by (simp only: mx)
  then show ?thesis
    unfolding touched_def using meets
    by (intro set_eqI) (simp only: mem_Collect_eq atLeastAtMost_iff, meson le_less_trans)
qed


lemma canon_nested:
  assumes a: "canon l k a" and b: "canon l j b" and jk: "j \<le> k"
    and x: "x \<in> net_addrs a" "x \<in> net_addrs b"
  shows "net_addrs a \<subseteq> net_addrs b"
proof
  fix y assume "y \<in> net_addrs a"
  then have "y div 2 ^ (8 * l - k) = x div 2 ^ (8 * l - k)"
    using x(1) by (simp add: mem_net_addrs [OF a])
  then have "y div 2 ^ (8 * l - j) = x div 2 ^ (8 * l - j)"
    by (rule div_eq_mono [rotated]) (use jk in simp)
  then show "y \<in> net_addrs b" using x(2) by (simp add: mem_net_addrs [OF b])
qed

lemma net_first_in [simp]: "net_first n \<in> net_addrs n"
  by (simp add: net_addrs_def)

lemma canon_meet_first:
  assumes a: "canon l k a" and b: "canon l j b" and jk: "j \<le> k"
  shows "net_addrs a \<inter> net_addrs b \<noteq> {} \<longleftrightarrow> net_first a \<in> net_addrs b"
  using canon_nested [OF a b jk] net_first_in [of a] by blast

text \<open>Masking an address of the same family keeps the test for containment.\<close>

lemma Contains_masked:
  assumes n: "canon l k n" and a: "canon l j a"
  shows "Contains n (ip_Mask (IP a) (Mask n)) \<longleftrightarrow> net_first a \<in> net_addrs n"
proof -
  let ?ip = "map2 (AND) (IP a) (mask_bytes l k)"
  have e: "ip_Mask (IP a) (Mask n) = ?ip"
    using canonD(1) [OF a] canonD(3) [OF n] by (simp add: ip_Mask_same)
  have v: "ip_val ?ip = blk (8 * l - k) (net_first a)"
    using canonD(1) [OF a] canonD(4) [OF n] by (simp add: byte_val net_first_def)
  have "l = 16 \<Longrightarrow> to4 ?ip = []"
    using to4_masked [of "IP a" k] canonD [OF a] canonD(4) [OF n] by simp
  then show ?thesis
    using canonD(1) [OF a]
    by (simp add: e Contains_canon [OF n] v mem_net_addrs [OF n])
qed

text \<open>A network of the other family is never in range.\<close>

lemma Contains_other_family:
  assumes n: "canon l k n" and a: "canon l' j a" and "l \<noteq> l'"
  shows "\<not> Contains n (ip_Mask (IP a) (Mask n))"
proof (cases "l = 4")
  case True
  then have "l' = 16" using canonD(6) [OF a] assms(3) by auto
  then have "ip_Mask (IP a) (Mask n) = []"
    using True canonD(1,9) [OF a] canonD(2) [OF n]
    by (auto simp: ip_Mask_def ip_len to4_def)
  then show ?thesis using True canonD(1) [OF n]
    by (auto simp: Contains_def networkNumberAndMask_canon [OF n])
next
  case False
  then have l: "l = 16" "l' = 4" using canonD(6) [OF n] canonD(6) [OF a] assms(3) by auto
  have "length (ip_Mask (IP a) (Mask n)) \<le> 4"
    using l canonD(1) [OF a] canonD(2) [OF n] by (auto simp: ip_Mask_def ip_len Let_def)
  then show ?thesis using l canonD(1) [OF n]
    by (auto simp: Contains_def networkNumberAndMask_canon [OF n] Let_def to4_def ip_len)
qed

lemma getBeginingAndEndIndices_part:
  assumes wf: "wf_params s l m n" and k: "canon l k cidr" and mk: "m < k"
    and v: "net_first cidr \<in> net_addrs (clusterCIDR s)"
  shows "getBeginingAndEndIndices s (Some cidr) =
    Inr (int (block_index s (net_first cidr)),
         int (block_index s (net_first cidr + (2 ^ (8 * l - k) - 1))))"
proof -
  note D = wf_paramsD [OF wf] and kD = canonD [OF k]
  have sub: "net_addrs cidr \<subseteq> net_addrs (clusterCIDR s)"
    using canon_nested [OF k D(6)] mk v by (meson less_imp_le net_first_in)
  obtain ip where ip: "lastIP cidr = Inr ip" "length ip = l"
    "ip_val ip = net_first cidr + (2 ^ (8 * l - k) - 1)"
    using lastIP_canon [OF k] by (metis net_first_def)
  have fin: "ip_val ip \<in> net_addrs (clusterCIDR s)"
    using subsetD [OF sub] interval_last
    by (simp only: ip(3) net_addrs_def canon_net_bits [OF k]) simp
  have idx: "getIndexForCIDR s \<lparr>IP = ip_Mask a (nodeMask s), Mask = nodeMask s\<rparr>
      = Inr (int (block_index s (ip_val a)))"
    if a: "length a = l" "ip_val a \<in> net_addrs (clusterCIDR s)" for a
  proof -
    let ?a = "map2 (AND) a (mask_bytes l n)"
    have va: "ip_val ?a = blk (8 * l - n) (ip_val a)"
      using a(1) D(4) by (simp add: byte_val)
    have q: "(ip_val ?a) div 2 ^ (8 * l - m) = ip_val a div 2 ^ (8 * l - m)"
      using div_eq_mono [OF diff_le_mono2 [OF D(3)] blk_div] by (simp add: va)
    then have ina: "ip_val ?a \<in> net_addrs (clusterCIDR s)"
      using a(2) by (simp add: cluster_addrs(1) [OF wf])
    have "l = 16 \<Longrightarrow> to4 ?a = []"
      using ina D(9) a(1) by (intro to4_large) (auto simp: cluster_addrs(2) [OF wf])
    then have "getIndexForIP s ?a = Inr (int (block_index s (ip_val ?a)))"
      using ina a(1) by (intro getIndexForIP_in [OF wf]) simp_all
    moreover have "block_index s (ip_val ?a) = block_index s (ip_val a)"
    proof -
      obtain c where c: "ip_val (IP (clusterCIDR s)) = 2 ^ (8 * l - n) * c"
        using dvd_trans [OF le_imp_power_dvd D(12)] D(3) by (metis diff_le_mono2 dvdE)
      show ?thesis
        by (simp add: block_index_params [OF wf] va c blk_minus_div)
    qed
    ultimately show ?thesis
      using a(1) D(7) by (simp add: getIndexForCIDR_def ip_Mask_same)
  qed
  show ?thesis
    using v idx [OF kD(1)] idx [OF ip(2) fin] ip D(1) mk
    by (simp add: getBeginingAndEndIndices_def canon_mask_Size [OF k]
        Contains_masked [OF D(6) k] net_first_def)
qed


text \<open>
  The range of indices in full: a canonical network of the set's family that meets the
  cluster touches exactly the blocks between the two indices returned; any other canonical
  network is out of range.
\<close>

definition in_range :: "CidrSet \<Rightarrow> IPNet \<Rightarrow> bool" where
  "in_range s cidr \<longleftrightarrow> length (IP cidr) = length (IP (clusterCIDR s))
     \<and> (net_first cidr \<in> net_addrs (clusterCIDR s) \<or> net_first (clusterCIDR s) \<in> net_addrs cidr)"

lemma in_range_iff_meets:
  assumes wf: "wf_params s l m n" and k: "canon l k cidr"
  shows "in_range s cidr \<longleftrightarrow> net_addrs cidr \<inter> net_addrs (clusterCIDR s) \<noteq> {}"
proof -
  note C = wf_paramsD(6) [OF wf]
  show ?thesis
    using canon_meet_first [OF k C] canon_meet_first [OF C k] canonD(1) [OF k] canonD(1) [OF C]
      net_first_in [of cidr] net_first_in [of "clusterCIDR s"]
    by (cases "m \<le> k") (auto simp: in_range_def)
qed

lemma touched_all:
  assumes wf: "wf_params s l m n" and k: "canon l k cidr" and km: "k \<le> m"
    and c: "net_first (clusterCIDR s) \<in> net_addrs cidr"
  shows "touched s cidr = {..< nat (maxCIDRs s)}"
proof -
  have "net_addrs (clusterCIDR s) \<subseteq> net_addrs cidr"
    using canon_nested [OF wf_paramsD(6) [OF wf] k km net_first_in c] .
  moreover have "net_addrs (indexToCIDRBlock s (int i)) \<inter> net_addrs cidr \<noteq> {}"
    if "i < nat (maxCIDRs s)" for i
  proof -
    have "int i < maxCIDRs s" using that by linarith
    then show ?thesis
      using block_subset_cluster [OF wf, of "int i"] block_start_in [OF wf, of "int i"] calculation
      by (meson disjoint_iff of_nat_0_le_iff subsetD)
  qed
  ultimately show ?thesis by (auto simp: touched_def)
qed

lemma getBeginingAndEndIndices_in:
  assumes wf: "wf_params s l m n" and k: "canon l k cidr" and r: "in_range s cidr"
  obtains b e where "getBeginingAndEndIndices s (Some cidr) = Inr (int b, int e)"
    "touched s cidr = {b..e}" "b \<le> e" "e < nat (maxCIDRs s)"
proof (cases "m < k")
  case True
  then have v: "net_first cidr \<in> net_addrs (clusterCIDR s)"
    using r in_range_iff_meets [OF wf k] canon_meet_first [OF k wf_paramsD(6) [OF wf]] by simp
  have sub: "net_addrs cidr \<subseteq> net_addrs (clusterCIDR s)"
    using canon_nested [OF k wf_paramsD(6) [OF wf] _ net_first_in v] True by simp
  let ?e = "net_first cidr + (2 ^ (8 * l - k) - 1)"
  have "?e \<in> net_addrs cidr"
    using interval_last [of "2 ^ (8 * l - k)"] by (simp add: net_addrs_def canon_net_bits [OF k])
  with sub have "?e \<in> net_addrs (clusterCIDR s)" by blast
  then have "block_index s ?e < nat (maxCIDRs s)"
    using block_index_less [OF wf] wf_paramsD(8) [OF wf] by (simp add: nat_power_eq)
  moreover have "block_index s (net_first cidr) \<le> block_index s ?e"
    unfolding block_index_params [OF wf] by (intro div_le_mono diff_le_mono le_add1)
  ultimately show thesis
    using that getBeginingAndEndIndices_part [OF wf k True v] touched_interval [OF wf k sub] by blast
next
  case False
  then have c: "net_first (clusterCIDR s) \<in> net_addrs cidr"
    using r in_range_iff_meets [OF wf k] canon_meet_first [OF wf_paramsD(6) [OF wf] k]
    by (auto simp: Int_commute)
  have mx: "0 < nat (maxCIDRs s)" by (simp add: wf_paramsD(8) [OF wf])
  have "getBeginingAndEndIndices s (Some cidr) = Inr (0, maxCIDRs s - 1)"
    using c False Contains_masked [OF k wf_paramsD(6) [OF wf]] wf_paramsD(1) [OF wf]
    by (simp add: getBeginingAndEndIndices_def canon_mask_Size [OF k])
  moreover have "int (nat (maxCIDRs s) - 1) = maxCIDRs s - 1" using mx by linarith
  moreover have "touched s cidr = {0 .. nat (maxCIDRs s) - 1}"
  proof -
    have "touched s cidr = {..< nat (maxCIDRs s)}"
      by (rule touched_all [OF wf k _ c]) (use False in simp)
    also have "\<dots> = {0 .. nat (maxCIDRs s) - 1}"
      using mx by (auto simp only: lessThan_iff atLeastAtMost_iff)
    finally show ?thesis .
  qed
  moreover have "nat (maxCIDRs s) - 1 < nat (maxCIDRs s)" using mx by linarith
  ultimately show thesis
    using that [of 0 "nat (maxCIDRs s) - 1"] by simp
qed

lemma getBeginingAndEndIndices_out:
  assumes wf: "wf_params s l m n" and k: "canon l' k cidr" and r: "\<not> in_range s cidr"
  shows "getBeginingAndEndIndices s (Some cidr) = Inl (ErrOutOfClusterRange cidr (clusterCIDR s))"
proof -
  note C = wf_paramsD(6) [OF wf]
  have "\<not> Contains (clusterCIDR s) (ip_Mask (IP cidr) (Mask (clusterCIDR s)))
      \<and> \<not> Contains cidr (ip_Mask (IP (clusterCIDR s)) (Mask cidr))"
  proof (cases "l' = l")
    case True
    then have k': "canon l k cidr" using k by simp
    then show ?thesis
      using r canonD(1) [OF k'] wf_paramsD(10) [OF wf]
      by (simp add: Contains_masked [OF C k'] Contains_masked [OF k' C] in_range_def)
  next
    case False
    then show ?thesis
      using Contains_other_family [OF k C] Contains_other_family [OF C k] by blast
  qed
  then show ?thesis
    by (simp add: getBeginingAndEndIndices_def case_prod_unfold)
qed

end
