(* ===== verification/CidrOps.thy ===== *)
theory CidrOps
  imports CidrBlocks
begin

text \<open>
  The operations of a CIDR set against their abstract specification: a set is the finite set
  of indices of the blocks in use (\<open>used_set\<close>). Allocation inserts the first free index on
  the way round from the next candidate, occupation inserts the touched indices, release
  removes them; the counter is the cardinality and every operation keeps the invariant
  \<open>cset_inv\<close>. The bitmap is used through the interface \<open>bitmap\<close>, interpreted on \<open>big.Int\<close>.
\<close>

subsection \<open>The bitmap interface\<close>

locale bitmap =
  fixes bit_at :: "'b \<Rightarrow> int \<Rightarrow> bool"
    and assign :: "'b \<Rightarrow> int \<Rightarrow> bool \<Rightarrow> 'b"
    and zero_map :: 'b
  assumes bit_at_assign: "0 \<le> i \<Longrightarrow> 0 \<le> j \<Longrightarrow> bit_at (assign x i b) j = (if i = j then b else bit_at x j)"
    and bit_at_zero: "\<not> bit_at zero_map j"
begin

lemma members_zero: "{j. bit_at zero_map (int j)} = {}"
  by (simp add: bit_at_zero)

lemma members_set:
  "0 \<le> i \<Longrightarrow> {j. bit_at (assign x i True) (int j)} = insert (nat i) {j. bit_at x (int j)}"
  by (auto simp: bit_at_assign)

lemma members_clear:
  "0 \<le> i \<Longrightarrow> {j. bit_at (assign x i False) (int j)} = {j. bit_at x (int j)} - {nat i}"
  by (auto simp: bit_at_assign)

end

interpretation big: bitmap big_Bit big_SetBit 0
proof unfold_locales
  show "big_Bit (big_SetBit x i b) j = (if i = j then b else big_Bit x j)"
    if "0 \<le> i" "0 \<le> j" for x i b j
    using that by (auto simp: big_Bit_def big_SetBit_def bit_simps nat_eq_iff)
qed (simp add: big_Bit_def)

subsection \<open>Abstraction and invariant\<close>

definition used_set :: "CidrSet \<Rightarrow> nat set" where
  "used_set s = {i. big_Bit (used s) (int i)}"

definition cset_inv :: "CidrSet \<Rightarrow> bool" where
  "cset_inv s \<longleftrightarrow> cset_wf s \<and> used_set s \<subseteq> {..< nat (maxCIDRs s)}
     \<and> allocatedCIDRs s = int (card (used_set s))
     \<and> 0 \<le> nextCandidate s \<and> nextCandidate s < maxCIDRs s"

text \<open>Two states of the same set: everything but the mutable fields agrees.\<close>

definition same_config :: "CidrSet \<Rightarrow> CidrSet \<Rightarrow> bool" where
  "same_config s s' \<longleftrightarrow> s' = s\<lparr>nextCandidate := nextCandidate s', used := used s',
     allocatedCIDRs := allocatedCIDRs s'\<rparr>"

lemma same_config_refl [simp, intro]: "same_config s s"
  by (simp add: same_config_def)

lemma same_config_trans [trans]: "same_config s t \<Longrightarrow> same_config t u \<Longrightarrow> same_config s u"
  by (cases s; cases t; cases u) (simp add: same_config_def)

lemma same_configD:
  assumes "same_config s s'"
  shows "clusterCIDR s' = clusterCIDR s" "clusterMaskSize s' = clusterMaskSize s"
    "nodeMask s' = nodeMask s" "nodeMaskSize s' = nodeMaskSize s" "maxCIDRs s' = maxCIDRs s"
    "label s' = label s"
  using assms by (cases s; cases s'; simp add: same_config_def)+

lemma same_config_eqs [cset_frame]:
  assumes "same_config s s'"
  shows "wf_params s' l m n = wf_params s l m n" "cset_wf s' = cset_wf s"
    "indexToCIDRBlock s' i = indexToCIDRBlock s i" "touched s' cidr = touched s cidr"
    "in_range s' cidr = in_range s cidr" "getIndexForIP s' ip = getIndexForIP s ip"
    "getBeginingAndEndIndices s' c = getBeginingAndEndIndices s c"
    "block_start s' i = block_start s i"
proof -
  note eqs = same_configD [OF assms]
  show b: "indexToCIDRBlock s' i = indexToCIDRBlock s i" for i
    unfolding indexToCIDRBlock_def blockIPv4_def blockIPv6_def eqs by (rule refl)
  show "getIndexForIP s' ip = getIndexForIP s ip"
    unfolding getIndexForIP_def eqs by (rule refl)
  show "getBeginingAndEndIndices s' c = getBeginingAndEndIndices s c"
    unfolding getBeginingAndEndIndices_def getIndexForCIDR_def getIndexForIP_def eqs by (rule refl)
  show "wf_params s' l m n = wf_params s l m n" "cset_wf s' = cset_wf s"
    "touched s' cidr = touched s cidr" "in_range s' cidr = in_range s cidr"
    "block_start s' i = block_start s i"
    unfolding wf_params_def cset_wf_def touched_def in_range_def block_start_def eqs b
    by (rule refl)+
qed

lemma finite_used: "finite (used_set s)"
proof -
  have "used_set s \<subseteq> {..< used s}"
  proof
    fix i assume "i \<in> used_set s"
    then have "bit (used s) i" by (simp add: used_set_def big_Bit_def)
    then have "2 ^ i \<le> used s"
      by (metis bit_nat_iff bit_iff_odd div_less even_zero not_less)
    then have "i < used s" by (rule less_le_trans [OF less_exp])
    then show "i \<in> {..< used s}" by simp
  qed
  then show ?thesis by (rule finite_subset) simp
qed

lemma used_set_update:
  "0 \<le> i \<Longrightarrow> used_set (s\<lparr>used := big_SetBit (used s) i True, allocatedCIDRs := a\<rparr>)
     = insert (nat i) (used_set s)"
  "0 \<le> i \<Longrightarrow> used_set (s\<lparr>used := big_SetBit (used s) i False, allocatedCIDRs := a\<rparr>)
     = used_set s - {nat i}"
  "0 \<le> i \<Longrightarrow> used_set (s\<lparr>nextCandidate := c, used := big_SetBit (used s) i True, allocatedCIDRs := a\<rparr>)
     = insert (nat i) (used_set s)"
  by (simp_all add: used_set_def big.members_set big.members_clear)

lemma used_set_iff: "0 \<le> i \<Longrightarrow> big_Bit (used s) i \<longleftrightarrow> nat i \<in> used_set s"
  by (simp add: used_set_def)

subsection \<open>The loops over a range\<close>

text \<open>The indices from \<open>i\<close> to \<open>j\<close>.\<close>

definition index_range :: "int \<Rightarrow> int \<Rightarrow> nat set" where
  "index_range i j = {k. i \<le> int k \<and> int k \<le> j}"

lemma index_range_empty [simp]: "j < i \<Longrightarrow> index_range i j = {}"
  by (auto simp: index_range_def)

lemma index_range_step: "0 \<le> i \<Longrightarrow> i \<le> j \<Longrightarrow> index_range i j = insert (nat i) (index_range (i + 1) j)"
  by (auto simp: index_range_def)

lemma index_range_notin [simp]: "0 \<le> i \<Longrightarrow> nat i \<notin> index_range (i + 1) j"
  by (auto simp: index_range_def)

lemma finite_index_range [simp]: "finite (index_range i j)"
  by (rule finite_subset [of _ "{..nat j}"]) (auto simp: index_range_def)

lemma index_range_nat [simp]: "index_range (int b) (int e) = {b..e}"
  by (auto simp: index_range_def)

lemma occupyRange_spec:
  assumes "0 \<le> i"
  shows "\<exists>s'. occupyRange i j s = (s', replicate (card (index_range i j - used_set s)) (AllocationsInc (label s)))
    \<and> same_config s s' \<and> nextCandidate s' = nextCandidate s
    \<and> used_set s' = used_set s \<union> index_range i j
    \<and> allocatedCIDRs s' = allocatedCIDRs s + int (card (index_range i j - used_set s))"
  using assms
proof (induction i j s rule: occupyRange.induct)
  case (1 i j s)
  let ?t = "s\<lparr>used := big_SetBit (used s) i True, allocatedCIDRs := allocatedCIDRs s + 1\<rparr>"
  consider "j < i" | "i \<le> j" "big_Bit (used s) i" | "i \<le> j" "\<not> big_Bit (used s) i" by linarith
  then show ?case
  proof cases
    case 1
    then show ?thesis by (simp add: occupyRange.simps)
  next
    case 2
    then have "nat i \<in> used_set s" using "1.prems" by (simp add: used_set_iff)
    moreover have "occupyRange i j s = occupyRange (i + 1) j s"
      using 2 by (simp add: occupyRange.simps [of i])
    ultimately show ?thesis
      using "1.IH"(2) 2 "1.prems" by (simp add: index_range_step insert_absorb insert_Diff_if)
  next
    case 3
    then have new: "nat i \<notin> used_set s" using "1.prems" by (simp add: used_set_iff)
    have u: "used_set ?t = insert (nat i) (used_set s)"
      using "1.prems" by (simp add: used_set_update)
    have d: "index_range i j - used_set s = insert (nat i) (index_range (i + 1) j - used_set ?t)"
      using new 3 "1.prems" by (auto simp: index_range_step u)
    then have c: "card (index_range i j - used_set s) = Suc (card (index_range (i + 1) j - used_set ?t))"
      using "1.prems" by (simp add: u)
    obtain s' where s': "occupyRange (i + 1) j ?t = (s', replicate (card (index_range (i + 1) j - used_set ?t))
          (AllocationsInc (label ?t)))" "same_config ?t s'" "nextCandidate s' = nextCandidate ?t"
      "used_set s' = used_set ?t \<union> index_range (i + 1) j"
      "allocatedCIDRs s' = allocatedCIDRs ?t + int (card (index_range (i + 1) j - used_set ?t))"
      using "1.IH"(1) 3 "1.prems" by fastforce
    have "same_config s ?t" by (simp add: same_config_def)
    then have "same_config s s'" using s'(2) by (rule same_config_trans)
    moreover have "occupyRange i j s = (s', replicate (Suc (card (index_range (i + 1) j - used_set ?t)))
        (AllocationsInc (label s)))"
      using 3 s'(1) by (simp add: occupyRange.simps [of i])
    ultimately show ?thesis
      using s'(3-5) 3 "1.prems" unfolding c by (auto simp: u index_range_step)
  qed
qed

lemma releaseRange_spec:
  assumes "0 \<le> i"
  shows "\<exists>s'. releaseRange i j s = (s', replicate (card (index_range i j \<inter> used_set s)) (ReleasesInc (label s)))
    \<and> same_config s s' \<and> nextCandidate s' = nextCandidate s
    \<and> used_set s' = used_set s - index_range i j
    \<and> allocatedCIDRs s' = allocatedCIDRs s - int (card (index_range i j \<inter> used_set s))"
  using assms
proof (induction i j s rule: releaseRange.induct)
  case (1 i j s)
  let ?t = "s\<lparr>used := big_SetBit (used s) i False, allocatedCIDRs := allocatedCIDRs s - 1\<rparr>"
  consider "j < i" | "i \<le> j" "\<not> big_Bit (used s) i" | "i \<le> j" "big_Bit (used s) i" by linarith
  then show ?case
  proof cases
    case 1
    then show ?thesis by (simp add: releaseRange.simps)
  next
    case 2
    then have "nat i \<notin> used_set s" using "1.prems" by (simp add: used_set_iff)
    moreover have "releaseRange i j s = releaseRange (i + 1) j s"
      using 2 by (simp add: releaseRange.simps [of i])
    ultimately show ?thesis
      using "1.IH"(2) 2 "1.prems" by (simp add: index_range_step)
  next
    case 3
    then have old: "nat i \<in> used_set s" using "1.prems" by (simp add: used_set_iff)
    have u: "used_set ?t = used_set s - {nat i}"
      using "1.prems" by (simp add: used_set_update)
    have d: "index_range i j \<inter> used_set s = insert (nat i) (index_range (i + 1) j \<inter> used_set ?t)"
      using old 3 "1.prems" by (auto simp: index_range_step u)
    then have c: "card (index_range i j \<inter> used_set s) = Suc (card (index_range (i + 1) j \<inter> used_set ?t))"
      using "1.prems" by (simp add: u)
    obtain s' where s': "releaseRange (i + 1) j ?t = (s', replicate (card (index_range (i + 1) j \<inter> used_set ?t))
          (ReleasesInc (label ?t)))" "same_config ?t s'" "nextCandidate s' = nextCandidate ?t"
      "used_set s' = used_set ?t - index_range (i + 1) j"
      "allocatedCIDRs s' = allocatedCIDRs ?t - int (card (index_range (i + 1) j \<inter> used_set ?t))"
      using "1.IH"(1) 3 "1.prems" by fastforce
    have "same_config s ?t" by (simp add: same_config_def)
    then have "same_config s s'" using s'(2) by (rule same_config_trans)
    moreover have "releaseRange i j s = (s', replicate (Suc (card (index_range (i + 1) j \<inter> used_set ?t)))
        (ReleasesInc (label s)))"
      using 3 s'(1) by (simp add: releaseRange.simps [of i])
    ultimately show ?thesis
      using s'(3-5) 3 "1.prems" unfolding c by (auto simp: u index_range_step)
  qed
qed


subsection \<open>Occupy and Release\<close>

definition occupied_by :: "CidrSet \<Rightarrow> IPNet \<Rightarrow> CidrSet \<Rightarrow> bool" where
  "occupied_by s cidr s' \<longleftrightarrow> same_config s s' \<and> nextCandidate s' = nextCandidate s
     \<and> used_set s' = used_set s \<union> touched s cidr
     \<and> allocatedCIDRs s' = allocatedCIDRs s + int (card (touched s cidr - used_set s))"

definition released_by :: "CidrSet \<Rightarrow> IPNet \<Rightarrow> CidrSet \<Rightarrow> bool" where
  "released_by s cidr s' \<longleftrightarrow> same_config s s' \<and> nextCandidate s' = nextCandidate s
     \<and> used_set s' = used_set s - touched s cidr
     \<and> allocatedCIDRs s' = allocatedCIDRs s - int (card (touched s cidr \<inter> used_set s))"

lemma Occupy_in:
  assumes "cset_wf s" "canon (length (IP (clusterCIDR s))) k cidr" "in_range s cidr"
  obtains s' where "Occupy s (Some cidr) = (Inr (), s',
      replicate (card (touched s cidr - used_set s)) (AllocationsInc (label s))
        @ [UsageSet (label s) (allocatedCIDRs s') (maxCIDRs s)])"
    "occupied_by s cidr s'"
proof -
  obtain l m n where wf: "wf_params s l m n" "l = length (IP (clusterCIDR s))"
    using assms(1) by (rule cset_wf_params)
  obtain b e where be: "getBeginingAndEndIndices s (Some cidr) = Inr (int b, int e)"
    "touched s cidr = {b..e}"
    using getBeginingAndEndIndices_in [OF wf(1) _ assms(3)] assms(2) wf(2) by metis
  show thesis
    using occupyRange_spec [of "int b" "int e" s] be that
    by (auto simp: Occupy_def occupied_by_def)
qed

lemma Release_in:
  assumes "cset_wf s" "canon (length (IP (clusterCIDR s))) k cidr" "in_range s cidr"
  obtains s' where "Release s (Some cidr) = (Inr (), s',
      replicate (card (touched s cidr \<inter> used_set s)) (ReleasesInc (label s))
        @ [UsageSet (label s) (allocatedCIDRs s') (maxCIDRs s)])"
    "released_by s cidr s'"
proof -
  obtain l m n where wf: "wf_params s l m n" "l = length (IP (clusterCIDR s))"
    using assms(1) by (rule cset_wf_params)
  obtain b e where be: "getBeginingAndEndIndices s (Some cidr) = Inr (int b, int e)"
    "touched s cidr = {b..e}"
    using getBeginingAndEndIndices_in [OF wf(1) _ assms(3)] assms(2) wf(2) by metis
  show thesis
    using releaseRange_spec [of "int b" "int e" s] be that
    by (auto simp: Release_def released_by_def)
qed

lemma touched_bounded: "touched s cidr \<subseteq> {..< nat (maxCIDRs s)}"
  by (auto simp: touched_def)

lemma finite_touched [simp]: "finite (touched s cidr)"
  by (rule finite_subset [OF touched_bounded]) simp

lemma occupied_by_inv: "occupied_by s cidr s' \<Longrightarrow> cset_inv s \<Longrightarrow> cset_inv s'"
  using touched_bounded [of s cidr] card_Un_disjoint [of "used_set s" "touched s cidr - used_set s"]
  by (auto simp: occupied_by_def cset_inv_def same_config_eqs(2) same_configD(5) finite_used)

lemma released_by_inv:
  assumes "released_by s cidr s'" "cset_inv s"
  shows "cset_inv s'"
proof -
  have "card (used_set s - touched s cidr) + card (touched s cidr \<inter> used_set s) = card (used_set s)"
    by (subst card_Un_disjoint [symmetric]) (auto simp: finite_used intro: arg_cong [of _ _ card])
  then show ?thesis
    using assms by (auto simp: released_by_def cset_inv_def same_config_eqs(2) same_configD(5))
qed

text \<open>Errors and panics leave the set as it was.\<close>

lemma Occupy_error: "Occupy s c = (Inl e, s', ms) \<Longrightarrow> s' = s \<and> ms = []"
  by (auto simp: Occupy_def split: sum.splits prod.splits)

lemma Release_error: "Release s c = (Inl e, s', ms) \<Longrightarrow> s' = s \<and> ms = []"
  by (auto simp: Release_def split: sum.splits prod.splits)


subsection \<open>AllocateNext\<close>

text \<open>
  \<open>round_robin s k i\<close>: after \<open>k\<close> blocks in use, block \<open>i\<close> is the first free one on the way round
  from the next candidate.
\<close>

definition round_robin :: "CidrSet \<Rightarrow> nat \<Rightarrow> int \<Rightarrow> bool" where
  "round_robin s k i \<longleftrightarrow> i = (nextCandidate s + int k) mod maxCIDRs s \<and> nat i \<notin> used_set s
     \<and> (\<forall>j < k. nat ((nextCandidate s + int j) mod maxCIDRs s) \<in> used_set s)
     \<and> int k < maxCIDRs s"

lemma smod_pos: "0 \<le> a \<Longrightarrow> 0 < b \<Longrightarrow> a smod b = a mod (b::int)"
  by (simp add: smod_int_alt_def sgn_if)

lemma findCandidate_first:
  assumes "0 < mx" "0 \<le> c" "c < mx" "\<not> big_Bit b ((c + int k) mod mx)"
    "\<And>j. j < k \<Longrightarrow> big_Bit b ((c + int j) mod mx)" "i + int k < mx"
  shows "findCandidate b mx i c = ((c + int k) mod mx, i + int k)"
  using assms
proof (induction k arbitrary: i c)
  case 0
  then show ?case by (simp add: findCandidate.simps [of b mx i c])
next
  case (Suc k)
  let ?c = "(c + 1) mod mx"
  have step: "(?c + int j) mod mx = (c + int (Suc j)) mod mx" for j
    by (simp add: mod_simps add.assoc)
  have "findCandidate b mx (i + 1) ?c = ((?c + int k) mod mx, i + 1 + int k)"
    by (rule Suc.IH) (use Suc.prems step Suc.prems(5) [of "Suc _"] in simp_all)
  moreover have "big_Bit b c" using Suc.prems(5) [of 0] Suc.prems(2,3) by simp
  moreover have "(c + 1) smod mx = ?c" using Suc.prems(1,2) by (simp add: smod_pos)
  ultimately show ?case
    using step [of k] Suc.prems(6) by (simp add: findCandidate.simps [of b mx i c])
qed

lemma round_robin_exists:
  assumes inv: "cset_inv s" and free: "allocatedCIDRs s \<noteq> maxCIDRs s"
  obtains k i where "round_robin s k i"
proof -
  let ?mx = "maxCIDRs s" and ?c = "nextCandidate s"
  let ?P = "\<lambda>k. nat ((?c + int k) mod ?mx) \<notin> used_set s"
  have mx: "0 < ?mx" using inv by (auto simp: cset_inv_def)
  have "used_set s \<noteq> {..< nat ?mx}"
    using inv free mx by (auto simp: cset_inv_def)
  then obtain f where f: "f < nat ?mx" "f \<notin> used_set s"
    using inv by (auto simp: cset_inv_def)
  let ?k = "nat ((int f - ?c) mod ?mx)"
  have "(?c + int ?k) mod ?mx = int f"
    using mx f(1) by (simp add: mod_simps)
  then have "?P ?k" using f(2) by simp
  then have "?P (Least ?P)" and "Least ?P \<le> ?k" by (rule LeastI, rule Least_le)
  moreover have "int ?k < ?mx" using mx by simp
  ultimately have "int (Least ?P) < ?mx" by linarith
  moreover have "nat ((?c + int j) mod ?mx) \<in> used_set s" if "j < Least ?P" for j
    using not_less_Least [OF that] by blast
  ultimately have "round_robin s (Least ?P) ((?c + int (Least ?P)) mod ?mx)"
    using \<open>?P (Least ?P)\<close> unfolding round_robin_def by blast
  then show thesis by (rule that)
qed

lemma round_robin_bounds: "cset_inv s \<Longrightarrow> round_robin s k i \<Longrightarrow> 0 \<le> i \<and> i < maxCIDRs s"
  by (auto simp: round_robin_def cset_inv_def)

definition allocated_by :: "CidrSet \<Rightarrow> int \<Rightarrow> CidrSet \<Rightarrow> bool" where
  "allocated_by s i s' \<longleftrightarrow> same_config s s' \<and> used_set s' = insert (nat i) (used_set s)
     \<and> allocatedCIDRs s' = allocatedCIDRs s + 1 \<and> nextCandidate s' = (i + 1) mod maxCIDRs s"

lemma AllocateNext_free:
  assumes inv: "cset_inv s" and free: "allocatedCIDRs s \<noteq> maxCIDRs s" and rr: "round_robin s k i"
  obtains s' where "AllocateNext s = (Inr (indexToCIDRBlock s i), s',
      [AllocationsInc (label s), TriesObserve (label s) (int k),
       UsageSet (label s) (allocatedCIDRs s + 1) (maxCIDRs s)])"
    "allocated_by s i s'"
proof -
  let ?s' = "s\<lparr>nextCandidate := (i + 1) smod maxCIDRs s, used := big_SetBit (used s) i True,
      allocatedCIDRs := allocatedCIDRs s + 1\<rparr>"
  have nc: "0 < maxCIDRs s" "0 \<le> nextCandidate s" "nextCandidate s < maxCIDRs s"
    using inv by (auto simp: cset_inv_def)
  note i = round_robin_bounds [OF inv rr]
  have bits: "big_Bit (used s) ((nextCandidate s + int j) mod maxCIDRs s)
      \<longleftrightarrow> nat ((nextCandidate s + int j) mod maxCIDRs s) \<in> used_set s" for j
    using nc by (intro used_set_iff) simp
  have "findCandidate (used s) (maxCIDRs s) 0 (nextCandidate s)
      = ((nextCandidate s + int k) mod maxCIDRs s, 0 + int k)"
    using rr unfolding round_robin_def by (intro findCandidate_first nc) (auto simp: bits)
  then have "findCandidate (used s) (maxCIDRs s) 0 (nextCandidate s) = (i, int k)"
    using rr by (simp add: round_robin_def)
  moreover have sc: "same_config s ?s'" by (simp add: same_config_def)
  moreover have "allocated_by s i ?s'"
    using sc i nc by (simp add: allocated_by_def used_set_update smod_pos)
  ultimately show thesis
    using that [of ?s'] free nc(1) same_config_eqs(3) [OF sc]
    by (simp add: AllocateNext_def)
qed

lemma AllocateNext_full:
  "allocatedCIDRs s = maxCIDRs s \<Longrightarrow> AllocateNext s = (Inl ErrCIDRRangeNoCIDRsRemaining, s, [])"
  by (simp add: AllocateNext_def)

lemma allocated_by_inv:
  assumes "allocated_by s i s'" "cset_inv s" "round_robin s k i"
  shows "cset_inv s'"
proof -
  have "nat i \<notin> used_set s" "0 \<le> i" "i < maxCIDRs s"
    using assms(3) round_robin_bounds [OF assms(2,3)] by (auto simp: round_robin_def)
  then show ?thesis
    using assms(1,2)
    by (auto simp: allocated_by_def cset_inv_def same_config_eqs(2) same_configD(5) finite_used)
qed

text \<open>
  The outcome of \<open>AllocateNext\<close> on a set that satisfies the invariant: the error exactly when
  every block is in use, a fresh block otherwise, never a panic.
\<close>

lemma AllocateNext_cases:
  assumes inv: "cset_inv s"
  obtains (full) "used_set s = {..< nat (maxCIDRs s)}"
      "AllocateNext s = (Inl ErrCIDRRangeNoCIDRsRemaining, s, [])"
    | (fresh) k i s' ms where "round_robin s k i" "allocated_by s i s'"
      "AllocateNext s = (Inr (indexToCIDRBlock s i), s', ms)" "cset_inv s'"
      "ms = [AllocationsInc (label s), TriesObserve (label s) (int k),
         UsageSet (label s) (allocatedCIDRs s + 1) (maxCIDRs s)]"
proof (cases "allocatedCIDRs s = maxCIDRs s")
  case True
  then have "card (used_set s) = card {..< nat (maxCIDRs s)}"
    using inv by (simp add: cset_inv_def)
  then have "used_set s = {..< nat (maxCIDRs s)}"
    using inv by (intro card_subset_eq) (auto simp: cset_inv_def)
  then show thesis using full AllocateNext_full [OF True] by blast
next
  case False
  obtain k i where rr: "round_robin s k i" using round_robin_exists [OF inv False] .
  then obtain s' where "AllocateNext s = (Inr (indexToCIDRBlock s i), s',
      [AllocationsInc (label s), TriesObserve (label s) (int k),
       UsageSet (label s) (allocatedCIDRs s + 1) (maxCIDRs s)])" "allocated_by s i s'"
    using AllocateNext_free [OF inv False] by metis
  then show thesis using fresh rr allocated_by_inv [OF _ inv rr] by blast
qed

subsection \<open>A new set\<close>

lemma NewCIDRSet_wf:
  assumes "canon l m cidr" "m \<le> n" "n \<le> 8 * l" "n - m < 32" "l = 16 \<Longrightarrow> n - m \<le> 16"
    "l = 16 \<Longrightarrow> 2 ^ 48 \<le> net_first cidr"
  obtains s where "NewCIDRSet cidr (int n) reg = (Inr s, registerCidrsetMetrics reg)"
    "cset_inv s" "used_set s = {}" "clusterCIDR s = cidr" "nodeMaskSize s = int n"
    "maxCIDRs s = 2 ^ (n - m)" "clusterMaskSize s = int m" "label s = IPNet_String cidr"
proof -
  let ?s = "\<lparr>clusterCIDR = cidr, clusterMaskSize = int m, nodeMask = mask_bytes l n,
      nodeMaskSize = int n, maxCIDRs = 2 ^ (n - m), allocatedCIDRs = 0, nextCandidate = 0,
      used = 0, label = IPNet_String cidr\<rparr> :: CidrSet"
  have l: "l = 4 \<or> l = 16" and t4: "to4 (IP cidr) = [] \<Longrightarrow> l = 16"
    using canonD(1,6,8) [OF assms(1)] by auto
  have mask: "CIDRMask (int n) (int l * 8) = mask_bytes l n"
    using l assms(3) by (auto simp: CIDRMask_def)
  have "uint32_of (int n - int m) = n - m" using assms(2,4) by (simp add: nat_diff_distrib)
  moreover have "sint (go_shl (1 :: 64 word) (n - m)) = 2 ^ (n - m)"
    using assms(4) by (intro sint_go_shl_1) simp
  ultimately have "NewCIDRSet cidr (int n) reg = (Inr ?s, registerCidrsetMetrics reg)"
    using assms(5) t4
    by (auto simp: NewCIDRSet_def canon_mask_Size [OF assms(1)] mask clusterSubnetMaxDiff_def
        case_prod_unfold Let_def)
  moreover have "wf_params ?s l m n" using assms by (simp add: wf_params_def)
  then have "cset_inv ?s"
    by (auto simp: cset_inv_def used_set_def big.members_zero intro: wf_params_cset_wf)
  ultimately show thesis
    using that [of ?s] by (simp add: used_set_def big.members_zero)
qed

end
