(* ===== verification/NodeUtil.thy ===== *)
theory NodeUtil
  imports CidrOps
begin

text \<open>
  \<open>pkg/node\<close>: the errors of the program, the node object as far as the controller reads it,
  the merge patch that assigns the pod CIDRs (\<open>node.go\<close>) and the informer handlers
  (\<open>controller_utils.go\<close>).

  The API server is not under the repository: a call to it is a parameter, a function of
  its arguments and of the state \<open>'w\<close> of the outside world, to a result and the next state.
\<close>

subsection \<open>Errors\<close>

text \<open>
  Go errors by how they were made: an API status with its reason, a plain error, an error of a
  CIDR set, and \<open>fmt.Errorf\<close> with its format and the text of its arguments, alone or around
  another error: with the verb \<open>%w\<close> (which keeps it reachable for \<open>errors.Is\<close> and
  \<open>errors.As\<close>) or \<open>%v\<close> (which keeps only its text). A panic is carried as an error value
  too: every definition passes it on unwrapped.
\<close>

datatype go_err =
    StatusError string
  | ErrorString string
  | CidrError cidr_error
  | Errorf string "string list"
  | ErrorfV string "string list" go_err
  | ErrorfW string "string list" go_err
  | GoPanic go_panic

text \<open>\<open>errors.Unwrap\<close>, and the chain \<open>errors.As\<close> walks.\<close>

fun Unwrap :: "go_err \<Rightarrow> go_err option" where
  "Unwrap (ErrorfW m args e) = Some e"
| "Unwrap _ = None"

fun err_chain :: "go_err \<Rightarrow> go_err list" where
  "err_chain (ErrorfW m args e) = ErrorfW m args e # err_chain e"
| "err_chain e = [e]"

text \<open>An error of a CIDR set under a message: the panic of a callee is not an error of the caller.\<close>

definition lift_cidr :: "string \<Rightarrow> string list \<Rightarrow> cidr_error \<Rightarrow> go_err" where
  "lift_cidr msg args e =
     (case e of CidrPanic p \<Rightarrow> GoPanic p | _ \<Rightarrow> ErrorfV msg args (CidrError e))"

subsection \<open>Nodes and patches\<close>

record Node =
  Name :: string
  UID :: string
  PodCIDR :: string
  PodCIDRs :: "string list"
  ProviderID :: string

datatype json = JNull | JString string | JArray "json list" | JObject "(string \<times> json) list"

record NodePatchSpec =
  patchPodCIDR :: string
  patchPodCIDRs :: "string list"

record NodePatchMetadata =
  patchLabels :: "(string \<times> string option) list"

record NodePatch =
  patchSpec :: "NodePatchSpec option"
  patchMetadata :: "NodePatchMetadata option"

text \<open>\<open>json.Marshal\<close> with the \<open>omitempty\<close> tags of the three types; the labels are a
  map, listed in the order of their keys, with pointers for values.\<close>

definition marshal_spec :: "NodePatchSpec \<Rightarrow> json" where
  "marshal_spec s = JObject
     ((if patchPodCIDR s = [] then [] else [(''podCIDR'', JString (patchPodCIDR s))])
      @ (if patchPodCIDRs s = [] then []
         else [(''podCIDRs'', JArray (map JString (patchPodCIDRs s)))]))"

definition marshal_metadata :: "NodePatchMetadata \<Rightarrow> json" where
  "marshal_metadata m = JObject
     (if patchLabels m = [] then []
      else [(''labels'', JObject (map (apsnd (case_option JNull JString)) (patchLabels m)))])"

definition marshal_patch :: "NodePatch \<Rightarrow> json" where
  "marshal_patch p = JObject
     ((case patchSpec p of None \<Rightarrow> [] | Some s \<Rightarrow> [(''spec'', marshal_spec s)])
      @ (case patchMetadata p of None \<Rightarrow> [] | Some m \<Rightarrow> [(''metadata'', marshal_metadata m)]))"

text \<open>
  The order of the two CIDRs of a dual-stack node: a stable sort by family.
  \<open>sort.SliceStable\<close> with the source's comparison orders by the key below, and
  \<open>sort_key\<close> is the stable sort by a key.
\<close>

definition family_key :: "bool \<Rightarrow> string \<Rightarrow> nat" where
  "family_key ipv6_first c = (if StrContains c CHR '':'' = ipv6_first then 0 else 1)"

definition order_cidrs :: "string list \<Rightarrow> string \<Rightarrow> string \<Rightarrow> string list" where
  "order_cidrs cidr mode primaryIPFamily =
     (if mode = ''dual-stack'' \<and> length cidr = 2
      then sort_key (family_key (primaryIPFamily = ''ipv6'')) cidr else cidr)"

type_synonym 'w patch_call = "string \<Rightarrow> json \<Rightarrow> 'w \<Rightarrow> go_err option \<times> 'w"

text \<open>
  \<open>PatchNodePodCIDRs\<close>: the slice is sorted in place, so the sorted slice is part of the
  result; indexing an empty slice panics; an error of the API server comes back as
  \<open>fmt.Errorf("error applying patch to node: %v", err)\<close>.
\<close>

definition PatchNodePodCIDRs ::
  "'w patch_call \<Rightarrow> 'w \<Rightarrow> Node \<Rightarrow> string list \<Rightarrow> string \<Rightarrow> string \<Rightarrow> (go_err + unit) \<times> 'w \<times> string list"
where
  "PatchNodePodCIDRs patch w node cidr mode primaryIPFamily =
     (let cidr' = order_cidrs cidr mode primaryIPFamily in
      case cidr' of [] \<Rightarrow> (Inl (GoPanic IndexOutOfRange), w, cidr')
      | c0 # _ \<Rightarrow>
        (let nodePatch = \<lparr>patchSpec = Some \<lparr>patchPodCIDR = c0, patchPodCIDRs = cidr'\<rparr>,
                          patchMetadata = None\<rparr>;
             (err, w') = patch (Name node) (marshal_patch nodePatch) w
         in case err of None \<Rightarrow> (Inr (), w', cidr')
            | Some e \<Rightarrow> (Inl (ErrorfV ''error applying patch to node: %v'' [] e), w', cidr')))"

text \<open>\<open>PtrTo\<close>: a pointer, here an option that is not nil.\<close>

definition PtrTo :: "'a \<Rightarrow> 'a option" where
  "PtrTo v = Some v"

subsection \<open>Events and handlers\<close>

record Event =
  evAPIVersion :: string
  evKind :: string
  evName :: string
  evUID :: string
  evNamespace :: string
  evType :: string
  evReason :: string
  evMessage :: string

definition RecordNodeStatusChange :: "Event list \<Rightarrow> Node \<Rightarrow> string \<Rightarrow> Event list" where
  "RecordNodeStatusChange recorder node newStatus = recorder @
     [\<lparr>evAPIVersion = ''v1'', evKind = ''Node'', evName = Name node, evUID = UID node,
       evNamespace = [], evType = ''Normal'', evReason = newStatus,
       evMessage = ''Node '' @ Name node @ '' status is now: '' @ newStatus\<rparr>]"

text \<open>
  What the informer hands to a handler. A failed type assertion of the single-value form
  panics. The callback is a state transformer with an error result; the last component of
  the handler's result is the errors given to \<open>utilruntime.HandleError\<close>.
\<close>

datatype informer_obj =
    NodeObj Node
  | DeletedFinalStateUnknown informer_obj
  | OtherObj string

type_synonym 's callback = "Node \<Rightarrow> 's \<Rightarrow> (go_err + unit) \<times> 's"

definition handle_result :: "string \<Rightarrow> (go_err + unit) \<times> 's \<Rightarrow> (go_panic + go_err list) \<times> 's" where
  "handle_result msg r = (case r of
       (Inl (GoPanic p), s) \<Rightarrow> (Inl p, s)
     | (Inl e, s) \<Rightarrow> (Inr [ErrorfV msg [] e], s)
     | (Inr _, s) \<Rightarrow> (Inr [], s))"

definition CreateAddNodeHandler ::
  "'s callback \<Rightarrow> informer_obj \<Rightarrow> 's \<Rightarrow> (go_panic + go_err list) \<times> 's" where
  "CreateAddNodeHandler f originalObj s = (case originalObj of
       NodeObj node \<Rightarrow> handle_result ''error while processing Node Add: %v'' (f node s)
     | _ \<Rightarrow> (Inl TypeAssertion, s))"

definition CreateUpdateNodeHandler ::
  "(Node \<Rightarrow> 's callback) \<Rightarrow> informer_obj \<Rightarrow> informer_obj \<Rightarrow> 's \<Rightarrow> (go_panic + go_err list) \<times> 's" where
  "CreateUpdateNodeHandler f origOldObj origNewObj s = (case origNewObj of
       NodeObj node \<Rightarrow> (case origOldObj of
           NodeObj prevNode \<Rightarrow>
             handle_result ''error while processing Node Add/Delete: %v'' (f prevNode node s)
         | _ \<Rightarrow> (Inl TypeAssertion, s))
     | _ \<Rightarrow> (Inl TypeAssertion, s))"

definition CreateDeleteNodeHandler ::
  "'s callback \<Rightarrow> informer_obj \<Rightarrow> 's \<Rightarrow> (go_panic + go_err list) \<times> 's" where
  "CreateDeleteNodeHandler f originalObj s = (case originalObj of
       NodeObj node \<Rightarrow> handle_result ''error while processing Node Add/Delete: %v'' (f node s)
     | DeletedFinalStateUnknown obj \<Rightarrow> (case obj of
           NodeObj node \<Rightarrow> handle_result ''error while processing Node Add/Delete: %v'' (f node s)
         | _ \<Rightarrow> (Inr [], s))
     | OtherObj _ \<Rightarrow> (Inr [], s))"

text \<open>\<open>GetNodeCondition\<close>: a nil status, or no condition of the type, is \<open>-1\<close> and nil.\<close>

record NodeCondition =
  condType :: string
  condStatus :: string

fun find_condition :: "nat \<Rightarrow> NodeCondition list \<Rightarrow> string \<Rightarrow> int \<times> NodeCondition option" where
  "find_condition i [] t = (- 1, None)"
| "find_condition i (c # cs) t =
     (if condType c = t then (int i, Some c) else find_condition (i + 1) cs t)"

definition GetNodeCondition ::
  "NodeCondition list option \<Rightarrow> string \<Rightarrow> int \<times> NodeCondition option" where
  "GetNodeCondition status t =
     (case status of None \<Rightarrow> (- 1, None) | Some conds \<Rightarrow> find_condition 0 conds t)"

end
