(* ===== verification/GoUrl.thy ===== *)
theory GoUrl
  imports GoText
begin

text \<open>
  \<open>net/url.Parse\<close> as far as the repository uses it: whether a provider ID parses, and the
  path of the result. The steps are the library's: the fragment is cut off, control
  characters are refused, then scheme, query, authority and path are split and the path is
  unescaped. Whether a non-empty authority (user, host, port) is well formed is the
  parameter \<open>authority_ok\<close>: provider IDs have an empty one.
\<close>

subsection \<open>Percent escapes\<close>

fun unescape :: "string \<Rightarrow> string option" where
  "unescape [] = Some []"
| "unescape (c # cs) =
     (if c = CHR ''%'' then
        (case cs of a # b # rest \<Rightarrow>
           (case (hex_val a, hex_val b) of
              (Some x, Some y) \<Rightarrow> map_option ((#) (char_of (16 * x + y))) (unescape rest)
            | _ \<Rightarrow> None)
         | _ \<Rightarrow> None)
      else map_option ((#) c) (unescape cs))"

definition is_ctl :: "char \<Rightarrow> bool" where
  "is_ctl c = ((of_char c :: nat) < 32 \<or> (of_char c :: nat) = 127)"

definition is_letter :: "char \<Rightarrow> bool" where
  "is_letter c = (let v = of_char c :: nat in 97 \<le> v \<and> v \<le> 122 \<or> 65 \<le> v \<and> v \<le> 90)"

subsection \<open>The parts of a URL\<close>

text \<open>
  \<open>getScheme\<close>: the scheme (empty when there is none) and the rest; \<open>None\<close> is the error
  of a leading colon. \<open>seen\<close> holds the bytes already passed.
\<close>

fun getScheme_from :: "string \<Rightarrow> string \<Rightarrow> (string \<times> string) option" where
  "getScheme_from seen [] = Some ([], seen)"
| "getScheme_from seen (c # cs) =
     (if is_letter c then getScheme_from (seen @ [c]) cs
      else if is_digit c \<or> c = CHR ''+'' \<or> c = CHR ''-'' \<or> c = CHR ''.'' then
        (if seen = [] then Some ([], seen @ c # cs) else getScheme_from (seen @ [c]) cs)
      else if c = CHR '':'' then (if seen = [] then None else Some (seen, cs))
      else Some ([], seen @ c # cs))"

definition getScheme :: "string \<Rightarrow> (string \<times> string) option" where
  "getScheme s = getScheme_from [] s"

definition cut_at :: "char \<Rightarrow> string \<Rightarrow> string" where
  "cut_at sep s = (case Cut sep s of None \<Rightarrow> s | Some (a, b) \<Rightarrow> a)"

text \<open>
  The path of the URL with fragment removed. With a scheme and no leading slash the URL is
  opaque and has no path. The query is what follows the first question mark, also when it
  is empty.
\<close>

definition parse_path :: "(string \<Rightarrow> bool) \<Rightarrow> string \<Rightarrow> string option" where
  "parse_path authority_ok s =
     (if \<exists>c\<in>set s. is_ctl c then None
      else if s = ''*'' then Some ''*''
      else case getScheme s of None \<Rightarrow> None
        | Some (scheme, rest0) \<Rightarrow>
          (let rest = cut_at CHR ''?'' rest0 in
           if take 1 rest \<noteq> ''/'' \<and> scheme \<noteq> [] then Some []
           else if take 1 rest \<noteq> ''/'' \<and> CHR '':'' \<in> set (cut_at CHR ''/'' rest) then None
           else if (scheme \<noteq> [] \<or> take 3 rest \<noteq> ''///'') \<and> take 2 rest = ''//'' then
             (let auth = cut_at CHR ''/'' (drop 2 rest) in
              if auth \<noteq> [] \<and> \<not> authority_ok auth then None
              else unescape (drop (2 + length auth) rest))
           else unescape rest))"

definition url_Path :: "(string \<Rightarrow> bool) \<Rightarrow> string \<Rightarrow> string option" where
  "url_Path authority_ok s =
     (case Cut CHR ''#'' s of None \<Rightarrow> parse_path authority_ok s
      | Some (u, frag) \<Rightarrow>
        (case parse_path authority_ok u of None \<Rightarrow> None
         | Some p \<Rightarrow> (case unescape frag of None \<Rightarrow> None | Some _ \<Rightarrow> Some p)))"

subsection \<open>Provider IDs\<close>

text \<open>The bytes of zone and instance names: letters, digits and dashes.\<close>

definition plain :: "string \<Rightarrow> bool" where
  "plain s = list_all (\<lambda>c. is_letter c \<or> is_digit c \<or> c = CHR ''-'') s"

lemma plain_char:
  assumes "plain s" "c \<in> set s"
  shows "\<not> is_ctl c" "c \<noteq> CHR ''%''" "c \<noteq> CHR ''/''" "c \<noteq> CHR ''#''" "c \<noteq> CHR ''?''"
proof -
  have "is_letter c \<or> is_digit c \<or> c = CHR ''-''" using assms by (auto simp: plain_def list_all_iff)
  then show "\<not> is_ctl c" "c \<noteq> CHR ''%''" "c \<noteq> CHR ''/''" "c \<noteq> CHR ''#''" "c \<noteq> CHR ''?''"
    by (auto simp: is_letter_def is_digit_def is_ctl_def Let_def)
qed

lemma plain_no_sep:
  assumes "plain s"
  shows "CHR ''%'' \<notin> set s" "CHR ''/'' \<notin> set s" "CHR ''#'' \<notin> set s" "CHR ''?'' \<notin> set s"
  using plain_char [OF assms] by blast+

lemma unescape_id: "CHR ''%'' \<notin> set s \<Longrightarrow> unescape s = Some s"
  by (induction s) auto

text \<open>The path of a provider ID \<open>aws:///path\<close>, in particular of \<open>aws:///zone/instance\<close>.\<close>

lemma url_Path_aws_path:
  assumes "\<forall>c\<in>set p. \<not> is_ctl c \<and> c \<noteq> CHR ''#'' \<and> c \<noteq> CHR ''?'' \<and> c \<noteq> CHR ''%''"
  shows "url_Path ok (''aws:///'' @ p) = Some (''/'' @ p)"
proof -
  let ?s = "''aws:///'' @ p"
  have nz: "CHR ''#'' \<notin> set ?s" "CHR ''?'' \<notin> set ?s" "CHR ''%'' \<notin> set ?s" using assms by auto
  have ctl: "\<not> (\<exists>c\<in>set ?s. is_ctl c)" using assms by (auto simp: is_ctl_def)
  have sch: "getScheme ?s = Some (''aws'', ''///'' @ p)"
    by (simp add: getScheme_def is_letter_def is_digit_def)
  show ?thesis
    using ctl nz unfolding url_Path_def Cut_none [OF nz(1)] parse_path_def sch
    by (simp add: cut_at_def Cut_none unescape_id)
qed

lemma plain_path:
  "plain s \<Longrightarrow> \<forall>c\<in>set s. \<not> is_ctl c \<and> c \<noteq> CHR ''#'' \<and> c \<noteq> CHR ''?'' \<and> c \<noteq> CHR ''%''"
  using plain_char by blast

lemma url_Path_aws:
  assumes "plain z" "plain i"
  shows "url_Path ok (''aws:///'' @ z @ ''/'' @ i) = Some (''/'' @ z @ ''/'' @ i)"
  using plain_path [OF assms(1)] plain_path [OF assms(2)]
  by (intro url_Path_aws_path) (simp add: ball_Un, simp add: is_ctl_def)

lemma url_Path_aws_instance:
  assumes "plain i"
  shows "url_Path ok (''aws:///'' @ i) = Some (''/'' @ i)" "Split CHR ''/'' (''/'' @ i) = [[], i]"
  using url_Path_aws_path [OF plain_path [OF assms], of ok] plain_no_sep(2) [OF assms]
  by (simp_all add: Split_none)

lemma Split_provider_path:
  assumes "plain z" "plain i"
  shows "Split CHR ''/'' (''/'' @ z @ ''/'' @ i) = [[], z, i]"
  using plain_no_sep(2) [OF assms(1)] plain_no_sep(2) [OF assms(2)]
  by (simp add: Split_append Split_none)

end
