(* ===== verification/Allocator.thy ===== *)
theory Allocator
  imports NodeUtil GoUrl
begin

text \<open>
  \<open>pkg/ipam/cidr_allocator.go\<close>: the controller that gives every node a block of each cluster
  CIDR. This theory holds its state and operations; their properties are in
  \<open>AllocatorProps\<close>, the concurrent composition in \<open>Controller\<close>.

  An operation is a function of the allocator state, and of the state \<open>'w\<close> of the outside
  world when it calls the API server or EC2. The clients are the fields of the record
  \<open>api\<close>, none of which has a definition here.
\<close>

subsection \<open>The environment\<close>

text \<open>
  A network interface as far as \<open>fetchIPv6Address\<close> reads it, with the pointers of the AWS
  types as options. A request to EC2 is the list of its filters, a name and its values.
\<close>

record NetworkInterface =
  NetworkInterfaceId :: "string option"
  Ipv6Prefixes :: "string option list"

record 'w api =
  api_Get :: "string \<Rightarrow> 'w \<Rightarrow> (go_err + Node) \<times> 'w"
  api_List :: "'w \<Rightarrow> (go_err + Node list) \<times> 'w"
  api_Patch :: "'w patch_call"
  api_DescribeNetworkInterfaces ::
    "(string option \<times> string list) list \<Rightarrow> 'w \<Rightarrow> (go_err + NetworkInterface list) \<times> 'w"
  api_IsServerTimeout :: "go_err \<Rightarrow> bool"
  api_IsIPv6CIDR :: "IPNet \<Rightarrow> bool"
  api_authority_ok :: "string \<Rightarrow> bool"

subsection \<open>State\<close>

text \<open>\<open>Mode\<close> is a string type; the three constants:\<close>

definition IPv4 :: string where "IPv4 = ''ipv4''"
definition IPv6 :: string where "IPv6 = ''ipv6''"
definition DualStack :: string where "DualStack = ''dual-stack''"

text \<open>
  The field \<open>allocatedCIDRs\<close> of the source's \<open>NodeReservedCIDRs\<close> is named \<open>reservedCIDRs\<close> here,
  since the record of a set has a field of the first name.
\<close>

record NodeReservedCIDRs =
  reservedCIDRs :: "IPNet list"
  nodeName :: string

definition cidrUpdateWorkers :: nat where "cidrUpdateWorkers = 30"
definition CidrUpdateQueueSize :: nat where "CidrUpdateQueueSize = 5000"
definition cidrUpdateRetries :: nat where "cidrUpdateRetries = 3"

text \<open>
  \<open>cidrAllocator\<close>. The channel is the list of the items in it, oldest first; \<open>reconcileReady\<close>
  says that the channel of that name is closed; \<open>startCtx\<close> is nil or a context, of which the
  allocator reads only whether it is done. The event recorder and the metrics are kept as
  the lists of what was sent to them, \<open>workers\<close> counts the started worker goroutines.
\<close>

record cidrAllocator =
  clusterCIDRs :: "IPNet list"
  cidrSets :: "CidrSet list"
  nodeCIDRUpdateChannel :: "NodeReservedCIDRs list"
  recorder :: "Event list"
  nodesInProcessing :: "string set"
  mode :: string
  primaryIPFamily :: string
  tickPeriod :: int
  nodeCIDRMaskSizeIPv6 :: int
  reconcileReady :: bool
  startCtx :: "bool option"
  workers :: nat
  metricLog :: "metric list"

text \<open>An operation on \<open>c.cidrSets[idx]\<close>.\<close>

definition on_set ::
  "nat \<Rightarrow> (CidrSet \<Rightarrow> (cidr_error + 'a) \<times> CidrSet \<times> metric list) \<Rightarrow> cidrAllocator
    \<Rightarrow> (cidr_error + 'a) \<times> cidrAllocator" where
  "on_set idx f c =
     (if idx < length (cidrSets c) then
        (let (r, s, ms) = f (cidrSets c ! idx)
         in (r, c\<lparr>cidrSets := (cidrSets c)[idx := s], metricLog := metricLog c @ ms\<rparr>))
      else (Inl (CidrPanic IndexOutOfRange), c))"

subsection \<open>Construction\<close>

record CIDRAllocatorParams =
  ClusterCIDRs :: "IPNet list"
  NodeCIDRMaskSizes :: "int list"

text \<open>
  The loop over the cluster CIDRs, with the index into the mask sizes and the flag that the
  metrics are registered. An error of a set is returned as it is.
\<close>

fun newCidrSets :: "IPNet list \<Rightarrow> int list \<Rightarrow> bool \<Rightarrow> (cidr_error + CidrSet list) \<times> bool \<times> metric list" where
  "newCidrSets [] szs reg = (Inr [], reg, [])"
| "newCidrSets (cidr # cidrs) [] reg = (Inl (CidrPanic IndexOutOfRange), reg, [])"
| "newCidrSets (cidr # cidrs) (sz # szs) reg =
     (case NewCIDRSet cidr sz reg of
        (Inl e, reg', ms) \<Rightarrow> (Inl e, reg', ms)
      | (Inr s, reg', ms) \<Rightarrow>
        (case newCidrSets cidrs szs reg' of
           (Inl e, reg'', ms') \<Rightarrow> (Inl e, reg'', ms @ ms')
         | (Inr ss, reg'', ms') \<Rightarrow> (Inr (s # ss), reg'', ms @ ms')))"

text \<open>
  \<open>NewCIDRRangeAllocator\<close>: of the API server's client it reads only whether it is nil
  (\<open>client_nil\<close>). The broadcaster and recorder of events are the list \<open>recorder\<close>.
\<close>

definition NewCIDRRangeAllocator ::
  "bool \<Rightarrow> CIDRAllocatorParams \<Rightarrow> string \<Rightarrow> int \<Rightarrow> int \<Rightarrow> string \<Rightarrow> bool
    \<Rightarrow> (cidr_error + cidrAllocator) \<times> bool" where
  "NewCIDRRangeAllocator client_nil allocatorParams md tick maskSizeIPv6 family registered =
     (if client_nil
      then (Inl (CidrPanic (FatalExit ''kubeClient is nil when starting NodeController'')), registered)
      else case newCidrSets (ClusterCIDRs allocatorParams) (NodeCIDRMaskSizes allocatorParams) registered of
        (Inl e, reg, ms) \<Rightarrow> (Inl e, reg)
      | (Inr sets, reg, ms) \<Rightarrow>
        (Inr \<lparr>clusterCIDRs = ClusterCIDRs allocatorParams, cidrSets = sets, nodeCIDRUpdateChannel = [], recorder = [],
              nodesInProcessing = {}, mode = md, primaryIPFamily = family, tickPeriod = tick,
              nodeCIDRMaskSizeIPv6 = maskSizeIPv6, reconcileReady = False, startCtx = None,
              workers = 0, metricLog = ms\<rparr>, reg))"

subsection \<open>Nodes in processing\<close>

definition insertNodeToProcessing :: "string \<Rightarrow> cidrAllocator \<Rightarrow> bool \<times> cidrAllocator" where
  "insertNodeToProcessing n c =
     (if n \<in> nodesInProcessing c then (False, c)
      else (True, c\<lparr>nodesInProcessing := insert n (nodesInProcessing c)\<rparr>))"

definition removeNodeFromProcessing :: "string \<Rightarrow> cidrAllocator \<Rightarrow> cidrAllocator" where
  "removeNodeFromProcessing n c = c\<lparr>nodesInProcessing := nodesInProcessing c - {n}\<rparr>"

subsection \<open>Occupying the CIDRs of a node\<close>

text \<open>
  The loop of \<open>occupyCIDRsWithoutRemoval\<close>: \<open>idx\<close> counts the IPv4 CIDRs seen and indexes the
  sets; the check of it against their number is commented out in the source, so the index
  panics.
\<close>

fun occupyLoop :: "'w api \<Rightarrow> Node \<Rightarrow> nat \<Rightarrow> string list \<Rightarrow> cidrAllocator \<Rightarrow> (go_err + unit) \<times> cidrAllocator"
where
  "occupyLoop env node idx [] c = (Inr (), c)"
| "occupyLoop env node idx (cidr # cidrs) c =
     (case ParseCIDR cidr of
        None \<Rightarrow> (Inl (Errorf ''failed to parse node %s, CIDR %s'' [Name node, PodCIDR node]), c)
      | Some podCIDR \<Rightarrow>
        if api_IsIPv6CIDR env podCIDR then occupyLoop env node idx cidrs c
        else (case on_set idx (\<lambda>s. Occupy s (Some podCIDR)) c of
            (Inl e, c') \<Rightarrow>
              (Inl (lift_cidr ''failed to mark cidr[%v] at idx [%v] as occupied for node: %v: %v''
                 [IPNet_String podCIDR, Itoa idx, Name node] e), c')
          | (Inr _, c') \<Rightarrow> occupyLoop env node (idx + 1) cidrs c'))"

definition occupyCIDRsWithoutRemoval ::
  "'w api \<Rightarrow> Node \<Rightarrow> cidrAllocator \<Rightarrow> (go_err + unit) \<times> cidrAllocator" where
  "occupyCIDRsWithoutRemoval env node c =
     (if PodCIDRs node = [] then (Inr (), c) else occupyLoop env node 0 (PodCIDRs node) c)"

definition occupyCIDRs :: "'w api \<Rightarrow> Node \<Rightarrow> cidrAllocator \<Rightarrow> (go_err + unit) \<times> cidrAllocator" where
  "occupyCIDRs env node c =
     (let (r, c') = occupyCIDRsWithoutRemoval env node c
      in (r, removeNodeFromProcessing (Name node) c'))"

subsection \<open>Allocation for a node\<close>

text \<open>
  A call ends, or it waits: for the reconciliation of the state, or for room in the channel.
  A waiting call holds no lock; what it does when it goes on is \<open>allocateAfterWait\<close> and
  \<open>queueAfterWait\<close>.
\<close>

datatype alloc_outcome =
    Returned "go_err + unit"
  | WaitReconcile
  | WaitChannel NodeReservedCIDRs

text \<open>One block of every set, in order; a failure leaves the blocks of the sets before it taken.\<close>

fun allocateLoop :: "nat \<Rightarrow> nat \<Rightarrow> cidrAllocator \<Rightarrow> (nat \<times> cidr_error + IPNet list) \<times> cidrAllocator" where
  "allocateLoop idx 0 c = (Inr [], c)"
| "allocateLoop idx (Suc k) c =
     (case on_set idx AllocateNext c of
        (Inl e, c') \<Rightarrow> (Inl (idx, e), c')
      | (Inr podCIDR, c') \<Rightarrow>
        (case allocateLoop (idx + 1) k c' of
           (Inl e, c'') \<Rightarrow> (Inl e, c'')
         | (Inr cidrs, c'') \<Rightarrow> (Inr (podCIDR # cidrs), c'')))"

definition queueAfterWait :: "NodeReservedCIDRs \<Rightarrow> cidrAllocator \<Rightarrow> alloc_outcome \<times> cidrAllocator" where
  "queueAfterWait item c =
     (if length (nodeCIDRUpdateChannel c) < CidrUpdateQueueSize
      then (Returned (Inr ()), c\<lparr>nodeCIDRUpdateChannel := nodeCIDRUpdateChannel c @ [item]\<rparr>)
      else (WaitChannel item, c))"

definition allocateAndQueue :: "Node \<Rightarrow> cidrAllocator \<Rightarrow> alloc_outcome \<times> cidrAllocator" where
  "allocateAndQueue node c =
     (case allocateLoop 0 (length (cidrSets c)) c of
        (Inl (idx, CidrPanic p), c') \<Rightarrow> (Returned (Inl (GoPanic p)), c')
      | (Inl (idx, e), c') \<Rightarrow>
        (let c1 = removeNodeFromProcessing (Name node) c'
         in (Returned (Inl (lift_cidr ''failed to allocate cidr from cluster cidr at idx:%v: %v''
               [Itoa idx] e)),
             c1\<lparr>recorder := RecordNodeStatusChange (recorder c1) node ''CIDRNotAvailable''\<rparr>))
      | (Inr cidrs, c') \<Rightarrow>
        queueAfterWait \<lparr>reservedCIDRs = cidrs, nodeName = Name node\<rparr> c')"

text \<open>
  The wait for \<open>reconcileReady\<close>. With a context the \<open>select\<close> takes either ready case when
  both are; \<open>prefer_done\<close> is that choice.
\<close>

definition context_Canceled :: go_err where
  "context_Canceled = ErrorString ''context canceled''"

definition allocateAfterWait :: "bool \<Rightarrow> Node \<Rightarrow> cidrAllocator \<Rightarrow> alloc_outcome \<times> cidrAllocator" where
  "allocateAfterWait prefer_done node c =
     (let cancelled = (startCtx c = Some True) in
      if cancelled \<and> (prefer_done \<or> \<not> reconcileReady c)
      then (Returned (Inl context_Canceled), removeNodeFromProcessing (Name node) c)
      else if reconcileReady c then allocateAndQueue node c
      else (WaitReconcile, c))"

text \<open>
  A call that came before \<open>Start\<close> saw no context and waits on \<open>reconcileReady\<close> alone.
\<close>

definition allocateAfterWaitNoCtx :: "Node \<Rightarrow> cidrAllocator \<Rightarrow> alloc_outcome \<times> cidrAllocator" where
  "allocateAfterWaitNoCtx node c =
     (if reconcileReady c then allocateAndQueue node c else (WaitReconcile, c))"

definition AllocateOrOccupyCIDR ::
  "'w api \<Rightarrow> bool \<Rightarrow> Node option \<Rightarrow> cidrAllocator \<Rightarrow> alloc_outcome \<times> cidrAllocator" where
  "AllocateOrOccupyCIDR env prefer_done node_ptr c =
     (case node_ptr of None \<Rightarrow> (Returned (Inr ()), c)
      | Some node \<Rightarrow>
        (case insertNodeToProcessing (Name node) c of
           (False, c1) \<Rightarrow> (Returned (Inr ()), c1)
         | (True, c1) \<Rightarrow>
           if 0 < length (PodCIDRs node) then
             (let (r, c2) = occupyCIDRs env node c1 in (Returned r, c2))
           else if startCtx c1 \<noteq> None then allocateAfterWait prefer_done node c1
           else allocateAfterWaitNoCtx node c1))"

subsection \<open>Release of the CIDRs of a node\<close>

fun releaseLoop :: "'w api \<Rightarrow> Node \<Rightarrow> nat \<Rightarrow> string list \<Rightarrow> cidrAllocator \<Rightarrow> (go_err + unit) \<times> cidrAllocator"
where
  "releaseLoop env node idx [] c = (Inr (), c)"
| "releaseLoop env node idx (cidr # cidrs) c =
     (case ParseCIDR cidr of
        None \<Rightarrow> (Inl (ErrorfV ''failed to parse CIDR %s on Node %v: %v'' [cidr, Name node]
                   (ErrorString (''invalid CIDR address: '' @ cidr))), c)
      | Some podCIDR \<Rightarrow>
        if api_IsIPv6CIDR env podCIDR then releaseLoop env node idx cidrs c
        else (case on_set idx (\<lambda>s. Release s (Some podCIDR)) c of
            (Inl e, c') \<Rightarrow> (Inl (lift_cidr ''error when releasing CIDR %v: %v'' [cidr] e), c')
          | (Inr _, c') \<Rightarrow> releaseLoop env node (idx + 1) cidrs c'))"

definition ReleaseCIDR :: "'w api \<Rightarrow> Node option \<Rightarrow> cidrAllocator \<Rightarrow> (go_err + unit) \<times> cidrAllocator" where
  "ReleaseCIDR env node_ptr c =
     (case node_ptr of None \<Rightarrow> (Inr (), c)
      | Some node \<Rightarrow> if PodCIDRs node = [] then (Inr (), c)
          else releaseLoop env node 0 (PodCIDRs node) c)"

subsection \<open>The text of CIDRs\<close>

definition cidrsAsString :: "IPNet list \<Rightarrow> string list" where
  "cidrsAsString inCIDRs = map IPNet_String inCIDRs"

text \<open>\<open>split[1]\<close> of an address without a slash panics.\<close>

definition changeNetmask :: "string \<Rightarrow> string \<Rightarrow> go_panic + string" where
  "changeNetmask ipAddress newNetmask =
     (case Split CHR ''/'' ipAddress of
        addr # old # _ \<Rightarrow>
          (case Atoi old of None \<Rightarrow> Inr ipAddress
           | Some oldMask \<Rightarrow> (case Atoi newNetmask of None \<Rightarrow> Inr ipAddress
             | Some newMask \<Rightarrow>
               if oldMask < newMask then Inr (addr @ ''/'' @ newNetmask) else Inr ipAddress))
      | _ \<Rightarrow> Inl IndexOutOfRange)"

subsection \<open>The IPv6 prefix of a node\<close>

text \<open>
  \<open>aws.ToString\<close> of nil is the empty string; the message about the prefixes dereferences the
  pointer to the interface ID.
\<close>

definition fetchIPv6Address :: "'w api \<Rightarrow> Node \<Rightarrow> 'w \<Rightarrow> (go_err + string) \<times> 'w" where
  "fetchIPv6Address env node w =
     (if ProviderID node = [] then (Inl (Errorf ''node %q has empty provider ID'' [Name node]), w)
      else case url_Path (api_authority_ok env) (ProviderID node) of
          None \<Rightarrow> (Inl (Errorf ''could not parse provider URL for Node %q'' [Name node]), w)
        | Some path \<Rightarrow>
          (case Split CHR ''/'' path of
             _ # _ # instanceID # _ \<Rightarrow>
               (case api_DescribeNetworkInterfaces env
                       [(PtrTo ''attachment.instance-id'', [instanceID])] w of
                  (Inl e, w') \<Rightarrow> (Inl e, w')
                | (Inr [eni], w') \<Rightarrow>
                  (case Ipv6Prefixes eni of
                     [p] \<Rightarrow> (Inr (case p of None \<Rightarrow> [] | Some t \<Rightarrow> t), w')
                   | ps \<Rightarrow> (case NetworkInterfaceId eni of
                       None \<Rightarrow> (Inl (GoPanic NilDereference), w')
                     | Some i \<Rightarrow>
                       (Inl (Errorf ''unexpected amount of ipv6 prefixes on interface %q: %v''
                          [i, Itoa (length ps)]), w')))
                | (Inr enis, w') \<Rightarrow>
                  (Inl (Errorf ''unexpected number of network interfaces for instance %q: %v''
                     [instanceID, Itoa (length enis)]), w'))
           | _ \<Rightarrow> (Inl (GoPanic IndexOutOfRange), w)))"

subsection \<open>The update of a node\<close>

text \<open>
  Giving reserved blocks back: an error of a set is logged and the loop goes on, a panic
  ends it.
\<close>

fun releaseReserved :: "nat \<Rightarrow> IPNet list \<Rightarrow> cidrAllocator \<Rightarrow> (go_panic + unit) \<times> cidrAllocator" where
  "releaseReserved idx [] c = (Inr (), c)"
| "releaseReserved idx (cidr # cidrs) c =
     (case on_set idx (\<lambda>s. Release s (Some cidr)) c of
        (Inl (CidrPanic p), c') \<Rightarrow> (Inl p, c')
      | (_, c') \<Rightarrow> releaseReserved (idx + 1) cidrs c')"

text \<open>
  The switch on the mode: the CIDRs to write into the node. A mode that is none of the three
  constants takes no case.
\<close>

definition nodeCIDRs :: "'w api \<Rightarrow> Node \<Rightarrow> string list \<Rightarrow> cidrAllocator \<Rightarrow> 'w \<Rightarrow> (go_err + string list) \<times> 'w"
where
  "nodeCIDRs env node cidrsString c w =
     (if mode c = DualStack \<or> mode c = IPv6 then
        (case fetchIPv6Address env node w of
           (Inl e, w') \<Rightarrow> (Inl e, w')
         | (Inr ipv6Address, w') \<Rightarrow>
           (case changeNetmask ipv6Address (fmt_int (nodeCIDRMaskSizeIPv6 c)) of
              Inl p \<Rightarrow> (Inl (GoPanic p), w')
            | Inr a \<Rightarrow> (Inr (if mode c = DualStack then cidrsString @ [a] else [a]), w')))
      else (Inr cidrsString, w))"

text \<open>
  The attempts to patch the node: at most \<open>n\<close>, the first success ends the loop. The patched
  slice is sorted in place, so the next attempt starts from the sorted one. The result is
  the error of the last attempt.
\<close>

fun patchLoop ::
  "'w api \<Rightarrow> Node \<Rightarrow> cidrAllocator \<Rightarrow> nat \<Rightarrow> go_err option \<Rightarrow> string list \<Rightarrow> 'w
    \<Rightarrow> go_err option \<times> 'w" where
  "patchLoop env node c 0 err cidrs w = (err, w)"
| "patchLoop env node c (Suc n) err cidrs w =
     (case PatchNodePodCIDRs (api_Patch env) w node cidrs (mode c) (primaryIPFamily c) of
        (Inr _, w', cidrs') \<Rightarrow> (None, w')
      | (Inl (GoPanic p), w', cidrs') \<Rightarrow> (Some (GoPanic p), w')
      | (Inl e, w', cidrs') \<Rightarrow> patchLoop env node c n (Some e) cidrs' w')"

text \<open>What follows the last failed attempt: the event, and the release of the reservation.\<close>

definition giveUp :: "'w api \<Rightarrow> Node \<Rightarrow> NodeReservedCIDRs \<Rightarrow> go_err \<Rightarrow> cidrAllocator \<Rightarrow> (go_err + unit) \<times> cidrAllocator"
where
  "giveUp env node item err c =
     (let c1 = c\<lparr>recorder := RecordNodeStatusChange (recorder c) node ''CIDRAssignmentFailed''\<rparr>
      in if \<not> api_IsServerTimeout env err then
           (case releaseReserved 0 (reservedCIDRs item) c1 of
              (Inl p, c2) \<Rightarrow> (Inl (GoPanic p), c2)
            | (Inr _, c2) \<Rightarrow> (Inl err, c2))
         else (Inl err, c1))"

text \<open>The update once the node is read.\<close>

definition updateNode ::
  "'w api \<Rightarrow> NodeReservedCIDRs \<Rightarrow> Node \<Rightarrow> cidrAllocator \<Rightarrow> 'w \<Rightarrow> (go_err + unit) \<times> cidrAllocator \<times> 'w"
where
  "updateNode env item node c w =
     (let cidrsString = cidrsAsString (reservedCIDRs item) in
      if PodCIDRs node = cidrsString
      then (Inr (), removeNodeFromProcessing (nodeName item) c, w)
      else if PodCIDRs node \<noteq> [] then
        (case releaseReserved 0 (reservedCIDRs item) c of
           (Inl p, c') \<Rightarrow> (Inl (GoPanic p), c', w)
         | (Inr _, c') \<Rightarrow> (Inr (), removeNodeFromProcessing (nodeName item) c', w))
      else
        (case nodeCIDRs env node cidrsString c w of
           (Inl e, w') \<Rightarrow> (Inl e, c, w')
         | (Inr cidrs, w') \<Rightarrow>
           (case patchLoop env node c cidrUpdateRetries None cidrs w' of
              (None, w'') \<Rightarrow> (Inr (), removeNodeFromProcessing (nodeName item) c, w'')
            | (Some (GoPanic p), w'') \<Rightarrow> (Inl (GoPanic p), c, w'')
            | (Some e, w'') \<Rightarrow> (let (r, c') = giveUp env node item e c in (r, c', w'')))))"

definition updateCIDRsAllocation ::
  "'w api \<Rightarrow> NodeReservedCIDRs \<Rightarrow> cidrAllocator \<Rightarrow> 'w \<Rightarrow> (go_err + unit) \<times> cidrAllocator \<times> 'w"
where
  "updateCIDRsAllocation env item c w =
     (if tickPeriod c \<le> 0 then (Inl (GoPanic NonPositiveTicker), c, w)
      else case api_Get env (nodeName item) w of
          (Inl e, w') \<Rightarrow> (Inl e, c, w')
        | (Inr node, w') \<Rightarrow> updateNode env item node c w')"

subsection \<open>Workers\<close>

text \<open>
  One round of a worker: it takes the oldest item, and puts it back at the end when the update
  failed. \<open>WorkerWaits\<close> is the worker blocked on the full channel with the item in hand.
\<close>

datatype worker_outcome =
    Idle
  | Handled
  | Requeued go_err
  | WorkerWaits NodeReservedCIDRs
  | Crashed go_panic

definition worker_round :: "'w api \<Rightarrow> cidrAllocator \<Rightarrow> 'w \<Rightarrow> worker_outcome \<times> cidrAllocator \<times> 'w" where
  "worker_round env c w =
     (case nodeCIDRUpdateChannel c of [] \<Rightarrow> (Idle, c, w)
      | workItem # rest \<Rightarrow>
        (case updateCIDRsAllocation env workItem (c\<lparr>nodeCIDRUpdateChannel := rest\<rparr>) w of
           (Inr _, c', w') \<Rightarrow> (Handled, c', w')
         | (Inl (GoPanic p), c', w') \<Rightarrow> (Crashed p, c', w')
         | (Inl e, c', w') \<Rightarrow>
           (case queueAfterWait workItem c' of
              (Returned _, c'') \<Rightarrow> (Requeued e, c'', w')
            | (_, c'') \<Rightarrow> (WorkerWaits workItem, c'', w'))))"

subsection \<open>Start\<close>

fun reconcileLoop :: "'w api \<Rightarrow> Node list \<Rightarrow> cidrAllocator \<Rightarrow> (go_err + unit) \<times> cidrAllocator" where
  "reconcileLoop env [] c = (Inr (), c)"
| "reconcileLoop env (node # nodes) c =
     (if PodCIDRs node = [] then reconcileLoop env nodes c
      else (case occupyCIDRsWithoutRemoval env node c of
          (Inl (GoPanic p), c') \<Rightarrow> (Inl (GoPanic p), c')
        | (Inl e, c') \<Rightarrow>
            (Inl (ErrorfW ''failed to occupy CIDR for node %s during reconciliation: %w''
               [Name node] e), c')
        | (Inr _, c') \<Rightarrow> reconcileLoop env nodes c'))"

definition reconcileState :: "'w api \<Rightarrow> cidrAllocator \<Rightarrow> 'w \<Rightarrow> (go_err + unit) \<times> cidrAllocator \<times> 'w" where
  "reconcileState env c w =
     (case api_List env w of
        (Inl e, w') \<Rightarrow>
          (Inl (ErrorfW ''error listing nodes during state reconciliation: %w'' [] e), c, w')
      | (Inr nodes, w') \<Rightarrow> (let (r, c') = reconcileLoop env nodes c in (r, c', w')))"

text \<open>
  \<open>Start\<close> up to its wait for the end of the context: \<open>synced\<close> is the answer of
  \<open>WaitForNamedCacheSync\<close>. Closing \<open>reconcileReady\<close> a second time panics.
\<close>

definition Start :: "'w api \<Rightarrow> bool \<Rightarrow> cidrAllocator \<Rightarrow> 'w \<Rightarrow> (go_err + unit) \<times> cidrAllocator \<times> 'w" where
  "Start env synced c0 w =
     (let c = c0\<lparr>startCtx := Some False\<rparr> in
      if \<not> synced then (Inl (ErrorString ''failed to sync node cache''), c, w)
      else case reconcileState env c w of
          (Inl (GoPanic p), c', w') \<Rightarrow> (Inl (GoPanic p), c', w')
        | (Inl e, c', w') \<Rightarrow> (Inl (ErrorfW ''failed to reconcile CIDR state: %w'' [] e), c', w')
        | (Inr _, c', w') \<Rightarrow>
          if reconcileReady c' then (Inl (GoPanic CloseOfClosedChannel), c', w')
          else (Inr (), c'\<lparr>reconcileReady := True, workers := workers c' + cidrUpdateWorkers\<rparr>, w'))"

definition ReadyChecker :: "cidrAllocator \<Rightarrow> go_err option" where "ReadyChecker c = None"
definition HealthzChecker :: "cidrAllocator \<Rightarrow> go_err option" where "HealthzChecker c = None"
definition NeedLeaderElection :: "cidrAllocator \<Rightarrow> bool" where "NeedLeaderElection c = True"

end
