(* ===== verification/CidrPool.thy ===== *)
theory CidrPool
  imports CidrOps "HOL-Library.Multiset"
begin

text \<open>
  The contract of a CIDR set towards the allocator, as the interfaces \<open>cell_space\<close>,
  \<open>cell_pool\<close> and \<open>cidr_pool\<close>, each extending the one before: a pool of numbered cells, of
  which an operation takes or gives back those a network covers. What the allocator needs
  (fresh blocks are disjoint from held ones, giving back restores the pool, ownership of
  pairwise disjoint holdings is kept) is proved once inside the locales. The
  interpretations \<open>cs\<close> discharge the contract for the operations of \<open>CidrSet\<close>.
\<close>

subsection \<open>Every operation keeps the invariant, on every argument\<close>

lemma getIndexForIP_bounds:
  assumes wf: "wf_params s l m n" and r: "getIndexForIP s ip = Inr i"
  shows "0 \<le> i \<and> i < maxCIDRs s"
proof -
  have small: "(2::nat) ^ (n - m) \<le> 2 ^ 31"
    using wf_paramsD(5) [OF wf] by (intro power_increasing) simp_all
  have mx: "maxCIDRs s = int (2 ^ (n - m))" using wf_paramsD(8) [OF wf] by simp
  then have mx0: "0 \<le> maxCIDRs s" "maxCIDRs s < 2 ^ 32" "maxCIDRs s < 2 ^ 64" "maxCIDRs s \<le> 2 ^ 31"
    using small unfolding mx by (simp_all del: of_nat_power)
  have m32: "uint (word_of_int (maxCIDRs s) :: 32 word) = maxCIDRs s"
    and m64: "uint (word_of_int (maxCIDRs s) :: 64 word) = maxCIDRs s"
    using mx0 by (simp_all add: unsigned_of_int take_bit_int_eq_self)
  show ?thesis
  proof (cases "to4 ip \<noteq> []")
    case True
    then show ?thesis
      using r m32 by (auto simp: getIndexForIP_def Let_def word_le_def split: sum.splits if_splits)
  next
    case False
    then obtain w :: "64 word" where w: "i = sint w" "\<not> word_of_int (maxCIDRs s) \<le> w"
      using r by (auto simp: getIndexForIP_def Let_def split: if_splits)
    then have "uint w < maxCIDRs s" using m64 by (simp add: word_le_def)
    then have "uint w < 2 ^ 63" using mx0(4) by simp
    then have "signed_take_bit 63 (uint w) = uint w"
      using uint_nonnegative [of w] by (intro signed_take_bit_int_eq_self) linarith+
    then have "sint w = uint w" by (simp add: sint_uint)
    then show ?thesis using w \<open>uint w < maxCIDRs s\<close> by simp
  qed
qed

lemma getBeginingAndEndIndices_bounds:
  assumes "cset_wf s" "getBeginingAndEndIndices s c = Inr (b, e)"
  shows "0 \<le> b \<and> 0 \<le> e \<and> b < maxCIDRs s \<and> e < maxCIDRs s"
proof -
  obtain l m n where wf: "wf_params s l m n" using assms(1) by (rule cset_wf_params)
  have "0 < maxCIDRs s" using wf_paramsD(8) [OF wf] by simp
  then show ?thesis
    using assms(2) getIndexForIP_bounds [OF wf]
    by (auto simp: getBeginingAndEndIndices_def getIndexForCIDR_def Let_def
        split: option.splits prod.splits if_splits sum.splits)
qed

lemma index_range_bounded: "0 \<le> e \<Longrightarrow> e < mx \<Longrightarrow> index_range b e \<subseteq> {..< nat mx}"
  by (auto simp: index_range_def)

text \<open>
  Any call of \<open>Occupy\<close> or \<open>Release\<close> on a set with the invariant, also with a network of the
  other family, out of range, or IPv4-mapped: the invariant holds after it.
\<close>

lemma Occupy_any:
  assumes inv: "cset_inv s" and r: "Occupy s c = (r, s', ms)"
  shows "cset_inv s' \<and> same_config s s' \<and> nextCandidate s' = nextCandidate s
    \<and> used_set s \<subseteq> used_set s'"
proof (cases "getBeginingAndEndIndices s c")
  case (Inl e)
  then show ?thesis using assms by (auto simp: Occupy_def)
next
  case (Inr be)
  obtain b e where be: "be = (b, e)" by (cases be)
  have wf: "cset_wf s" using inv by (simp add: cset_inv_def)
  note bd = getBeginingAndEndIndices_bounds [OF wf Inr [unfolded be]]
  obtain t where t: "occupyRange b e s = (t, replicate (card (index_range b e - used_set s))
        (AllocationsInc (label s)))" "same_config s t" "nextCandidate t = nextCandidate s"
      "used_set t = used_set s \<union> index_range b e"
      "allocatedCIDRs t = allocatedCIDRs s + int (card (index_range b e - used_set s))"
    using occupyRange_spec [of b e s] bd by blast
  have "s' = t" using r t(1) Inr be by (simp add: Occupy_def)
  moreover have "card (used_set s \<union> index_range b e)
      = card (used_set s) + card (index_range b e - used_set s)"
    using card_Un_disjoint [of "used_set s" "index_range b e - used_set s"] by (simp add: finite_used)
  ultimately show ?thesis
    using inv t(2-5) bd index_range_bounded [of e "maxCIDRs s" b]
    by (auto simp: cset_inv_def same_config_eqs(2) [OF t(2)] same_configD(5) [OF t(2)])
qed

lemma Release_any:
  assumes inv: "cset_inv s" and r: "Release s c = (r, s', ms)"
  shows "cset_inv s' \<and> same_config s s' \<and> nextCandidate s' = nextCandidate s
    \<and> used_set s' \<subseteq> used_set s"
proof (cases "getBeginingAndEndIndices s c")
  case (Inl e)
  then show ?thesis using assms by (auto simp: Release_def)
next
  case (Inr be)
  obtain b e where be: "be = (b, e)" by (cases be)
  have wf: "cset_wf s" using inv by (simp add: cset_inv_def)
  note bd = getBeginingAndEndIndices_bounds [OF wf Inr [unfolded be]]
  obtain t where t: "releaseRange b e s = (t, replicate (card (index_range b e \<inter> used_set s))
        (ReleasesInc (label s)))" "same_config s t" "nextCandidate t = nextCandidate s"
      "used_set t = used_set s - index_range b e"
      "allocatedCIDRs t = allocatedCIDRs s - int (card (index_range b e \<inter> used_set s))"
    using releaseRange_spec [of b e s] bd by blast
  have "s' = t" using r t(1) Inr be by (simp add: Release_def)
  moreover have "card (used_set s - index_range b e) + card (index_range b e \<inter> used_set s)
      = card (used_set s)"
    by (subst card_Un_disjoint [symmetric]) (auto simp: finite_used intro: arg_cong [of _ _ card])
  ultimately show ?thesis
    using inv t(2-5)
    by (auto simp: cset_inv_def same_config_eqs(2) [OF t(2)] same_configD(5) [OF t(2)])
qed

lemma AllocateNext_any:
  assumes inv: "cset_inv s" and r: "AllocateNext s = (r, s', ms)"
  shows "cset_inv s' \<and> same_config s s' \<and> used_set s \<subseteq> used_set s'"
  using inv
proof (cases rule: AllocateNext_cases)
  case full
  then show ?thesis using inv r by simp
next
  case (fresh k i t ms')
  then show ?thesis using r by (auto simp: allocated_by_def)
qed

text \<open>No operation panics on a canonical network.\<close>

lemma Occupy_canon_cases:
  assumes inv: "cset_inv s" and k: "canon l k cidr"
  obtains (ok) s' ms where "Occupy s (Some cidr) = (Inr (), s', ms)" "in_range s cidr"
      "occupied_by s cidr s'" "cset_inv s'"
    | (out) "Occupy s (Some cidr) = (Inl (ErrOutOfClusterRange cidr (clusterCIDR s)), s, [])"
      "\<not> in_range s cidr"
proof (cases "in_range s cidr")
  case True
  then have "canon (length (IP (clusterCIDR s))) k cidr"
    using k canonD(1) [OF k] by (simp add: in_range_def)
  then show thesis
    using Occupy_in [OF _ _ True] inv occupied_by_inv ok True cset_inv_def by metis
next
  case False
  obtain l m n where "wf_params s l m n" using inv cset_wf_params cset_inv_def by metis
  then show thesis
    using getBeginingAndEndIndices_out [OF _ k False] False out by (simp add: Occupy_def)
qed

lemma Release_canon_cases:
  assumes inv: "cset_inv s" and k: "canon l k cidr"
  obtains (ok) s' ms where "Release s (Some cidr) = (Inr (), s', ms)" "in_range s cidr"
      "released_by s cidr s'" "cset_inv s'"
    | (out) "Release s (Some cidr) = (Inl (ErrOutOfClusterRange cidr (clusterCIDR s)), s, [])"
      "\<not> in_range s cidr"
proof (cases "in_range s cidr")
  case True
  then have "canon (length (IP (clusterCIDR s))) k cidr"
    using k canonD(1) [OF k] by (simp add: in_range_def)
  then show thesis
    using Release_in [OF _ _ True] inv released_by_inv ok True cset_inv_def by metis
next
  case False
  obtain l m n where "wf_params s l m n" using inv cset_wf_params cset_inv_def by metis
  then show thesis
    using getBeginingAndEndIndices_out [OF _ k False] False out by (simp add: Release_def)
qed

subsection \<open>The cell of a block\<close>

lemma touched_block:
  assumes wf: "wf_params s l m n" and i: "0 \<le> i" "i < maxCIDRs s"
  shows "touched s (indexToCIDRBlock s i) = {nat i}"
proof -
  have "net_addrs (indexToCIDRBlock s (int j)) \<inter> net_addrs (indexToCIDRBlock s i) \<noteq> {} \<longleftrightarrow> int j = i"
    if j: "j < nat (maxCIDRs s)" for j
  proof -
    have j': "0 \<le> int j" "int j < maxCIDRs s" using j by linarith+
    show ?thesis
    proof (cases "int j = i")
      case True
      then show ?thesis using net_first_in [of "indexToCIDRBlock s i"] by (metis Int_absorb empty_iff)
    next
      case False
      then have "j \<noteq> nat i" using i by auto
      then show ?thesis
        using in_block_iff [OF wf j'] in_block_iff [OF wf i] block_subset_cluster [OF wf i] False
        by (auto simp: disjoint_iff)
    qed
  qed
  then have "j < nat (maxCIDRs s)
      \<and> net_addrs (indexToCIDRBlock s (int j)) \<inter> net_addrs (indexToCIDRBlock s i) \<noteq> {}
      \<longleftrightarrow> j < nat (maxCIDRs s) \<and> int j = i" for j
    by (rule conj_cong [OF refl])
  then have "touched s (indexToCIDRBlock s i) = {j. j < nat (maxCIDRs s) \<and> int j = i}"
    unfolding touched_def by (rule Collect_cong)
  moreover have "j < nat (maxCIDRs s) \<and> int j = i \<longleftrightarrow> j = nat i" for j
    using i by linarith
  ultimately show ?thesis by simp
qed

lemma block_in_range:
  assumes wf: "wf_params s l m n" and i: "0 \<le> i" "i < maxCIDRs s"
  shows "in_range s (indexToCIDRBlock s i)"
  using in_range_iff_meets [OF wf block_canon [OF wf i]] block_subset_cluster [OF wf i]
    net_first_in [of "indexToCIDRBlock s i"] by blast

subsection \<open>The interface\<close>

text \<open>
  A pool \<open>'p\<close> has \<open>capacity\<close> cells, of which \<open>used_cells\<close> are in use; \<open>cells p n\<close> are the cells the
  network \<open>n\<close> covers and \<open>same\<close> relates states of one pool.
\<close>

locale cell_space =
  fixes inv :: "'p \<Rightarrow> bool" and same :: "'p \<Rightarrow> 'p \<Rightarrow> bool"
    and used_cells :: "'p \<Rightarrow> nat set" and capacity :: "'p \<Rightarrow> nat"
    and cells :: "'p \<Rightarrow> 'n \<Rightarrow> nat set" and valid :: "'n \<Rightarrow> bool"
  assumes used_bounded: "inv p \<Longrightarrow> used_cells p \<subseteq> {..< capacity p}"
    and same_refl: "same p p"
    and same_trans: "same p q \<Longrightarrow> same q r \<Longrightarrow> same p r"
    and same_cells: "same p q \<Longrightarrow> cells q n = cells p n"
    and same_capacity: "same p q \<Longrightarrow> capacity q = capacity p"
begin

text \<open>
  Ownership: the holdings \<open>H\<close>, a multiset of networks, each cover some cells, all in use, and
  no cell is covered twice. Any operation that keeps the cells of the others in use keeps
  them held.
\<close>

definition holds :: "'p \<Rightarrow> 'n multiset \<Rightarrow> bool" where
  "holds p H \<longleftrightarrow> inv p \<and> (\<forall>h\<in>#H. valid h \<and> cells p h \<noteq> {} \<and> cells p h \<subseteq> used_cells p)
     \<and> (\<forall>y. size (filter_mset (\<lambda>h. y \<in> cells p h) H) \<le> 1)"

lemma holds_empty: "inv p \<Longrightarrow> holds p {#}"
  by (simp add: holds_def)

lemma holds_inv: "holds p H \<Longrightarrow> inv p"
  by (simp add: holds_def)

lemma holds_mono:
  assumes "holds p H" "K \<subseteq># H"
  shows "holds p K"
proof -
  have "size (filter_mset P K) \<le> size (filter_mset P H)" for P
    by (intro size_mset_mono multiset_filter_mono assms(2))
  then show ?thesis
    using assms mset_subset_eqD [OF assms(2)] unfolding holds_def by (meson le_trans)
qed

text \<open>Two holdings of one pool are disjoint.\<close>

lemma holds_disjoint:
  assumes h: "holds p (add_mset a (add_mset b H))"
  shows "cells p a \<inter> cells p b = {}"
proof (rule ccontr)
  assume "cells p a \<inter> cells p b \<noteq> {}"
  then obtain y where "y \<in> cells p a" "y \<in> cells p b" by blast
  then have "2 \<le> size (filter_mset (\<lambda>h. y \<in> cells p h) (add_mset a (add_mset b H)))" by simp
  moreover have "size (filter_mset (\<lambda>h. y \<in> cells p h) (add_mset a (add_mset b H))) \<le> 1"
    using h unfolding holds_def by blast
  ultimately show False by linarith
qed

lemma holds_disjoint_member:
  "holds p (add_mset a H) \<Longrightarrow> b \<in># H \<Longrightarrow> cells p a \<inter> cells p b = {}"
  using holds_disjoint [of p a b] by (metis insert_DiffM)

lemma holds_used:
  assumes h: "holds p H" and q: "inv q" "same p q"
    and u: "\<And>x. x \<in># H \<Longrightarrow> cells p x \<subseteq> used_cells q"
  shows "holds q H"
  using h q u by (simp add: holds_def same_cells [OF q(2)])

lemma holds_grow:
  "holds p H \<Longrightarrow> inv q \<Longrightarrow> same p q \<Longrightarrow> used_cells p \<subseteq> used_cells q \<Longrightarrow> holds q H"
  by (rule holds_used) (auto simp: holds_def)

lemma holds_add:
  assumes h: "holds p H" and n: "valid n" "cells p n \<noteq> {}" "cells p n \<subseteq> used_cells p"
    and d: "\<And>x. x \<in># H \<Longrightarrow> cells p n \<inter> cells p x = {}"
  shows "holds p (add_mset n H)"
proof -
  have "size (filter_mset (\<lambda>h. y \<in> cells p h) (add_mset n H)) \<le> 1" for y
  proof (cases "y \<in> cells p n")
    case True
    then have "filter_mset (\<lambda>h. y \<in> cells p h) H = {#}"
      using d by auto
    then show ?thesis using True by (simp only: filter_mset_add_mset if_True) simp
  next
    case False
    then show ?thesis using h by (simp add: holds_def)
  qed
  then show ?thesis using h n by (simp add: holds_def)
qed

end

text \<open>A pool whose cells can be occupied and released; \<open>'e\<close> is the error type and \<open>'m\<close> the log of a call.\<close>

locale cell_pool = cell_space +
  fixes occupy :: "'a \<Rightarrow> 'b \<Rightarrow> ('e + unit) \<times> 'a \<times> 'm"
    and release :: "'a \<Rightarrow> 'b \<Rightarrow> ('e + unit) \<times> 'a \<times> 'm"
  assumes occupy_ok: "inv p \<Longrightarrow> valid n \<Longrightarrow> occupy p n = (Inr u, q, m) \<Longrightarrow>
      inv q \<and> same p q \<and> used_cells q = used_cells p \<union> cells p n \<and> cells p n \<noteq> {}"
    and release_ok: "inv p \<Longrightarrow> valid n \<Longrightarrow> release p n = (Inr u, q, m) \<Longrightarrow>
      inv q \<and> same p q \<and> used_cells q = used_cells p - cells p n"
    and release_held: "inv p \<Longrightarrow> valid n \<Longrightarrow> cells p n \<noteq> {} \<Longrightarrow> \<exists>q m. release p n = (Inr (), q, m)"
begin

lemma holds_release:
  assumes h: "holds p (add_mset n H)" and r: "release p n = (Inr u, q, m)"
  shows "holds q H"
proof -
  have q: "inv q" "same p q" "used_cells q = used_cells p - cells p n"
    using release_ok [OF _ _ r] h by (auto simp: holds_def)
  have H: "holds p H" by (rule holds_mono [OF h]) simp
  show ?thesis
    by (rule holds_used [OF H q(1,2)])
      (use H holds_disjoint_member [OF h] q(3) in \<open>auto simp: holds_def\<close>)
qed

lemma holds_occupy:
  assumes h: "holds p H" and v: "valid n" and o: "occupy p n = (Inr u, q, m)"
    and d: "\<And>x. x \<in># H \<Longrightarrow> cells p n \<inter> cells p x = {}"
  shows "holds q (add_mset n H)"
proof -
  have q: "inv q" "same p q" "used_cells q = used_cells p \<union> cells p n" "cells p n \<noteq> {}"
    using occupy_ok [OF holds_inv [OF h] v o] by auto
  have "holds q H" by (rule holds_grow [OF h q(1,2)]) (simp add: q(3))
  then show ?thesis using d q v by (intro holds_add) (auto simp: same_cells [OF q(2)])
qed

end

text \<open>A pool that also chooses a free cell itself.\<close>

locale cidr_pool = cell_pool +
  fixes alloc :: "'a \<Rightarrow> ('c + 'b) \<times> 'a \<times> 'd"
  assumes alloc_ok: "inv p \<Longrightarrow> alloc p = (Inr n, q, m) \<Longrightarrow> inv q \<and> same p q \<and> valid n
      \<and> (\<exists>i < capacity p. cells p n = {i} \<and> i \<notin> used_cells p \<and> used_cells q = insert i (used_cells p))"
    and alloc_err: "inv p \<Longrightarrow> alloc p = (Inl e, q, m) \<Longrightarrow> q = p \<and> used_cells p = {..< capacity p}"
begin

lemma alloc_release:
  assumes "inv p" "alloc p = (Inr n, q, m)"
  shows "\<exists>r m'. release q n = (Inr (), r, m') \<and> inv r \<and> same p r \<and> used_cells r = used_cells p"
proof -
  obtain i where q: "inv q" "same p q" "valid n" "cells p n = {i}" "i \<notin> used_cells p"
    "used_cells q = insert i (used_cells p)" using alloc_ok [OF assms] by blast
  have c: "cells q n = {i}" using q(2,4) same_cells by simp
  then obtain r m' where r: "release q n = (Inr (), r, m')"
    using release_held [OF q(1,3)] by blast
  then show ?thesis
    using release_ok [OF q(1,3) r] q c same_trans by auto
qed

lemma alloc_disjoint:
  "inv p \<Longrightarrow> alloc p = (Inr n, q, m) \<Longrightarrow> cells p h \<subseteq> used_cells p \<Longrightarrow> cells p n \<inter> cells p h = {}"
  using alloc_ok [of p n q m] by auto

lemma occupy_alloc_disjoint:
  assumes "inv p" "valid h" "occupy p h = (Inr u, q, m)" "alloc q = (Inr n, r, m')"
  shows "cells p n \<inter> cells p h = {}"
  using occupy_ok [OF assms(1-3)] alloc_disjoint [OF _ assms(4)] same_cells [of p q]
  by (metis Un_upper2)

lemma holds_alloc:
  assumes h: "holds p H" and a: "alloc p = (Inr n, q, m)"
  shows "holds q (add_mset n H)"
proof -
  obtain i where q: "inv q" "same p q" "valid n" "cells p n = {i}" "i \<notin> used_cells p"
    "used_cells q = insert i (used_cells p)" using alloc_ok [OF holds_inv [OF h] a] by blast
  have "holds q H" by (rule holds_grow [OF h q(1,2)]) (simp add: q(6) subset_insertI)
  then show ?thesis
    using h q by (intro holds_add) (auto simp: holds_def same_cells [OF q(2)])
qed

text \<open>Allocation succeeds while a cell is free.\<close>

lemma alloc_possible:
  assumes "inv p" "card (used_cells p) < capacity p"
  obtains n q m where "alloc p = (Inr n, q, m)"
proof -
  obtain x q m where a: "alloc p = (x, q, m)" by (cases "alloc p") auto
  show thesis
  proof (cases x)
    case (Inl e)
    then show ?thesis using alloc_err [OF assms(1)] a assms(2) by fastforce
  next
    case (Inr n)
    then show ?thesis using a that by blast
  qed
qed

end

subsection \<open>The CIDR set keeps the contract\<close>

text \<open>A canonical network of some family.\<close>

definition is_canon :: "IPNet \<Rightarrow> bool" where
  "is_canon n \<longleftrightarrow> (\<exists>l k. canon l k n)"

lemma is_canonI [intro]: "canon l k n \<Longrightarrow> is_canon n"
  by (auto simp: is_canon_def)

lemma touched_in_range:
  assumes "cset_wf s" "canon l k n" "touched s n \<noteq> {}" "length (IP n) = length (IP (clusterCIDR s))"
  shows "in_range s n"
proof -
  obtain l' m n' where wf: "wf_params s l' m n'" using assms(1) by (rule cset_wf_params)
  have k: "canon l' k n" using assms(2,4) wf_paramsD(10) [OF wf] canonD(1) [OF assms(2)] by simp
  obtain i where i: "i < nat (maxCIDRs s)"
    "net_addrs (indexToCIDRBlock s (int i)) \<inter> net_addrs n \<noteq> {}"
    using assms(3) by (auto simp: touched_def)
  have "int i < maxCIDRs s" using i(1) by linarith
  then have "net_addrs n \<inter> net_addrs (clusterCIDR s) \<noteq> {}"
    using block_subset_cluster [OF wf, of "int i"] i(2) by auto
  then show ?thesis using in_range_iff_meets [OF wf k] by simp
qed

lemma touched_nonempty:
  assumes "cset_wf s" "in_range s n" "canon l k n"
  shows "touched s n \<noteq> {}"
proof -
  obtain l' m n' where wf: "wf_params s l' m n'" using assms(1) by (rule cset_wf_params)
  have "canon l' k n" using assms(2,3) wf_paramsD(10) [OF wf] canonD(1) [OF assms(3)]
    by (simp add: in_range_def)
  then obtain b e where "touched s n = {b..e}" "b \<le> e"
    using getBeginingAndEndIndices_in [OF wf _ assms(2)] by metis
  then show ?thesis by simp
qed

text \<open>The cells of a network of the other family: none.\<close>

definition cells_of :: "CidrSet \<Rightarrow> IPNet \<Rightarrow> nat set" where
  "cells_of s n = (if length (IP n) = length (IP (clusterCIDR s)) then touched s n else {})"

lemma cells_of_in_range: "in_range s n \<Longrightarrow> cells_of s n = touched s n"
  by (simp add: cells_of_def in_range_def)

interpretation cs: cell_space cset_inv same_config used_set "\<lambda>s. nat (maxCIDRs s)" cells_of is_canon
  by unfold_locales
    (auto simp: cset_inv_def same_config_eqs(4) same_configD cells_of_def intro: same_config_trans)

interpretation cs: cell_pool cset_inv same_config used_set "\<lambda>s. nat (maxCIDRs s)" cells_of is_canon
  "\<lambda>s n. Occupy s (Some n)" "\<lambda>s n. Release s (Some n)"
proof unfold_locales
  fix p n u q m assume inv: "cset_inv p" and "is_canon n" and o: "Occupy p (Some n) = (Inr u, q, m)"
  then obtain l k where k: "canon l k n" by (auto simp: is_canon_def)
  from inv k show "cset_inv q \<and> same_config p q \<and> used_set q = used_set p \<union> cells_of p n
      \<and> cells_of p n \<noteq> {}"
    by (cases rule: Occupy_canon_cases)
      (use o inv touched_nonempty [OF _ _ k] in \<open>auto simp: occupied_by_def cells_of_in_range cset_inv_def\<close>)
next
  fix p n u q m assume inv: "cset_inv p" and "is_canon n" and o: "Release p (Some n) = (Inr u, q, m)"
  then obtain l k where k: "canon l k n" by (auto simp: is_canon_def)
  from inv k show "cset_inv q \<and> same_config p q \<and> used_set q = used_set p - cells_of p n"
    by (cases rule: Release_canon_cases) (use o in \<open>auto simp: released_by_def cells_of_in_range\<close>)
next
  fix p n assume inv: "cset_inv p" and c: "is_canon n" and t: "cells_of p n \<noteq> {}"
  then obtain l k where k: "canon l k n" by (auto simp: is_canon_def)
  have "in_range p n"
    using touched_in_range [OF _ k] inv t by (auto simp: cells_of_def cset_inv_def split: if_splits)
  with inv k show "\<exists>q m. Release p (Some n) = (Inr (), q, m)"
    by (cases rule: Release_canon_cases) auto
qed

interpretation cs: cidr_pool cset_inv same_config used_set "\<lambda>s. nat (maxCIDRs s)" cells_of is_canon
  "\<lambda>s n. Occupy s (Some n)" "\<lambda>s n. Release s (Some n)" AllocateNext
proof unfold_locales
  fix p q n m assume inv: "cset_inv p" and a: "AllocateNext p = (Inr n, q, m)"
  obtain l k j where wf: "wf_params p l k j" using inv cset_wf_params cset_inv_def by metis
  from inv show "cset_inv q \<and> same_config p q \<and> is_canon n \<and> (\<exists>i < nat (maxCIDRs p).
      cells_of p n = {i} \<and> i \<notin> used_set p \<and> used_set q = insert i (used_set p))"
  proof (cases rule: AllocateNext_cases)
    case (fresh t i s' ms)
    then have n: "n = indexToCIDRBlock p i" "q = s'" using a by auto
    note i = round_robin_bounds [OF inv fresh(1)]
    have "cells_of p n = {nat i}"
      using touched_block [OF wf] block_in_range [OF wf] i n(1) cells_of_in_range by simp
    moreover have "is_canon n" using block_canon [OF wf] i n(1) by blast
    ultimately show ?thesis
      using fresh i n(2) by (auto simp: allocated_by_def round_robin_def)
  qed (use a in simp)
next
  fix p e q m assume inv: "cset_inv p" and a: "AllocateNext p = (Inl e, q, m)"
  from inv show "q = p \<and> used_set p = {..< nat (maxCIDRs p)}"
    by (cases rule: AllocateNext_cases) (use a in auto)
qed

end
