(* ===== verification/AllocatorProps.thy ===== *)
theory AllocatorProps
  imports Allocator CidrPool
begin

text \<open>
  What the operations of the allocator do to its CIDR sets, and what they leave alone. The
  facts about a set come through the interface \<open>cidr_pool\<close> (interpretation \<open>cs\<close>); this theory
  lifts them to the list of sets and to the CIDRs of a node as text.
\<close>

named_theorems alloc_frame \<open>fields of the allocator an operation leaves unchanged\<close>

subsection \<open>The invariant and the frame of the operations on sets\<close>

definition alloc_inv :: "cidrAllocator \<Rightarrow> bool" where
  "alloc_inv c \<longleftrightarrow> (\<forall>s\<in>set (cidrSets c). cset_inv s)"

text \<open>The cells in use in set \<open>i\<close>, and the cells of it a network covers.\<close>

definition used_at :: "cidrAllocator \<Rightarrow> nat \<Rightarrow> nat set" where
  "used_at c i = used_set (cidrSets c ! i)"

definition cells_at :: "cidrAllocator \<Rightarrow> nat \<Rightarrow> IPNet \<Rightarrow> nat set" where
  "cells_at c i n = cells_of (cidrSets c ! i) n"

text \<open>
  \<open>set_step c c'\<close>: only the sets and the metrics changed, every set is the same set as before
  and has its invariant.
\<close>

definition set_step :: "cidrAllocator \<Rightarrow> cidrAllocator \<Rightarrow> bool" where
  "set_step c c' \<longleftrightarrow> alloc_inv c' \<and> list_all2 same_config (cidrSets c) (cidrSets c')
     \<and> c' = c\<lparr>cidrSets := cidrSets c', metricLog := metricLog c'\<rparr>"

lemma set_step_refl: "alloc_inv c \<Longrightarrow> set_step c c"
  by (simp add: set_step_def list.rel_refl)

lemma set_step_trans:
  assumes "set_step a b" "set_step b c"
  shows "set_step a c"
proof -
  have "list_all2 same_config (cidrSets a) (cidrSets c)"
    by (rule list_all2_trans [OF same_config_trans]) (use assms in \<open>auto simp: set_step_def\<close>)
  then show ?thesis using assms by (cases a; cases b; cases c) (simp add: set_step_def)
qed

lemma set_step_inv: "set_step c c' \<Longrightarrow> alloc_inv c'"
  by (simp add: set_step_def)

lemma set_step_fields [alloc_frame]:
  assumes "set_step c c'"
  shows "clusterCIDRs c' = clusterCIDRs c" "nodeCIDRUpdateChannel c' = nodeCIDRUpdateChannel c"
    "recorder c' = recorder c" "nodesInProcessing c' = nodesInProcessing c" "mode c' = mode c"
    "primaryIPFamily c' = primaryIPFamily c" "tickPeriod c' = tickPeriod c"
    "nodeCIDRMaskSizeIPv6 c' = nodeCIDRMaskSizeIPv6 c" "reconcileReady c' = reconcileReady c"
    "startCtx c' = startCtx c" "workers c' = workers c" "length (cidrSets c') = length (cidrSets c)"
  using assms
  by (cases c; cases c'; auto simp: set_step_def list_all2_lengthD)+

lemma set_step_same: "set_step c c' \<Longrightarrow> i < length (cidrSets c) \<Longrightarrow> same_config (cidrSets c ! i) (cidrSets c' ! i)"
  by (auto simp: set_step_def list_all2_conv_all_nth)

lemma set_step_cells: "set_step c c' \<Longrightarrow> i < length (cidrSets c) \<Longrightarrow> cells_at c' i n = cells_at c i n"
  by (simp add: cells_at_def cs.same_cells [OF set_step_same])

lemma alloc_inv_nth: "alloc_inv c \<Longrightarrow> i < length (cidrSets c) \<Longrightarrow> cset_inv (cidrSets c ! i)"
  by (simp add: alloc_inv_def)

text \<open>The update of a field other than the sets.\<close>

lemma alloc_inv_update [simp]:
  "alloc_inv (c\<lparr>nodesInProcessing := N\<rparr>) = alloc_inv c"
  "alloc_inv (c\<lparr>nodeCIDRUpdateChannel := q\<rparr>) = alloc_inv c"
  "alloc_inv (c\<lparr>recorder := ev\<rparr>) = alloc_inv c"
  "alloc_inv (c\<lparr>startCtx := ctx\<rparr>) = alloc_inv c"
  "alloc_inv (c\<lparr>reconcileReady := b, workers := n\<rparr>) = alloc_inv c"
  "alloc_inv (removeNodeFromProcessing nm c) = alloc_inv c"
  by (simp_all add: alloc_inv_def removeNodeFromProcessing_def)

lemma cidrSets_remove [simp]: "cidrSets (removeNodeFromProcessing nm c) = cidrSets c"
  by (simp add: removeNodeFromProcessing_def)

lemma used_at_update [simp]:
  "used_at (c\<lparr>nodesInProcessing := N\<rparr>) i = used_at c i"
  "used_at (c\<lparr>nodeCIDRUpdateChannel := q\<rparr>) i = used_at c i"
  "used_at (c\<lparr>recorder := ev\<rparr>) i = used_at c i"
  "used_at (removeNodeFromProcessing nm c) i = used_at c i"
  by (simp_all add: used_at_def)

subsection \<open>One operation on one set\<close>

lemma on_set_step:
  assumes inv: "alloc_inv c" and r: "on_set idx f c = (r, c')"
    and f: "\<And>s r s' ms. cset_inv s \<Longrightarrow> f s = (r, s', ms) \<Longrightarrow> cset_inv s' \<and> same_config s s'"
  shows "set_step c c'"
proof (cases "idx < length (cidrSets c)")
  case True
  obtain x s ms where fs: "f (cidrSets c ! idx) = (x, s, ms)" by (cases "f (cidrSets c ! idx)") auto
  have s: "cset_inv s \<and> same_config (cidrSets c ! idx) s"
    by (rule f [OF alloc_inv_nth [OF inv True] fs])
  have "c' = c\<lparr>cidrSets := (cidrSets c)[idx := s], metricLog := metricLog c @ ms\<rparr>"
    using r True fs by (simp add: on_set_def)
  then show ?thesis
    using inv s True set_update_subset_insert [of "cidrSets c" idx s]
    by (auto simp: set_step_def alloc_inv_def list_all2_conv_all_nth nth_list_update)
next
  case False
  then show ?thesis using r inv set_step_refl by (auto simp: on_set_def)
qed

lemma on_set_nth:
  assumes "on_set idx f c = (Inr x, c')"
  obtains s ms where "idx < length (cidrSets c)" "f (cidrSets c ! idx) = (Inr x, s, ms)"
    "cidrSets c' = (cidrSets c)[idx := s]"
  using assms by (auto simp: on_set_def split: if_splits prod.splits)

lemma on_set_error:
  assumes "on_set idx f c = (Inl e, c')" "\<And>s e s' ms. f s = (Inl e, s', ms) \<Longrightarrow> s' = s"
  shows "cidrSets c' = cidrSets c"
proof (cases "idx < length (cidrSets c)")
  case True
  obtain r s ms where s: "f (cidrSets c ! idx) = (r, s, ms)" by (rule prod_cases3)
  then have "r = Inl e" "cidrSets c' = (cidrSets c)[idx := s]"
    using True assms(1) by (auto simp: on_set_def)
  moreover have "s = cidrSets c ! idx"
    by (rule assms(2)) (use s \<open>r = Inl e\<close> in blast)
  ultimately show ?thesis by simp
next
  case False
  then show ?thesis using assms(1) by (simp add: on_set_def)
qed

lemma on_set_release_error: "on_set idx (\<lambda>s. Release s n) c = (Inl e, c') \<Longrightarrow> cidrSets c' = cidrSets c"
  by (erule on_set_error) (auto dest: Release_error)

lemma on_set_occupy_step: "alloc_inv c \<Longrightarrow> on_set idx (\<lambda>s. Occupy s n) c = (r, c') \<Longrightarrow> set_step c c'"
  by (erule on_set_step) (auto dest: Occupy_any)

lemma on_set_release_step: "alloc_inv c \<Longrightarrow> on_set idx (\<lambda>s. Release s n) c = (r, c') \<Longrightarrow> set_step c c'"
  by (erule on_set_step) (auto dest: Release_any)

lemma on_set_alloc_step: "alloc_inv c \<Longrightarrow> on_set idx AllocateNext c = (r, c') \<Longrightarrow> set_step c c'"
  by (erule on_set_step) (auto dest: AllocateNext_any)

lemmas on_set_steps = on_set_occupy_step on_set_release_step on_set_alloc_step

lemma on_set_occupy:
  assumes inv: "alloc_inv c" and n: "is_canon n" and r: "on_set idx (\<lambda>s. Occupy s (Some n)) c = (Inr u, c')"
  shows "idx < length (cidrSets c)" "in_range (cidrSets c ! idx) n"
    "used_at c' i = used_at c i \<union> (if i = idx then cells_at c idx n else {})"
proof -
  obtain s ms where s: "idx < length (cidrSets c)" "Occupy (cidrSets c ! idx) (Some n) = (Inr u, s, ms)"
    "cidrSets c' = (cidrSets c)[idx := s]" using r by (rule on_set_nth)
  note si = alloc_inv_nth [OF inv s(1)]
  show "idx < length (cidrSets c)" by (rule s(1))
  obtain l k where "canon l k n" using n by (auto simp: is_canon_def)
  with si show "in_range (cidrSets c ! idx) n"
    by (cases rule: Occupy_canon_cases) (use s(2) in auto)
  show "used_at c' i = used_at c i \<union> (if i = idx then cells_at c idx n else {})"
    using cs.occupy_ok [OF si n s(2)] s(1,3)
    by (auto simp: used_at_def cells_at_def nth_list_update)
qed

lemma on_set_release:
  assumes inv: "alloc_inv c" and n: "is_canon n" and r: "on_set idx (\<lambda>s. Release s (Some n)) c = (Inr u, c')"
  shows "idx < length (cidrSets c)"
    "used_at c' i = used_at c i - (if i = idx then cells_at c idx n else {})"
proof -
  obtain s ms where s: "idx < length (cidrSets c)" "Release (cidrSets c ! idx) (Some n) = (Inr u, s, ms)"
    "cidrSets c' = (cidrSets c)[idx := s]" using r by (rule on_set_nth)
  then show "idx < length (cidrSets c)"
    "used_at c' i = used_at c i - (if i = idx then cells_at c idx n else {})"
    using cs.release_ok [OF alloc_inv_nth [OF inv s(1)] n s(2)]
    by (auto simp: used_at_def cells_at_def nth_list_update)
qed

lemma on_set_alloc:
  assumes inv: "alloc_inv c" and r: "on_set idx AllocateNext c = (Inr n, c')"
  obtains j where "idx < length (cidrSets c)" "is_canon n" "cells_at c idx n = {j}" "j \<notin> used_at c idx"
    "\<And>i. used_at c' i = (if i = idx then insert j (used_at c idx) else used_at c i)"
proof -
  obtain s ms where s: "idx < length (cidrSets c)" "AllocateNext (cidrSets c ! idx) = (Inr n, s, ms)"
    "cidrSets c' = (cidrSets c)[idx := s]" using r by (rule on_set_nth)
  show thesis
    using cs.alloc_ok [OF alloc_inv_nth [OF inv s(1)] s(2)] s(1,3) that
    by (auto simp: used_at_def cells_at_def nth_list_update)
qed

subsection \<open>Every operation keeps the invariant\<close>

lemma occupyLoop_step:
  "alloc_inv c \<Longrightarrow> occupyLoop env node idx ts c = (r, c') \<Longrightarrow> set_step c c'"
proof (induction env node idx ts c arbitrary: r c' rule: occupyLoop.induct)
  case (2 env node idx cidr cidrs c)
  then show ?case
    by (auto simp: set_step_refl dest: on_set_steps set_step_inv
        split: option.splits if_splits prod.splits sum.splits)
      (metis on_set_occupy_step set_step_inv set_step_trans)+
qed (simp add: set_step_refl)

lemma releaseLoop_step:
  "alloc_inv c \<Longrightarrow> releaseLoop env node idx ts c = (r, c') \<Longrightarrow> set_step c c'"
proof (induction env node idx ts c arbitrary: r c' rule: releaseLoop.induct)
  case (2 env node idx cidr cidrs c)
  then show ?case
    by (auto simp: set_step_refl dest: on_set_steps set_step_inv
        split: option.splits if_splits prod.splits sum.splits)
      (metis on_set_release_step set_step_inv set_step_trans)+
qed (simp add: set_step_refl)

lemma releaseReserved_step:
  "alloc_inv c \<Longrightarrow> releaseReserved idx ns c = (r, c') \<Longrightarrow> set_step c c'"
proof (induction ns arbitrary: idx c)
  case (Cons cidr cidrs)
  obtain x d where d: "on_set idx (\<lambda>s. Release s (Some cidr)) c = (x, d)" by (rule prod.exhaust)
  have sd: "set_step c d" by (rule on_set_release_step [OF Cons.prems(1) d])
  have "c' = d \<or> releaseReserved (idx + 1) cidrs d = (r, c')"
    using Cons.prems(2) d by (auto split: sum.splits cidr_error.splits)
  then show ?case
    using sd Cons.IH [OF set_step_inv [OF sd]] set_step_trans [OF sd] by auto
qed (simp add: set_step_refl)

lemma allocateLoop_step:
  "alloc_inv c \<Longrightarrow> allocateLoop idx k c = (r, c') \<Longrightarrow> set_step c c'"
proof (induction idx k c arbitrary: r c' rule: allocateLoop.induct)
  case (2 idx k c)
  then show ?case
    by (auto simp: set_step_refl dest: on_set_steps set_step_inv
        split: prod.splits sum.splits)
      (metis on_set_alloc_step set_step_inv set_step_trans)+
qed (simp add: set_step_refl)


subsection \<open>The CIDRs of a node as networks\<close>

text \<open>
  The IPv4 networks among the pod CIDRs of a node, in order: the \<open>i\<close>-th of them belongs to
  set \<open>i\<close>. \<open>std_cidrs\<close>: every pod CIDR is the text of a canonical network, which is to say
  that it parses and is no IPv4-mapped network (\<open>std_cidrs_iff\<close>).
\<close>

definition v4_net :: "string \<Rightarrow> IPNet option" where
  "v4_net t = (case ParseCIDR t of None \<Rightarrow> None | Some n \<Rightarrow> if length (IP n) = 4 then Some n else None)"

definition v4_nets :: "string list \<Rightarrow> IPNet list" where
  "v4_nets ts = List.map_filter v4_net ts"

definition std_cidrs :: "string list \<Rightarrow> bool" where
  "std_cidrs ts \<longleftrightarrow> (\<forall>t\<in>set ts. \<exists>n. ParseCIDR t = Some n \<and> is_canon n)"

text \<open>
  The documented behaviour of \<open>IsIPv6CIDR\<close> on canonical networks, the only thing the
  development assumes of it.
\<close>

definition ip_family_ok :: "'w api \<Rightarrow> bool" where
  "ip_family_ok env \<longleftrightarrow> (\<forall>n. is_canon n \<longrightarrow> api_IsIPv6CIDR env n = (length (IP n) = 16))"

lemma v4_nets_simps [simp]:
  "v4_nets [] = []"
  "v4_nets (t # ts) = (case v4_net t of None \<Rightarrow> v4_nets ts | Some n \<Rightarrow> n # v4_nets ts)"
  by (simp_all add: v4_nets_def map_filter_simps split: option.splits)

lemma v4_nets_append [simp]: "v4_nets (ts @ us) = v4_nets ts @ v4_nets us"
  by (induction ts) (auto split: option.splits)

lemma std_cidrs_simps [simp]:
  "std_cidrs []"
  "std_cidrs (t # ts) \<longleftrightarrow> (\<exists>n. ParseCIDR t = Some n \<and> is_canon n) \<and> std_cidrs ts"
  by (auto simp: std_cidrs_def)

lemma is_canon_length: "is_canon n \<Longrightarrow> length (IP n) = 4 \<or> length (IP n) = 16"
  by (auto simp: is_canon_def dest: canonD(1,6))

lemma std_cidrs_append [simp]: "std_cidrs (ts @ us) \<longleftrightarrow> std_cidrs ts \<and> std_cidrs us"
  by (induction ts) auto

lemma canon_not_mapped: "is_canon n \<Longrightarrow> \<not> mapped n"
  by (auto simp: is_canon_def mapped_def dest: canonD)

lemma std_cidrs_iff: "std_cidrs ts \<longleftrightarrow> (\<forall>t\<in>set ts. \<exists>n. ParseCIDR t = Some n \<and> \<not> mapped n)"
proof -
  have "is_canon n \<longleftrightarrow> \<not> mapped n" if "ParseCIDR t = Some n" for t n
    using ParseCIDR_canon [OF that] canon_not_mapped by (auto simp: is_canon_def)
  then show ?thesis unfolding std_cidrs_def by blast
qed

lemma v4_nets_canon: "std_cidrs ts \<Longrightarrow> n \<in> set (v4_nets ts) \<Longrightarrow> is_canon n \<and> length (IP n) = 4"
  by (induction ts) (auto simp: v4_net_def split: option.splits if_splits)

text \<open>A CIDR of a node is an IPv6 network and skipped, or the next IPv4 network.\<close>

lemma cidr_cases:
  assumes "ip_family_ok env" "std_cidrs (t # ts)"
  obtains (v6) n where "ParseCIDR t = Some n" "api_IsIPv6CIDR env n" "v4_nets (t # ts) = v4_nets ts"
    | (v4) n where "ParseCIDR t = Some n" "\<not> api_IsIPv6CIDR env n" "is_canon n"
        "v4_nets (t # ts) = n # v4_nets ts"
proof -
  obtain n where n: "ParseCIDR t = Some n" "is_canon n" using assms(2) by auto
  then have "api_IsIPv6CIDR env n = (length (IP n) = 16)"
    using assms(1) by (simp add: ip_family_ok_def)
  then show thesis
    using n is_canon_length [OF n(2)] v6 v4 by (auto simp: v4_net_def)
qed

text \<open>The cells the networks \<open>ns\<close> cover in set \<open>i\<close>, the first network belonging to set \<open>idx\<close>.\<close>

definition net_cells :: "cidrAllocator \<Rightarrow> nat \<Rightarrow> IPNet list \<Rightarrow> nat \<Rightarrow> nat set" where
  "net_cells c idx ns i = (if idx \<le> i \<and> i - idx < length ns then cells_at c i (ns ! (i - idx)) else {})"

lemma net_cells_simps [simp]:
  "net_cells c idx [] i = {}"
  "net_cells c idx (n # ns) i = (if i = idx then cells_at c idx n else {}) \<union> net_cells c (Suc idx) ns i"
proof -
  consider "i < idx" | "i = idx" | k where "i = idx + Suc k"
    by (metis less_iff_Suc_add linorder_neqE_nat add_Suc_right)
  then show "net_cells c idx (n # ns) i
      = (if i = idx then cells_at c idx n else {}) \<union> net_cells c (Suc idx) ns i"
    by cases (simp_all add: net_cells_def)
qed (simp add: net_cells_def)

lemma net_cells_step:
  "set_step c c' \<Longrightarrow> i < length (cidrSets c) \<Longrightarrow> net_cells c' idx ns i = net_cells c idx ns i"
  by (simp add: net_cells_def set_step_cells)

lemma occupyLoop_ok:
  assumes "ip_family_ok env" "std_cidrs ts" "alloc_inv c" "occupyLoop env node idx ts c = (Inr u, c')"
  shows "(v4_nets ts = [] \<or> idx + length (v4_nets ts) \<le> length (cidrSets c))
    \<and> (\<forall>j < length (v4_nets ts). in_range (cidrSets c ! (idx + j)) (v4_nets ts ! j))
    \<and> (\<forall>i < length (cidrSets c). used_at c' i = used_at c i \<union> net_cells c idx (v4_nets ts) i)"
  using assms(2-4)
proof (induction ts arbitrary: idx c)
  case Nil
  then show ?case by simp
next
  case (Cons t ts)
  from assms(1) Cons.prems(1) show ?case
  proof (cases rule: cidr_cases)
    case (v6 n)
    then show ?thesis using Cons.IH [of c idx] Cons.prems by simp
  next
    case (v4 n)
    then obtain d v where d: "on_set idx (\<lambda>s. Occupy s (Some n)) c = (Inr v, d)"
      "occupyLoop env node (idx + 1) ts d = (Inr u, c')"
      using Cons.prems(3) by (auto split: prod.splits sum.splits)
    have sd: "set_step c d" by (rule on_set_occupy_step [OF Cons.prems(2) d(1)])
    note o = on_set_occupy [OF Cons.prems(2) v4(3) d(1)]
    note ih = Cons.IH [OF _ set_step_inv [OF sd] d(2)]
    have len: "length (cidrSets d) = length (cidrSets c)" by (rule set_step_fields [OF sd])
    have rng: "in_range (cidrSets d ! i) x = in_range (cidrSets c ! i) x"
      if "i < length (cidrSets c)" for i x
      using same_config_eqs(5) [OF set_step_same [OF sd that]] .
    show ?thesis
      using ih Cons.prems(1) o len rng v4(4)
      by (auto simp: net_cells_step [OF sd] nth_Cons split: nat.splits)
  qed
qed

lemma releaseLoop_ok:
  assumes "ip_family_ok env" "std_cidrs ts" "alloc_inv c" "releaseLoop env node idx ts c = (Inr u, c')"
  shows "\<forall>i < length (cidrSets c). used_at c' i = used_at c i - net_cells c idx (v4_nets ts) i"
  using assms(2-4)
proof (induction ts arbitrary: idx c)
  case Nil
  then show ?case by simp
next
  case (Cons t ts)
  from assms(1) Cons.prems(1) show ?case
  proof (cases rule: cidr_cases)
    case (v6 n)
    then show ?thesis using Cons.IH [of c idx] Cons.prems by simp
  next
    case (v4 n)
    then obtain d v where d: "on_set idx (\<lambda>s. Release s (Some n)) c = (Inr v, d)"
      "releaseLoop env node (idx + 1) ts d = (Inr u, c')"
      using Cons.prems(3) by (auto split: prod.splits sum.splits)
    have sd: "set_step c d" by (rule on_set_release_step [OF Cons.prems(2) d(1)])
    have len: "length (cidrSets d) = length (cidrSets c)" by (rule set_step_fields [OF sd])
    show ?thesis
      using Cons.IH [OF _ set_step_inv [OF sd] d(2)] Cons.prems(1) len v4(4)
        on_set_release(2) [OF Cons.prems(2) v4(3) d(1)]
      by (auto simp: net_cells_step [OF sd])
  qed
qed


subsection \<open>Cells and addresses\<close>

text \<open>Networks without a common cell have no common address, when one is inside the cluster.\<close>

lemma cells_disjoint_addrs:
  assumes wf: "cset_wf s" and sub: "net_addrs a \<subseteq> net_addrs (clusterCIDR s)"
    and d: "touched s a \<inter> touched s b = {}"
  shows "net_addrs a \<inter> net_addrs b = {}"
proof (rule ccontr)
  assume "net_addrs a \<inter> net_addrs b \<noteq> {}"
  then obtain x where x: "x \<in> net_addrs a" "x \<in> net_addrs b" by blast
  obtain l m n where wp: "wf_params s l m n" using wf by (rule cset_wf_params)
  have xc: "x \<in> net_addrs (clusterCIDR s)" using x(1) sub by blast
  let ?i = "block_index s x"
  have i: "?i < nat (maxCIDRs s)"
    using block_index_less [OF wp xc] wf_paramsD(8) [OF wp] by (simp add: nat_power_eq)
  then have "int ?i < maxCIDRs s" by linarith
  then have "x \<in> net_addrs (indexToCIDRBlock s (int ?i))"
    using in_block_iff [OF wp _ _ xc] by simp
  then have "?i \<in> touched s a \<inter> touched s b" using x i by (auto simp: touched_def)
  then show False using d by blast
qed

text \<open>A free block of the set: the network of a cell that is not in use.\<close>

definition fresh_block :: "CidrSet \<Rightarrow> IPNet \<Rightarrow> bool" where
  "fresh_block s n \<longleftrightarrow> (\<exists>i < nat (maxCIDRs s). n = indexToCIDRBlock s (int i) \<and> i \<notin> used_set s)"

lemma fresh_block_disjoint:
  assumes inv: "cset_inv s" and n: "fresh_block s n" and h: "cells_of s h \<subseteq> used_set s"
    and len: "length (IP h) = length (IP (clusterCIDR s))"
  shows "net_addrs n \<inter> net_addrs h = {}"
proof -
  obtain i where i: "i < nat (maxCIDRs s)" "n = indexToCIDRBlock s (int i)" "i \<notin> used_set s"
    using n by (auto simp: fresh_block_def)
  have wf: "cset_wf s" using inv by (simp add: cset_inv_def)
  then obtain l m k where wp: "wf_params s l m k" by (rule cset_wf_params)
  have ii: "int i < maxCIDRs s" using i(1) by linarith
  have "touched s n = {i}" using touched_block [OF wp _ ii] i(2) by simp
  moreover have "touched s h \<subseteq> used_set s" using h len by (simp add: cells_of_def)
  ultimately have "touched s n \<inter> touched s h = {}" using i(3) by auto
  moreover have "net_addrs n \<subseteq> net_addrs (clusterCIDR s)"
    using block_subset_cluster [OF wp _ ii] i(2) by simp
  ultimately show ?thesis by (intro cells_disjoint_addrs [OF wf])
qed

lemma AllocateNext_fresh:
  assumes inv: "cset_inv s" and a: "AllocateNext s = (Inr n, s', ms)"
  shows "fresh_block s n"
  using inv
proof (cases rule: AllocateNext_cases)
  case (fresh k i t ms')
  then have "n = indexToCIDRBlock s (int (nat i))" "nat i < nat (maxCIDRs s)" "nat i \<notin> used_set s"
    using a round_robin_bounds [OF inv fresh(1)] by (auto simp: round_robin_def)
  then show ?thesis unfolding fresh_block_def by blast
qed (use a in simp)

subsection \<open>One block of every set\<close>

lemma allocateLoop_ok:
  assumes "alloc_inv c" "allocateLoop idx k c = (Inr ns, c')"
  shows "length ns = k \<and> (k = 0 \<or> idx + k \<le> length (cidrSets c))
    \<and> (\<forall>j < k. is_canon (ns ! j) \<and> fresh_block (cidrSets c ! (idx + j)) (ns ! j)
         \<and> (\<exists>x. cells_at c (idx + j) (ns ! j) = {x} \<and> x \<notin> used_at c (idx + j)))
    \<and> (\<forall>i < length (cidrSets c). used_at c' i = used_at c i \<union> net_cells c idx ns i)"
  using assms
proof (induction k arbitrary: idx c ns)
  case (Suc k)
  obtain n d ms where n: "on_set idx AllocateNext c = (Inr n, d)"
    "allocateLoop (idx + 1) k d = (Inr ms, c')" "ns = n # ms"
    using Suc.prems(2) by (auto split: prod.splits sum.splits)
  have sd: "set_step c d" by (rule on_set_alloc_step [OF Suc.prems(1) n(1)])
  obtain x where x: "idx < length (cidrSets c)" "is_canon n" "cells_at c idx n = {x}"
    "x \<notin> used_at c idx" "\<And>i. used_at d i = (if i = idx then insert x (used_at c idx) else used_at c i)"
    using on_set_alloc [OF Suc.prems(1) n(1)] by blast
  obtain s l where s: "AllocateNext (cidrSets c ! idx) = (Inr n, s, l)" "cidrSets d = (cidrSets c)[idx := s]"
    using on_set_nth [OF n(1)] by metis
  have fr: "fresh_block (cidrSets c ! idx) n"
    by (rule AllocateNext_fresh [OF alloc_inv_nth [OF Suc.prems(1) x(1)] s(1)])
  have other: "cidrSets d ! (Suc idx + j) = cidrSets c ! (Suc idx + j)" for j
    by (simp add: s(2))
  have same: "cells_at d (Suc idx + j) y = cells_at c (Suc idx + j) y"
    "used_at d (Suc idx + j) = used_at c (Suc idx + j)" for j y
    using other [of j] by (simp_all add: cells_at_def used_at_def)
  have ih: "length ms = k" "k = 0 \<or> Suc idx + k \<le> length (cidrSets d)"
    "\<forall>j < k. is_canon (ms ! j) \<and> fresh_block (cidrSets d ! (Suc idx + j)) (ms ! j)
         \<and> (\<exists>x. cells_at d (Suc idx + j) (ms ! j) = {x} \<and> x \<notin> used_at d (Suc idx + j))"
    "\<forall>i < length (cidrSets d). used_at c' i = used_at d i \<union> net_cells d (Suc idx) ms i"
    using Suc.IH [OF set_step_inv [OF sd] n(2)] by simp_all
  have "is_canon (ns ! j) \<and> fresh_block (cidrSets c ! (idx + j)) (ns ! j)
      \<and> (\<exists>x. cells_at c (idx + j) (ns ! j) = {x} \<and> x \<notin> used_at c (idx + j))" if "j < Suc k" for j
  proof (cases j)
    case 0
    then show ?thesis using x fr n(3) by auto
  next
    case (Suc i)
    then show ?thesis using ih(3) [rule_format, of i] that n(3) same [of i] other [of i] by simp
  qed
  then show ?case
    using ih x n(3) set_step_fields(12) [OF sd] by (auto simp: net_cells_step [OF sd])
qed simp

text \<open>The loop fails at the first set without a free block; the sets before it keep theirs.\<close>

lemma allocateLoop_err:
  assumes "alloc_inv c" "idx + k \<le> length (cidrSets c)" "allocateLoop idx k c = (Inl (j, e), c')"
  shows "e = ErrCIDRRangeNoCIDRsRemaining \<and> idx \<le> j \<and> j < idx + k
    \<and> used_at c j = {..< nat (maxCIDRs (cidrSets c ! j))}
    \<and> (\<forall>i. idx \<le> i \<and> i < j \<longrightarrow> (\<exists>x. x \<notin> used_at c i \<and> used_at c' i = insert x (used_at c i)))
    \<and> (\<forall>i. i < idx \<or> j \<le> i \<longrightarrow> used_at c' i = used_at c i)"
  using assms
proof (induction k arbitrary: idx c)
  case (Suc k)
  have idx: "idx < length (cidrSets c)" using Suc.prems(2) by simp
  obtain r s l where s: "AllocateNext (cidrSets c ! idx) = (r, s, l)" by (rule prod_cases3)
  note si = alloc_inv_nth [OF Suc.prems(1) idx]
  show ?case
  proof (cases r)
    case (Inl e')
    have e': "s = cidrSets c ! idx \<and> used_set (cidrSets c ! idx) = {..< nat (maxCIDRs (cidrSets c ! idx))}"
      using cs.alloc_err [OF si] s Inl by blast
    have "e' = ErrCIDRRangeNoCIDRsRemaining"
      using si s Inl by (cases rule: AllocateNext_cases) auto
    moreover have "on_set idx AllocateNext c
        = (Inl e', c\<lparr>cidrSets := (cidrSets c)[idx := s], metricLog := metricLog c @ l\<rparr>)"
      using s Inl idx by (simp add: on_set_def)
    then have c': "cidrSets c' = (cidrSets c)[idx := s]" "j = idx" "e = e'"
      using Suc.prems(3) by auto
    moreover have "cidrSets c' = cidrSets c" using c'(1) e' by simp
    ultimately show ?thesis using e' by (auto simp: used_at_def)
  next
    case (Inr n)
    obtain d where d: "on_set idx AllocateNext c = (Inr n, d)" "cidrSets d = (cidrSets c)[idx := s]"
      using s Inr idx by (simp add: on_set_def)
    have rest: "allocateLoop (idx + 1) k d = (Inl (j, e), c')"
      using Suc.prems(3) d(1) by (auto split: sum.splits prod.splits)
    have sd: "set_step c d" by (rule on_set_alloc_step [OF Suc.prems(1) d(1)])
    obtain x where x: "x \<notin> used_at c idx"
      "\<And>i. used_at d i = (if i = idx then insert x (used_at c idx) else used_at c i)"
      using on_set_alloc [OF Suc.prems(1) d(1)] by metis
    have ih: "e = ErrCIDRRangeNoCIDRsRemaining \<and> idx + 1 \<le> j \<and> j < idx + 1 + k
      \<and> used_at d j = {..< nat (maxCIDRs (cidrSets d ! j))}
      \<and> (\<forall>i. idx + 1 \<le> i \<and> i < j \<longrightarrow> (\<exists>x. x \<notin> used_at d i \<and> used_at c' i = insert x (used_at d i)))
      \<and> (\<forall>i. i < idx + 1 \<or> j \<le> i \<longrightarrow> used_at c' i = used_at d i)"
      by (rule Suc.IH [OF set_step_inv [OF sd] _ rest])
        (use Suc.prems(2) set_step_fields(12) [OF sd] in simp)
    have mx: "cidrSets d ! j = cidrSets c ! j" using ih d(2) by simp
    show ?thesis
    proof (intro conjI allI impI)
      fix i assume i: "idx \<le> i \<and> i < j"
      show "\<exists>x. x \<notin> used_at c i \<and> used_at c' i = insert x (used_at c i)"
      proof (cases "i = idx")
        case True
        then show ?thesis using x ih by (metis Suc_eq_plus1 lessI)
      next
        case False
        then have "used_at d i = used_at c i" "idx + 1 \<le> i" using x(2) [of i] i by simp_all
        then show ?thesis using i ih by metis
      qed
    qed (use ih x(2) mx in auto)
  qed
qed simp

lemma on_set_alloc_possible:
  assumes "alloc_inv c" "idx < length (cidrSets c)"
    "card (used_at c idx) < nat (maxCIDRs (cidrSets c ! idx))"
  obtains n c' where "on_set idx AllocateNext c = (Inr n, c')"
  using cs.alloc_possible [OF alloc_inv_nth [OF assms(1,2)]] assms(2,3) that
  by (metis (no_types, lifting) case_prod_conv on_set_def used_at_def)

end
