(* ===== verification/Holdings.thy ===== *)
theory Holdings
  imports AllocatorProps
begin

text \<open>
  Ownership at the level of the allocator. A holding is a network in one of the CIDR sets,
  \<open>(i, n)\<close> the network \<open>n\<close> in set \<open>i\<close>; a holder of blocks (a node, a reservation) with the
  IPv4 networks \<open>ns\<close> has the holdings \<open>placed 0 ns\<close>, the \<open>i\<close>-th network in set \<open>i\<close>, and one in the
  middle of a loop over the sets has a part of them. \<open>holds_all c N\<close> says that the holdings \<open>N\<close>
  occupy cells in use and no two of them in one set share a cell. The lemmas follow this property
  through one operation on one set at a time, each by the facts of the interface \<open>cidr_pool\<close>,
  and through the loop of the reconciliation.
\<close>

definition at_set :: "nat \<Rightarrow> (nat \<times> IPNet) multiset \<Rightarrow> IPNet multiset" where
  "at_set i N = image_mset snd (filter_mset (\<lambda>p. fst p = i) N)"

definition holds_all :: "cidrAllocator \<Rightarrow> (nat \<times> IPNet) multiset \<Rightarrow> bool" where
  "holds_all c N \<longleftrightarrow> alloc_inv c
     \<and> (\<forall>i < length (cidrSets c). cs.holds (cidrSets c ! i) (at_set i N))"

fun placed :: "nat \<Rightarrow> IPNet list \<Rightarrow> (nat \<times> IPNet) multiset" where
  "placed k [] = {#}"
| "placed k (n # ns) = add_mset (k, n) (placed (Suc k) ns)"

lemma at_set_simps [simp]:
  "at_set i {#} = {#}"
  "at_set i (add_mset (j, n) N) = (if j = i then add_mset n (at_set i N) else at_set i N)"
  "at_set i (N + M) = at_set i N + at_set i M"
  by (simp_all add: at_set_def)

lemma at_set_mono: "K \<subseteq># N \<Longrightarrow> at_set i K \<subseteq># at_set i N"
  unfolding at_set_def by (intro image_mset_subseteq_mono multiset_filter_mono)

lemma placed_append [simp]: "placed k (ns @ ms) = placed k ns + placed (k + length ns) ms"
  by (induction ns arbitrary: k) simp_all

lemma placed_drop:
  "k < length ns \<Longrightarrow> placed k (drop k ns) = add_mset (k, ns ! k) (placed (Suc k) (drop (Suc k) ns))"
  by (simp flip: Cons_nth_drop_Suc)

lemma in_placed: "(i, n) \<in># placed k ns \<longleftrightarrow> k \<le> i \<and> i < k + length ns \<and> n = ns ! (i - k)"
proof (induction ns arbitrary: k)
  case (Cons m ns)
  have "(i, n) \<in># placed k (m # ns) \<longleftrightarrow> i = k \<and> n = m \<or> Suc k \<le> i \<and> i < Suc k + length ns \<and> n = ns ! (i - Suc k)"
    using Cons.IH [of "Suc k"] by auto
  also have "\<dots> \<longleftrightarrow> k \<le> i \<and> i < k + length (m # ns) \<and> n = (m # ns) ! (i - k)"
    by (cases "i = k") (auto simp: nth_Cons' Suc_diff_Suc dest: le_neq_implies_less)
  finally show ?case .
qed simp

lemma holds_allD: "holds_all c N \<Longrightarrow> alloc_inv c"
  by (simp add: holds_all_def)

lemma holds_all_empty: "alloc_inv c \<Longrightarrow> holds_all c {#}"
  by (simp add: holds_all_def cs.holds_empty alloc_inv_nth)

lemma holds_all_mono: "holds_all c N \<Longrightarrow> K \<subseteq># N \<Longrightarrow> holds_all c K"
  by (auto simp: holds_all_def intro: cs.holds_mono at_set_mono)

lemma holds_all_cong: "cidrSets c' = cidrSets c \<Longrightarrow> holds_all c' N = holds_all c N"
  by (simp add: holds_all_def alloc_inv_def)

lemma holds_all_update [simp]:
  "holds_all (c\<lparr>nodesInProcessing := P\<rparr>) N = holds_all c N"
  "holds_all (c\<lparr>nodeCIDRUpdateChannel := q\<rparr>) N = holds_all c N"
  "holds_all (c\<lparr>recorder := ev\<rparr>) N = holds_all c N"
  "holds_all (c\<lparr>startCtx := ctx\<rparr>) N = holds_all c N"
  "holds_all (c\<lparr>reconcileReady := b, workers := n\<rparr>) N = holds_all c N"
  "holds_all (removeNodeFromProcessing nm c) N = holds_all c N"
  by (rule holds_all_cong, simp)+

lemma set_step_inv_nth: "set_step c c' \<Longrightarrow> i < length (cidrSets c) \<Longrightarrow> cset_inv (cidrSets c' ! i)"
  using set_step_inv [of c c'] set_step_fields(12) [of c c'] alloc_inv_nth by simp

lemma holds_all_grow:
  assumes h: "holds_all c N" and st: "set_step c c'"
    and u: "\<And>i. i < length (cidrSets c) \<Longrightarrow> used_at c i \<subseteq> used_at c' i"
  shows "holds_all c' N"
  unfolding holds_all_def
proof (intro conjI allI impI set_step_inv [OF st])
  fix i assume "i < length (cidrSets c')"
  then have i: "i < length (cidrSets c)" by (simp add: set_step_fields(12) [OF st])
  show "cs.holds (cidrSets c' ! i) (at_set i N)"
    using h i u [OF i] unfolding holds_all_def
    by (intro cs.holds_grow [OF _ set_step_inv_nth [OF st i] set_step_same [OF st i]])
      (simp_all add: used_at_def)
qed

subsection \<open>One operation on one set\<close>

text \<open>An operation on set \<open>idx\<close> that succeeds need only be looked at there.\<close>

lemma holds_all_on_set:
  assumes h: "holds_all c N" and st: "set_step c c'" and o: "on_set idx f c = (Inr x, c')"
    and s: "\<And>s ms. f (cidrSets c ! idx) = (Inr x, s, ms) \<Longrightarrow> cs.holds s (at_set idx M)"
    and other: "\<And>i. i \<noteq> idx \<Longrightarrow> at_set i M = at_set i N"
  shows "holds_all c' M"
  unfolding holds_all_def
proof (intro conjI allI impI set_step_inv [OF st])
  obtain t ms where t: "idx < length (cidrSets c)" "f (cidrSets c ! idx) = (Inr x, t, ms)"
    "cidrSets c' = (cidrSets c)[idx := t]" using o by (rule on_set_nth)
  fix i assume "i < length (cidrSets c')"
  then show "cs.holds (cidrSets c' ! i) (at_set i M)"
    using h t s other [of i] by (cases "i = idx") (auto simp: holds_all_def)
qed

lemma holds_all_alloc:
  assumes h: "holds_all c N" and a: "on_set idx AllocateNext c = (Inr n, c')"
  shows "holds_all c' (add_mset (idx, n) N)"
proof (rule holds_all_on_set [OF h on_set_alloc_step [OF holds_allD [OF h] a] a])
  fix s ms assume s: "AllocateNext (cidrSets c ! idx) = (Inr n, s, ms)"
  have "idx < length (cidrSets c)" using a by (rule on_set_nth)
  then have "cs.holds (cidrSets c ! idx) (at_set idx N)" using h by (simp add: holds_all_def)
  from cs.holds_alloc [OF this s] show "cs.holds s (at_set idx (add_mset (idx, n) N))" by simp
qed simp

lemma holds_all_alloc_error:
  assumes h: "holds_all c N" and a: "on_set idx AllocateNext c = (Inl e, c')"
  shows "holds_all c' N"
proof (cases "idx < length (cidrSets c)")
  case True
  obtain r s ms where s: "AllocateNext (cidrSets c ! idx) = (r, s, ms)" by (rule prod_cases3)
  then have "r = Inl e" "cidrSets c' = (cidrSets c)[idx := s]" using a True by (auto simp: on_set_def)
  moreover from this have "s = cidrSets c ! idx"
    using cs.alloc_err [OF alloc_inv_nth [OF holds_allD [OF h] True]] s by blast
  ultimately show ?thesis using holds_all_cong [of c' c] h by simp
next
  case False
  then show ?thesis using a h by (simp add: on_set_def)
qed

lemma holds_all_release:
  assumes h: "holds_all c (add_mset (idx, n) N)" and r: "on_set idx (\<lambda>s. Release s (Some n)) c = (x, c')"
  shows "holds_all c' N"
proof (cases x)
  case (Inl e)
  have "holds_all c N" by (rule holds_all_mono [OF h]) simp
  then show ?thesis using holds_all_cong [OF on_set_release_error [OF r [unfolded Inl]]] by simp
next
  case (Inr u)
  show ?thesis
  proof (rule holds_all_on_set [OF h on_set_release_step [OF holds_allD [OF h] r] r [unfolded Inr]])
    fix s ms assume s: "Release (cidrSets c ! idx) (Some n) = (Inr u, s, ms)"
    have "idx < length (cidrSets c)" using r [unfolded Inr] by (rule on_set_nth)
    then have "cs.holds (cidrSets c ! idx) (add_mset n (at_set idx N))"
      using h by (auto simp: holds_all_def)
    then show "cs.holds s (at_set idx N)" by (rule cs.holds_release [OF _ s])
  qed simp
qed

lemma holds_all_occupy_one:
  assumes h: "holds_all c N" and n: "is_canon n" and o: "on_set idx (\<lambda>s. Occupy s (Some n)) c = (Inr u, c')"
    and d: "\<And>x. x \<in># at_set idx N \<Longrightarrow> cells_at c idx n \<inter> cells_at c idx x = {}"
  shows "holds_all c' (add_mset (idx, n) N)"
proof (rule holds_all_on_set [OF h on_set_occupy_step [OF holds_allD [OF h] o] o])
  fix s ms assume s: "Occupy (cidrSets c ! idx) (Some n) = (Inr u, s, ms)"
  have "idx < length (cidrSets c)" using o by (rule on_set_nth)
  then have "cs.holds (cidrSets c ! idx) (at_set idx N)" using h by (simp add: holds_all_def)
  from cs.holds_occupy [OF this n s] show "cs.holds s (at_set idx (add_mset (idx, n) N))"
    using d by (simp add: cells_at_def)
qed simp

subsection \<open>The loops\<close>

lemma holds_all_allocate:
  "holds_all c N \<Longrightarrow> allocateLoop idx k c = (Inr ns, c') \<Longrightarrow> holds_all c' (placed idx ns + N)"
proof (induction k arbitrary: idx c N ns)
  case (Suc k)
  obtain n d ms where n: "on_set idx AllocateNext c = (Inr n, d)"
    "allocateLoop (Suc idx) k d = (Inr ms, c')" "ns = n # ms"
    using Suc.prems(2) by (auto split: prod.splits sum.splits)
  show ?case using Suc.IH [OF holds_all_alloc [OF Suc.prems(1) n(1)] n(2)] n(3) by simp
qed simp

text \<open>The networks \<open>ns\<close>, from set \<open>idx\<close> on, have no cell in common with the holdings.\<close>

definition clear :: "cidrAllocator \<Rightarrow> nat \<Rightarrow> IPNet list \<Rightarrow> (nat \<times> IPNet) multiset \<Rightarrow> bool" where
  "clear c idx ns N \<longleftrightarrow> (\<forall>i < length (cidrSets c). \<forall>x\<in>#at_set i N. net_cells c idx ns i \<inter> cells_at c i x = {})"

lemma clear_step: "set_step c c' \<Longrightarrow> clear c' idx ns N = clear c idx ns N"
  by (simp add: clear_def net_cells_step set_step_cells set_step_fields(12))

lemma clear_Cons:
  "clear c idx (n # ns) N \<Longrightarrow> clear c (Suc idx) ns (add_mset (idx, n) N)"
  by (auto simp: clear_def) (auto simp: net_cells_def)

lemma holds_all_occupy:
  assumes "ip_family_ok env" "std_cidrs ts" "holds_all c N" "occupyLoop env node idx ts c = (Inr u, c')"
    "clear c idx (v4_nets ts) N"
  shows "holds_all c' (placed idx (v4_nets ts) + N)"
  using assms(2-5)
proof (induction ts arbitrary: idx c N)
  case (Cons t ts)
  from assms(1) Cons.prems(1) show ?case
  proof (cases rule: cidr_cases)
    case (v6 n)
    then show ?thesis using Cons.IH [of c N idx] Cons.prems by simp
  next
    case (v4 n)
    then obtain d v where d: "on_set idx (\<lambda>s. Occupy s (Some n)) c = (Inr v, d)"
      "occupyLoop env node (Suc idx) ts d = (Inr u, c')"
      using Cons.prems(3) by (auto split: prod.splits sum.splits)
    have sd: "set_step c d" by (rule on_set_occupy_step [OF holds_allD [OF Cons.prems(2)] d(1)])
    have cl: "clear c idx (n # v4_nets ts) N" using Cons.prems(4) v4(4) by simp
    have "idx < length (cidrSets c)" using d(1) by (rule on_set_nth)
    then have "cells_at c idx n \<inter> cells_at c idx x = {}" if "x \<in># at_set idx N" for x
      using cl [unfolded clear_def, rule_format, of idx x] that by auto
    then have "holds_all d (add_mset (idx, n) N)"
      by (rule holds_all_occupy_one [OF Cons.prems(2) v4(3) d(1)])
    from Cons.IH [OF _ this d(2)] have "holds_all c' (placed (Suc idx) (v4_nets ts) + add_mset (idx, n) N)"
      using Cons.prems(1) clear_Cons [OF cl] by (simp add: clear_step [OF sd])
    then show ?thesis using v4(4) by simp
  qed
qed simp

text \<open>
  The pods of a list of nodes hold disjoint cells after a successful reconciliation, when
  they were given disjoint cells.
\<close>

definition apart :: "cidrAllocator \<Rightarrow> IPNet list \<Rightarrow> IPNet list \<Rightarrow> bool" where
  "apart c ns ms \<longleftrightarrow> (\<forall>i < length (cidrSets c). net_cells c 0 ns i \<inter> net_cells c 0 ms i = {})"

lemma apart_step: "set_step c c' \<Longrightarrow> apart c' ns ms = apart c ns ms"
  by (simp add: apart_def net_cells_step set_step_fields(12))

lemma clear_placed: "apart c ns ms \<Longrightarrow> clear c 0 ns N \<Longrightarrow> clear c 0 ns (placed 0 ms + N)"
  by (fastforce simp: clear_def apart_def at_set_def in_placed net_cells_def)

definition node_nets :: "Node \<Rightarrow> IPNet list" where
  "node_nets node = v4_nets (PodCIDRs node)"

lemma reconcileLoop_step:
  "alloc_inv c \<Longrightarrow> reconcileLoop env nodes c = (r, c') \<Longrightarrow> set_step c c'"
proof (induction nodes arbitrary: c)
  case (Cons node nodes)
  obtain x d where d: "occupyCIDRsWithoutRemoval env node c = (x, d)" by (rule prod.exhaust)
  have sd: "set_step c d"
    using d Cons.prems(1) occupyLoop_step set_step_refl
    by (auto simp: occupyCIDRsWithoutRemoval_def split: if_splits)
  have "c' = c \<or> c' = d \<or> reconcileLoop env nodes d = (r, c') \<or> reconcileLoop env nodes c = (r, c')"
    using Cons.prems(2) d by (auto split: if_splits sum.splits go_err.splits)
  then show ?case
    using sd Cons.IH [OF set_step_inv [OF sd]] Cons.IH [OF Cons.prems(1)] set_step_trans [OF sd]
      set_step_refl [OF Cons.prems(1)] by auto
qed (simp add: set_step_refl)

lemma reconcileLoop_holds:
  assumes env: "ip_family_ok env" and ts: "\<forall>n\<in>set nodes. std_cidrs (PodCIDRs n)"
    and h: "holds_all c N" and r: "reconcileLoop env nodes c = (Inr u, c')"
    and d: "\<forall>n\<in>set nodes. clear c 0 (node_nets n) N"
    and dd: "sorted_wrt (\<lambda>a b. apart c (node_nets b) (node_nets a)) nodes"
  shows "holds_all c' (N + sum_mset (image_mset (\<lambda>n. placed 0 (node_nets n)) (mset nodes)))"
  using ts h r d dd
proof (induction nodes arbitrary: c N)
  case Nil
  then show ?case by simp
next
  case (Cons node nodes)
  show ?case
  proof (cases "PodCIDRs node = []")
    case True
    then have "reconcileLoop env nodes c = (Inr u, c')" "node_nets node = []"
      using Cons.prems(3) by (simp_all add: node_nets_def)
    then show ?thesis using Cons.IH [OF _ Cons.prems(2)] Cons.prems by simp
  next
    case False
    then obtain v d where d: "occupyLoop env node 0 (PodCIDRs node) c = (Inr v, d)"
      "reconcileLoop env nodes d = (Inr u, c')"
      using Cons.prems(3)
      by (auto simp: occupyCIDRsWithoutRemoval_def split: prod.splits sum.splits go_err.splits)
    have sd: "set_step c d" by (rule occupyLoop_step [OF holds_allD [OF Cons.prems(2)] d(1)])
    have "holds_all d (placed 0 (node_nets node) + N)"
      unfolding node_nets_def
      by (rule holds_all_occupy [OF env _ Cons.prems(2) d(1)])
        (use Cons.prems(1,4) in \<open>simp_all add: node_nets_def\<close>)
    moreover have "\<forall>n\<in>set nodes. clear d 0 (node_nets n) (placed 0 (node_nets node) + N)"
      using Cons.prems(4,5) by (simp add: clear_step [OF sd] clear_placed)
    moreover have "sorted_wrt (\<lambda>a b. apart d (node_nets b) (node_nets a)) nodes"
      using Cons.prems(5) by (simp add: apart_step [OF sd])
    ultimately have "holds_all c' ((placed 0 (node_nets node) + N)
        + sum_mset (image_mset (\<lambda>n. placed 0 (node_nets n)) (mset nodes)))"
      using Cons.IH [OF _ _ d(2), of "placed 0 (node_nets node) + N"] Cons.prems(1) by simp
    then show ?thesis by (simp add: add.assoc add.left_commute)
  qed
qed

end
