(* ===== verification/Handlers.thy ===== *)
theory Handlers
  imports Holdings
begin

text \<open>
  The outcomes of the allocator's entry points, case by case: the handlers of node events
  (\<open>AllocateOrOccupyCIDR\<close>, \<open>ReleaseCIDR\<close>) and the update of a node by a worker
  (\<open>updateNode\<close>), with the invariant each keeps. The contract of the API server and of EC2
  is stated here as named hypotheses.
\<close>

subsection \<open>Node events\<close>

lemma nodesInProcessing_remove [simp]:
  "nodesInProcessing (removeNodeFromProcessing nm c) = nodesInProcessing c - {nm}"
  "nodeCIDRUpdateChannel (removeNodeFromProcessing nm c) = nodeCIDRUpdateChannel c"
  "recorder (removeNodeFromProcessing nm c) = recorder c"
  "mode (removeNodeFromProcessing nm c) = mode c"
  "reconcileReady (removeNodeFromProcessing nm c) = reconcileReady c"
  "startCtx (removeNodeFromProcessing nm c) = startCtx c"
  "tickPeriod (removeNodeFromProcessing nm c) = tickPeriod c"
  "nodeCIDRMaskSizeIPv6 (removeNodeFromProcessing nm c) = nodeCIDRMaskSizeIPv6 c"
  by (simp_all add: removeNodeFromProcessing_def)

text \<open>The parameters of an allocator that no operation changes.\<close>

definition same_params :: "cidrAllocator \<Rightarrow> cidrAllocator \<Rightarrow> bool" where
  "same_params c c' \<longleftrightarrow> list_all2 same_config (cidrSets c) (cidrSets c') \<and> mode c' = mode c
     \<and> reconcileReady c' = reconcileReady c \<and> startCtx c' = startCtx c
     \<and> tickPeriod c' = tickPeriod c \<and> nodeCIDRMaskSizeIPv6 c' = nodeCIDRMaskSizeIPv6 c"

lemma same_params_refl [simp]: "same_params c c"
  by (simp add: same_params_def list.rel_refl)

lemma same_params_trans: "same_params a b \<Longrightarrow> same_params b c \<Longrightarrow> same_params a c"
  unfolding same_params_def
  by (auto intro: list_all2_trans [OF same_config_trans])

lemma same_params_length: "same_params c c' \<Longrightarrow> length (cidrSets c') = length (cidrSets c)"
  by (auto simp: same_params_def dest: list_all2_lengthD)

lemma set_step_params: "set_step c c' \<Longrightarrow> same_params c c'"
  by (simp add: same_params_def set_step_fields) (simp add: set_step_def)

lemma same_params_update [simp]:
  "same_params c (c'\<lparr>nodesInProcessing := N\<rparr>) = same_params c c'"
  "same_params c (c'\<lparr>nodeCIDRUpdateChannel := q\<rparr>) = same_params c c'"
  "same_params c (c'\<lparr>recorder := ev\<rparr>) = same_params c c'"
  "same_params c (removeNodeFromProcessing nm c') = same_params c c'"
  "same_params (c\<lparr>nodesInProcessing := N\<rparr>) c' = same_params c c'"
  "same_params (c\<lparr>recorder := ev\<rparr>) c' = same_params c c'"
  by (simp_all add: same_params_def removeNodeFromProcessing_def)

lemma alloc_inv_cong: "cidrSets c' = cidrSets c \<Longrightarrow> alloc_inv c' = alloc_inv c"
  by (simp add: alloc_inv_def)

lemma set_step_update:
  "set_step (c\<lparr>nodesInProcessing := N\<rparr>) c' \<Longrightarrow> alloc_inv c' \<and> same_params c c'
     \<and> recorder c' = recorder c \<and> nodesInProcessing c' = N
     \<and> nodeCIDRUpdateChannel c' = nodeCIDRUpdateChannel c"
  using set_step_params [of "c\<lparr>nodesInProcessing := N\<rparr>" c']
    set_step_fields [of "c\<lparr>nodesInProcessing := N\<rparr>" c'] set_step_inv by auto

text \<open>Occupation only adds cells.\<close>

lemma on_set_occupy_grows:
  assumes "alloc_inv c" "on_set idx (\<lambda>s. Occupy s n) c = (r, c')" "i < length (cidrSets c)"
  shows "used_at c i \<subseteq> used_at c' i"
proof (cases "idx < length (cidrSets c)")
  case True
  obtain x s ms where s: "Occupy (cidrSets c ! idx) n = (x, s, ms)" by (rule prod_cases3)
  then have "cidrSets c' = (cidrSets c)[idx := s]" using assms(2) True by (auto simp: on_set_def)
  then show ?thesis
    using Occupy_any [OF alloc_inv_nth [OF assms(1) True] s] assms(3) True
    by (auto simp: used_at_def nth_list_update)
next
  case False
  then show ?thesis using assms(2) by (simp add: on_set_def)
qed

lemma occupyLoop_grows:
  "alloc_inv c \<Longrightarrow> occupyLoop env node idx ts c = (r, c') \<Longrightarrow> i < length (cidrSets c) \<Longrightarrow>
    used_at c i \<subseteq> used_at c' i"
proof (induction ts arbitrary: idx c)
  case (Cons t ts)
  show ?case
  proof (cases "ParseCIDR t")
    case None
    then show ?thesis using Cons.prems(2) by simp
  next
    case (Some n)
    show ?thesis
    proof (cases "api_IsIPv6CIDR env n")
      case True
      then show ?thesis using Cons.IH [OF Cons.prems(1)] Cons.prems(2,3) Some by simp
    next
      case False
      obtain x d where d: "on_set idx (\<lambda>s. Occupy s (Some n)) c = (x, d)" by (rule prod.exhaust)
      have sd: "set_step c d" by (rule on_set_occupy_step [OF Cons.prems(1) d])
      have g: "used_at c i \<subseteq> used_at d i" by (rule on_set_occupy_grows [OF Cons.prems(1) d Cons.prems(3)])
      have "c' = d \<or> occupyLoop env node (idx + 1) ts d = (r, c')"
        using Cons.prems(2) Some False d by (auto split: sum.splits)
      then show ?thesis
        using g Cons.IH [OF set_step_inv [OF sd]] Cons.prems(3) set_step_fields(12) [OF sd] by fastforce
    qed
  qed
qed simp

subsection \<open>The contract of the API server and of EC2\<close>

text \<open>
  A JSON merge patch (RFC 7386) on the two fields of the spec that the program patches.
\<close>

fun json_field :: "string \<Rightarrow> json \<Rightarrow> json option" where
  "json_field k (JObject kvs) = map_of kvs k"
| "json_field k _ = None"

definition json_string :: "json \<Rightarrow> string option" where
  "json_string j = (case j of JString t \<Rightarrow> Some t | _ \<Rightarrow> None)"

definition merge_patch :: "json \<Rightarrow> Node \<Rightarrow> Node" where
  "merge_patch j node =
     (case json_field ''spec'' j of None \<Rightarrow> node
      | Some s \<Rightarrow> node\<lparr>
          PodCIDR := (case json_field ''podCIDR'' s of Some (JString t) \<Rightarrow> t | _ \<Rightarrow> PodCIDR node),
          PodCIDRs := (case json_field ''podCIDRs'' s of
             Some (JArray ts) \<Rightarrow> List.map_filter json_string ts | _ \<Rightarrow> PodCIDRs node)\<rparr>)"

definition patched :: "string \<Rightarrow> json \<Rightarrow> Node list \<Rightarrow> Node list" where
  "patched n j nodes = map (\<lambda>x. if Name x = n then merge_patch j x else x) nodes"

text \<open>
  What the development assumes of the clients, for the nodes \<open>cluster w\<close> stored in the state
  \<open>w\<close> of the world: reads return what is stored and change nothing, a patch that is
  acknowledged was applied, and a patch that failed was applied or not.
\<close>

definition api_contract :: "'w api \<Rightarrow> ('w \<Rightarrow> Node list) \<Rightarrow> bool" where
  "api_contract env cluster \<longleftrightarrow>
     (\<forall>n w r w'. api_Get env n w = (r, w') \<longrightarrow> cluster w' = cluster w
        \<and> (\<forall>node. r = Inr node \<longrightarrow> node \<in> set (cluster w) \<and> Name node = n))
   \<and> (\<forall>w r w'. api_List env w = (r, w') \<longrightarrow> cluster w' = cluster w \<and> (\<forall>ns. r = Inr ns \<longrightarrow> ns = cluster w))
   \<and> (\<forall>i w r w'. api_DescribeNetworkInterfaces env i w = (r, w') \<longrightarrow> cluster w' = cluster w)
   \<and> (\<forall>n j w r w'. api_Patch env n j w = (r, w') \<longrightarrow>
        (case r of None \<Rightarrow> n \<in> Name ` set (cluster w) \<and> cluster w' = patched n j (cluster w)
         | Some e \<Rightarrow> cluster w' = cluster w \<or> cluster w' = patched n j (cluster w)))"

text \<open>
  The prefixes EC2 answers with are IPv6 prefixes in CIDR notation: an IPv6 address without a
  zone that is not IPv4-mapped, and the number of bits.
\<close>

definition ipv6_prefix :: "string \<Rightarrow> bool" where
  "ipv6_prefix t \<longleftrightarrow> (\<exists>a k ip. t = a @ ''/'' @ Itoa k \<and> CHR ''/'' \<notin> set a \<and> k \<le> 128
     \<and> ParseAddr a = Some (Addr6 ip []) \<and> length ip = 16 \<and> to4 ip = [])"

definition ec2_prefixes_ok :: "'w api \<Rightarrow> bool" where
  "ec2_prefixes_ok env \<longleftrightarrow>
     (\<forall>f w enis w'. api_DescribeNetworkInterfaces env f w = (Inr enis, w') \<longrightarrow>
        (\<forall>eni\<in>set enis. \<forall>p\<in>set (Ipv6Prefixes eni). \<exists>t. p = Some t \<and> ipv6_prefix t))"

text \<open>The program keeps them IPv6 prefixes when it changes the mask, and they are not IPv4.\<close>

lemma changeNetmask_text:
  assumes "CHR ''/'' \<notin> set a" "int old < 2 ^ 63" "int new < 2 ^ 63"
  shows "changeNetmask (a @ ''/'' @ Itoa old) (fmt_int (int new)) = Inr (a @ ''/'' @ Itoa (max old new))"
proof -
  have "Split CHR ''/'' (a @ ''/'' @ Itoa old) = [a, Itoa old]"
    using Split_append [OF assms(1), of "Itoa old"] Split_none [OF Itoa_no_sep(2)] by simp
  then show ?thesis
    using Atoi_Itoa [OF assms(2)] Atoi_Itoa [OF assms(3)] by (simp add: changeNetmask_def fmt_int_def max_def)
qed

lemma changeNetmask_ipv6:
  assumes "ipv6_prefix t" "0 \<le> m" "m \<le> 128" "changeNetmask t (fmt_int m) = Inr u"
  shows "ipv6_prefix u"
proof -
  obtain a k ip where t: "t = a @ ''/'' @ Itoa k" "CHR ''/'' \<notin> set a" "k \<le> 128"
    "ParseAddr a = Some (Addr6 ip [])" "length ip = 16" "to4 ip = []"
    using assms(1) by (auto simp: ipv6_prefix_def)
  have "u = a @ ''/'' @ Itoa (max k (nat m))"
    using changeNetmask_text [OF t(2), of k "nat m"] t(1,3) assms(2-4) by simp
  moreover have "max k (nat m) \<le> 128" using t(3) assms(2,3) by simp
  ultimately show ?thesis using t unfolding ipv6_prefix_def by blast
qed

lemma ipv6_prefix_std:
  assumes "ipv6_prefix t"
  shows "v4_net t = None" "std_cidrs [t]"
proof -
  obtain a k ip where t: "t = a @ ''/'' @ Itoa k" "CHR ''/'' \<notin> set a" "k \<le> 128"
    "ParseAddr a = Some (Addr6 ip [])" "length ip = 16" "to4 ip = []"
    using assms by (auto simp: ipv6_prefix_def)
  obtain n where "ParseCIDR t = Some n" "canon 16 k n"
    using ParseCIDR_v6 [OF t(2,4-6,3)] t(1) by blast
  then show "v4_net t = None" "std_cidrs [t]" by (auto simp: v4_net_def dest: canonD(1))
qed

lemma fetchIPv6Address_prefix:
  assumes "ec2_prefixes_ok env" "fetchIPv6Address env node w = (Inr p, w')"
  shows "ipv6_prefix p"
  using assms(2)
  by (auto simp: fetchIPv6Address_def split: if_splits option.splits list.splits prod.splits sum.splits
      dest!: assms(1) [unfolded ec2_prefixes_ok_def, rule_format])

lemma api_contractD:
  assumes "api_contract env cluster"
  shows "api_Get env n w = (r, w') \<Longrightarrow> cluster w' = cluster w"
    "api_Get env n w = (Inr node, w') \<Longrightarrow> node \<in> set (cluster w) \<and> Name node = n"
    "api_List env w = (r', w') \<Longrightarrow> cluster w' = cluster w"
    "api_List env w = (Inr ns, w') \<Longrightarrow> ns = cluster w"
    "api_DescribeNetworkInterfaces env i w = (d, w') \<Longrightarrow> cluster w' = cluster w"
    "api_Patch env n j w = (None, w') \<Longrightarrow> n \<in> Name ` set (cluster w) \<and> cluster w' = patched n j (cluster w)"
    "api_Patch env n j w = (Some e, w') \<Longrightarrow> cluster w' = cluster w \<or> cluster w' = patched n j (cluster w)"
  using assms unfolding api_contract_def by (fastforce split: option.splits)+

lemma merge_patch_marshal:
  assumes "cs \<noteq> []"
  shows "Name (merge_patch (marshal_patch \<lparr>patchSpec = Some \<lparr>patchPodCIDR = c0, patchPodCIDRs = cs\<rparr>,
           patchMetadata = None\<rparr>) x) = Name x"
    "PodCIDRs (merge_patch (marshal_patch \<lparr>patchSpec = Some \<lparr>patchPodCIDR = c0, patchPodCIDRs = cs\<rparr>,
           patchMetadata = None\<rparr>) x) = cs"
  using assms
  by (simp_all add: merge_patch_def marshal_patch_def marshal_spec_def json_string_def
      List.map_filter_def o_def)

subsection \<open>Writing the CIDRs of a node\<close>

text \<open>The part of the cluster the argument is about: the names of the nodes with their CIDRs.\<close>

definition view :: "Node list \<Rightarrow> (string \<times> string list) list" where
  "view nodes = map (\<lambda>n. (Name n, PodCIDRs n)) nodes"

definition set_cidrs :: "string \<Rightarrow> string list \<Rightarrow> (string \<times> string list) list \<Rightarrow> (string \<times> string list) list" where
  "set_cidrs nm ts v = map (\<lambda>(n, p). (n, if n = nm then ts else p)) v"

lemma set_cidrs_twice [simp]: "set_cidrs nm ts (set_cidrs nm us v) = set_cidrs nm ts v"
  by (simp add: set_cidrs_def split_def)

lemma fst_set_cidrs [simp]: "map fst (set_cidrs nm ts v) = map fst v"
  by (simp add: set_cidrs_def split_def)

lemma view_patched:
  "cs \<noteq> [] \<Longrightarrow> view (patched nm (marshal_patch \<lparr>patchSpec = Some \<lparr>patchPodCIDR = c0, patchPodCIDRs = cs\<rparr>,
      patchMetadata = None\<rparr>) nodes) = set_cidrs nm cs (view nodes)"
  by (simp add: view_def patched_def set_cidrs_def merge_patch_marshal)

lemma mset_order_cidrs: "mset (order_cidrs cs md fam) = mset cs"
  by (simp add: order_cidrs_def)

text \<open>Sorting the two CIDRs of a dual-stack node keeps its IPv4 networks, when it has at most one.\<close>

lemma v4_nets_order:
  assumes "length (v4_nets cs) \<le> 1 \<or> md \<noteq> DualStack"
  shows "v4_nets (order_cidrs cs md fam) = v4_nets cs"
proof (cases "md = DualStack \<and> length cs = 2")
  case True
  then obtain a b where ab: "cs = [a, b]" by (auto simp: length_Suc_conv numeral_2_eq_2)
  have "sort_key f [a, b] = [a, b] \<or> sort_key f [a, b] = [b, a]" for f :: "string \<Rightarrow> nat"
    by simp
  then have "order_cidrs cs md fam = [a, b] \<or> order_cidrs cs md fam = [b, a]"
    unfolding order_cidrs_def ab by presburger
  then show ?thesis
    using assms True ab by (auto split: option.splits)
next
  case False
  then show ?thesis by (auto simp: order_cidrs_def DualStack_def)
qed

lemma std_order: "std_cidrs (order_cidrs cs md fam) = std_cidrs cs"
  using mset_eq_setD [OF mset_order_cidrs] unfolding std_cidrs_def by metis

text \<open>
  The CIDRs to be written for the reserved networks \<open>ns\<close>: texts of canonical networks, of
  which the IPv4 ones are the reserved ones, or none (a node of an IPv6 cluster).
\<close>

definition texts_for :: "string \<Rightarrow> IPNet list \<Rightarrow> string list \<Rightarrow> bool" where
  "texts_for md ns ts \<longleftrightarrow> ts \<noteq> [] \<and> std_cidrs ts \<and> (v4_nets ts = ns \<or> v4_nets ts = [])
     \<and> (md = DualStack \<longrightarrow> length (v4_nets ts) \<le> 1 \<or> length ts \<noteq> 2)"

lemma texts_for_order:
  assumes t: "texts_for md ns ts"
  shows "texts_for md ns (order_cidrs ts md fam)"
proof -
  have len: "length (order_cidrs ts md fam) = length ts"
    by (rule mset_eq_length [OF mset_order_cidrs])
  have "order_cidrs ts md fam = ts" if "md = DualStack" "length ts \<noteq> 2"
    using that by (simp add: order_cidrs_def)
  then have "v4_nets (order_cidrs ts md fam) = v4_nets ts"
    using t v4_nets_order [of ts md fam] by (cases "md = DualStack") (auto simp: texts_for_def)
  moreover have "order_cidrs ts md fam \<noteq> []" using t len by (auto simp: texts_for_def)
  ultimately show ?thesis using t len unfolding texts_for_def std_order by metis
qed

text \<open>
  The attempts to patch: an acknowledged patch leaves the texts in the node; a failed
  attempt may have written them as well, or not.
\<close>

lemma PatchNodePodCIDRs_cases:
  assumes api: "api_contract env cluster" and t: "texts_for md ns ts"
    and p: "PatchNodePodCIDRs (api_Patch env) w node ts md fam = (r, w', ts')"
  shows "ts' = order_cidrs ts md fam"
    "r = Inr u \<Longrightarrow> Name node \<in> Name ` set (cluster w)
       \<and> view (cluster w') = set_cidrs (Name node) ts' (view (cluster w))"
    "r = Inl e \<Longrightarrow> (\<exists>e'. e = ErrorfV ''error applying patch to node: %v'' [] e')
       \<and> (view (cluster w') = view (cluster w)
          \<or> view (cluster w') = set_cidrs (Name node) ts' (view (cluster w)))"
proof -
  obtain c0 cs where o: "order_cidrs ts md fam = c0 # cs"
    using texts_for_order [OF t, of fam] by (cases "order_cidrs ts md fam") (auto simp: texts_for_def)
  let ?j = "marshal_patch \<lparr>patchSpec = Some \<lparr>patchPodCIDR = c0, patchPodCIDRs = c0 # cs\<rparr>,
      patchMetadata = None\<rparr>"
  obtain err w1 where a: "api_Patch env (Name node) ?j w = (err, w1)" by (rule prod.exhaust)
  have e: "ts' = c0 # cs" "w1 = w'" "r = (case err of None \<Rightarrow> Inr ()
      | Some e \<Rightarrow> Inl (ErrorfV ''error applying patch to node: %v'' [] e))"
    using p a by (auto simp: PatchNodePodCIDRs_def o Let_def split: option.splits)
  show "ts' = order_cidrs ts md fam" by (simp add: o e)
  have vw: "view (patched (Name node) ?j nodes) = set_cidrs (Name node) ts' (view nodes)" for nodes
    by (simp add: e(1) view_patched)
  show "r = Inr u \<Longrightarrow> Name node \<in> Name ` set (cluster w)
       \<and> view (cluster w') = set_cidrs (Name node) ts' (view (cluster w))"
    using e(2,3) a api_contractD(6) [OF api] vw by (fastforce split: option.splits)
  show "r = Inl e \<Longrightarrow> (\<exists>e'. e = ErrorfV ''error applying patch to node: %v'' [] e')
       \<and> (view (cluster w') = view (cluster w)
          \<or> view (cluster w') = set_cidrs (Name node) ts' (view (cluster w)))"
    using e(2,3) a api_contractD(7) [OF api] vw by (fastforce split: option.splits)
qed

subsection \<open>The texts of reserved blocks\<close>

text \<open>The configurations the theorems on runs are about: IPv4 cluster CIDRs and an IPv6 mask size.\<close>

definition supported :: "cidrAllocator \<Rightarrow> bool" where
  "supported c \<longleftrightarrow> (\<forall>s\<in>set (cidrSets c). length (IP (clusterCIDR s)) = 4)
     \<and> 0 \<le> nodeCIDRMaskSizeIPv6 c \<and> nodeCIDRMaskSizeIPv6 c \<le> 128"

lemma supported_params:
  assumes "same_params c c'"
  shows "supported c' = supported c"
proof -
  have "(\<forall>s\<in>set (cidrSets c'). length (IP (clusterCIDR s)) = 4)
      \<longleftrightarrow> (\<forall>s\<in>set (cidrSets c). length (IP (clusterCIDR s)) = 4)"
    using assms unfolding same_params_def
    by (metis (no_types, lifting) in_set_conv_nth list_all2_conv_all_nth same_configD(1))
  then show ?thesis using assms by (simp add: supported_def same_params_def)
qed

lemma v4_text:
  assumes "is_canon n" "length (IP n) = 4"
  shows "ParseCIDR (IPNet_String n) = Some n" "v4_net (IPNet_String n) = Some n"
proof -
  obtain l k where "canon l k n" using assms(1) by (auto simp: is_canon_def)
  then have "canon 4 k n" using assms(2) canonD(1) by metis
  then show "ParseCIDR (IPNet_String n) = Some n" by (rule ParseCIDR_String_v4)
  then show "v4_net (IPNet_String n) = Some n" using assms(2) by (simp add: v4_net_def)
qed

lemma v4_nets_texts:
  assumes "\<forall>n\<in>set ns. is_canon n \<and> length (IP n) = 4"
  shows "v4_nets (cidrsAsString ns) = ns" "std_cidrs (cidrsAsString ns)"
  using assms by (induction ns) (auto simp: cidrsAsString_def v4_text)

lemma holds_all_v4:
  assumes h: "holds_all c (placed 0 ns + N)" and l: "length ns \<le> length (cidrSets c)" and v: "supported c"
  shows "\<forall>n\<in>set ns. is_canon n \<and> length (IP n) = 4"
proof
  fix n assume "n \<in> set ns"
  then obtain i where i: "i < length ns" "n = ns ! i" by (auto simp: in_set_conv_nth)
  then have il: "i < length (cidrSets c)" using l by simp
  have "(i, n) \<in># placed 0 ns + N" using i by (simp add: in_placed)
  then have "n \<in># at_set i (placed 0 ns + N)" unfolding at_set_def by force
  then have "is_canon n" "cells_of (cidrSets c ! i) n \<noteq> {}"
    using h il unfolding holds_all_def cs.holds_def by blast+
  moreover have "length (IP (clusterCIDR (cidrSets c ! i))) = 4"
    using v il by (simp add: supported_def)
  ultimately show "is_canon n \<and> length (IP n) = 4"
    by (auto simp: cells_of_def split: if_splits)
qed

lemma fetchIPv6Address_cluster:
  assumes "api_contract env cluster" "fetchIPv6Address env node w = (x, w')"
  shows "cluster w' = cluster w"
  using assms(2) api_contractD(5) [OF assms(1)]
  by (auto simp: fetchIPv6Address_def split: if_splits option.splits list.splits prod.splits sum.splits)

text \<open>What the switch on the mode makes of the texts of the reserved blocks.\<close>

lemma nodeCIDRs_texts:
  assumes api: "api_contract env cluster" and pre: "ec2_prefixes_ok env" and v: "supported c"
    and ns: "\<forall>n\<in>set ns. is_canon n \<and> length (IP n) = 4" and ne: "ns \<noteq> []"
    and r: "nodeCIDRs env node (cidrsAsString ns) c w = (r, w')"
  shows "cluster w' = cluster w" "r = Inr ts \<Longrightarrow> texts_for (mode c) ns ts"
proof -
  show "cluster w' = cluster w"
    using r fetchIPv6Address_cluster [OF api] by (auto simp: nodeCIDRs_def split: if_splits prod.splits sum.splits)
  note tx = v4_nets_texts [OF ns]
  have len: "length (cidrsAsString ns) = length ns" by (simp add: cidrsAsString_def)
  assume ts: "r = Inr ts"
  show "texts_for (mode c) ns ts"
  proof (cases "mode c = DualStack \<or> mode c = IPv6")
    case True
    then obtain p w1 a where a: "fetchIPv6Address env node w = (Inr p, w1)"
      "changeNetmask p (fmt_int (nodeCIDRMaskSizeIPv6 c)) = Inr a"
      "ts = (if mode c = DualStack then cidrsAsString ns @ [a] else [a])"
      using r ts by (auto simp: nodeCIDRs_def split: prod.splits sum.splits)
    have "ipv6_prefix a"
      by (rule changeNetmask_ipv6 [OF fetchIPv6Address_prefix [OF pre a(1)] _ _ a(2)])
        (use v in \<open>simp_all add: supported_def\<close>)
    then have "v4_net a = None" "std_cidrs [a]" by (rule ipv6_prefix_std)+
    then show ?thesis
      using a(3) tx ne len True by (auto simp: texts_for_def std_cidrs_def DualStack_def IPv6_def)
  next
    case False
    then have "ts = cidrsAsString ns" using r ts by (simp add: nodeCIDRs_def)
    moreover have "cidrsAsString ns \<noteq> []" using ne by (simp add: cidrsAsString_def)
    ultimately show ?thesis using False tx by (simp add: texts_for_def)
  qed
qed

subsection \<open>The update of a node\<close>

definition gave_up :: "cidrAllocator \<Rightarrow> bool" where
  "gave_up c \<longleftrightarrow> (\<exists>e\<in>set (recorder c). evReason e = ''CIDRAssignmentFailed'')"

lemma giveUp_gave_up:
  assumes inv: "alloc_inv c" and g: "giveUp env node item err c = (r, c')"
  shows "gave_up c'"
proof -
  let ?c1 = "c\<lparr>recorder := RecordNodeStatusChange (recorder c) node ''CIDRAssignmentFailed''\<rparr>"
  show ?thesis
  proof (cases "api_IsServerTimeout env err")
    case True
    then show ?thesis using g by (auto simp: giveUp_def Let_def gave_up_def RecordNodeStatusChange_def)
  next
    case False
    obtain y d where d: "releaseReserved 0 (reservedCIDRs item) ?c1 = (y, d)" by (rule prod.exhaust)
    have "alloc_inv ?c1" using inv by simp
    from releaseReserved_step [OF this d] have "recorder d = recorder ?c1" by (rule set_step_fields)
    moreover have "c' = d" using g False d by (auto simp: giveUp_def Let_def split: sum.splits)
    ultimately show ?thesis by (auto simp: gave_up_def RecordNodeStatusChange_def)
  qed
qed

subsection \<open>What holds after every operation\<close>

text \<open>
  Whatever the clients answer, and with nodes that hold any text: the sets keep their
  invariant and the recorded events are only appended to.
\<close>

definition extends :: "cidrAllocator \<Rightarrow> cidrAllocator \<Rightarrow> bool" where
  "extends c c' \<longleftrightarrow> alloc_inv c' \<and> (\<exists>es. recorder c' = recorder c @ es)"

lemma extends_refl: "alloc_inv c \<Longrightarrow> extends c c"
  by (simp add: extends_def)

lemma extends_trans: "extends a b \<Longrightarrow> extends b c \<Longrightarrow> extends a c"
  by (auto simp: extends_def)

lemma set_step_extends: "set_step c c' \<Longrightarrow> extends c c'"
  by (auto simp: extends_def set_step_inv set_step_fields)

lemma extends_update [simp]:
  "extends c (c'\<lparr>nodesInProcessing := N\<rparr>) = extends c c'"
  "extends c (c'\<lparr>nodeCIDRUpdateChannel := q\<rparr>) = extends c c'"
  "extends c (c'\<lparr>startCtx := x\<rparr>) = extends c c'"
  "extends c (c'\<lparr>reconcileReady := b, workers := n\<rparr>) = extends c c'"
  "extends c (removeNodeFromProcessing nm c') = extends c c'"
  "extends (c\<lparr>nodesInProcessing := N\<rparr>) c' = extends c c'"
  "extends (c\<lparr>nodeCIDRUpdateChannel := q\<rparr>) c' = extends c c'"
  "extends (c\<lparr>startCtx := x\<rparr>) c' = extends c c'"
  by (simp_all add: extends_def)

lemma extends_event: "extends c c' \<Longrightarrow> extends c (c'\<lparr>recorder := RecordNodeStatusChange (recorder c') node st\<rparr>)"
  by (auto simp: extends_def RecordNodeStatusChange_def)

lemma queueAfterWait_extends:
  "alloc_inv c \<Longrightarrow> queueAfterWait item c = (out, c') \<Longrightarrow> extends c c'"
  by (auto simp: queueAfterWait_def extends_refl split: if_splits)

lemma allocateAndQueue_extends:
  assumes "alloc_inv c" "allocateAndQueue node c = (out, c')"
  shows "extends c c'"
proof -
  obtain r d where l: "allocateLoop 0 (length (cidrSets c)) c = (r, d)" by (rule prod.exhaust)
  have d: "extends c d" by (rule set_step_extends [OF allocateLoop_step [OF assms(1) l]])
  then have inv: "alloc_inv d" by (simp add: extends_def)
  have ev: "extends c (d'\<lparr>recorder := RecordNodeStatusChange (recorder d') node st\<rparr>)" if "extends c d'" for d' st
    by (rule extends_event [OF that])
  show ?thesis
  proof (cases r)
    case (Inl je)
    then show ?thesis
      using assms(2) l d ev [of "removeNodeFromProcessing (Name node) d"]
      by (auto simp: allocateAndQueue_def Let_def split: prod.splits cidr_error.splits)
  next
    case (Inr ns)
    then show ?thesis
      using assms(2) l extends_trans [OF d queueAfterWait_extends [OF inv]]
      by (auto simp: allocateAndQueue_def)
  qed
qed

lemma AllocateOrOccupyCIDR_extends:
  assumes inv: "alloc_inv c" and a: "AllocateOrOccupyCIDR env b np c = (out, c')"
  shows "extends c c'"
proof (cases np)
  case None
  then show ?thesis using a inv by (simp add: AllocateOrOccupyCIDR_def extends_refl)
next
  case (Some node)
  let ?c1 = "c\<lparr>nodesInProcessing := insert (Name node) (nodesInProcessing c)\<rparr>"
  have inv1: "alloc_inv ?c1" using inv by simp
  have base: "extends c ?c1" "extends c c" using inv by (simp_all add: extends_refl)
  have q: "extends c c'" if "allocateAndQueue node ?c1 = (out, c')"
    using allocateAndQueue_extends [OF inv1 that] by simp
  obtain r d where d: "occupyLoop env node 0 (PodCIDRs node) ?c1 = (r, d)" by (rule prod.exhaust)
  have "extends c d" using set_step_extends [OF occupyLoop_step [OF inv1 d]] by simp
  then show ?thesis
    using a Some base q d
    by (auto simp: AllocateOrOccupyCIDR_def insertNodeToProcessing_def allocateAfterWait_def
        allocateAfterWaitNoCtx_def occupyCIDRs_def occupyCIDRsWithoutRemoval_def Let_def split: if_splits)
qed

lemma ReleaseCIDR_extends:
  assumes "alloc_inv c" "ReleaseCIDR env np c = (r, c')"
  shows "extends c c'"
  using assms
  by (auto simp: ReleaseCIDR_def extends_refl split: option.splits if_splits
      intro: set_step_extends releaseLoop_step)

lemma giveUp_extends:
  assumes "alloc_inv c" "giveUp env node item e c = (r, c')"
  shows "extends c c'"
proof -
  let ?c1 = "c\<lparr>recorder := RecordNodeStatusChange (recorder c) node ''CIDRAssignmentFailed''\<rparr>"
  have c1: "extends c ?c1" by (rule extends_event [OF extends_refl [OF assms(1)]])
  show ?thesis
  proof (cases "api_IsServerTimeout env e")
    case True
    then show ?thesis using assms(2) c1 by (simp add: giveUp_def Let_def)
  next
    case False
    obtain x d where d: "releaseReserved 0 (reservedCIDRs item) ?c1 = (x, d)" by (rule prod.exhaust)
    have "set_step ?c1 d" by (rule releaseReserved_step [OF _ d]) (use assms(1) in simp)
    then have "extends c d" by (rule extends_trans [OF c1 set_step_extends])
    moreover have "c' = d" using assms(2) False d by (auto simp: giveUp_def Let_def split: sum.splits)
    ultimately show ?thesis by simp
  qed
qed

lemma updateNode_extends:
  assumes inv: "alloc_inv c" and u: "updateNode env item node c w = (r, c', w')"
  shows "extends c c'"
proof -
  let ?cs = "cidrsAsString (reservedCIDRs item)"
  obtain x d where d: "releaseReserved 0 (reservedCIDRs item) c = (x, d)" by (rule prod.exhaust)
  have sd: "extends c d" by (rule set_step_extends [OF releaseReserved_step [OF inv d]])
  obtain y w1 where n: "nodeCIDRs env node ?cs c w = (y, w1)" by (rule prod.exhaust)
  have self: "extends c c" by (rule extends_refl [OF inv])
  consider "PodCIDRs node = ?cs" | "PodCIDRs node \<noteq> ?cs" "PodCIDRs node \<noteq> []"
    | "PodCIDRs node \<noteq> ?cs" "PodCIDRs node = []" by blast
  then show ?thesis
  proof cases
    case 1
    then show ?thesis using u self by (auto simp: updateNode_def Let_def)
  next
    case 2
    then show ?thesis using u d sd by (auto simp: updateNode_def Let_def split: sum.splits)
  next
    case 3
    show ?thesis
    proof (cases y)
      case (Inl e)
      then show ?thesis using u 3 n self by (auto simp: updateNode_def Let_def)
    next
      case (Inr ts)
      obtain err w2 where p: "patchLoop env node c cidrUpdateRetries None ts w1 = (err, w2)"
        by (rule prod.exhaust)
      have "c' = c \<or> c' = removeNodeFromProcessing (nodeName item) c
          \<or> (\<exists>e. giveUp env node item e c = (r, c'))"
        using u 3 n Inr p
        by (auto simp: updateNode_def Let_def split: option.splits go_err.splits prod.splits)
      then show ?thesis using self giveUp_extends [OF inv] by auto
    qed
  qed
qed

end
