(* ===== verification/Controller.thy ===== *)
theory Controller
  imports Handlers
begin

text \<open>
  The running controller: the allocator, its event handlers and its workers interleaved with
  each other and with the cluster. A step of \<open>sys_step\<close> is one access to shared state: a change
  of the cluster made by others, an entry into or an exit from the nodes in
  processing, one operation on one CIDR set, one operation on the channel, or one call of a
  client. A call of a handler, the release of a deleted node and the round of a worker are
  sequences of such steps, and between two of them anything else may happen.

  The handlers get node objects from the informer's cache, which lags behind the cluster: the
  event of a node may carry any object, and any number of calls may be on their way.
\<close>

subsection \<open>State and steps\<close>

text \<open>
  Where a call of \<open>AllocateOrOccupyCIDR\<close> stands after its entry: it waits for the
  reconciliation (\<open>Waiting ctx\<close>, with the context of \<open>Start\<close> or without it), it has taken the blocks
  \<open>ns\<close> of the first sets (\<open>Allocating ns\<close>), or it occupies the CIDRs of the node
  (\<open>Occupying idx ts\<close>: the index of the next set and the texts left, none when it is about to
  take its node out of processing). \<open>Failing\<close>: a set was exhausted.
\<close>

datatype call = Waiting bool | Allocating "IPNet list" | Failing | Occupying nat "string list"

text \<open>
  Where a worker stands with an item. \<open>Patching node cidrs n err\<close>: in the loop of attempts for the
  node it read, with the CIDRs to write, \<open>n\<close> attempts left and the error of the last one;
  \<open>Dropping k\<close> and \<open>Giving k\<close>: the reserved blocks from set \<open>k\<close> on are still to be released,
  because the node has other CIDRs or because the last attempt has failed. A worker that has nothing
  to release, because the node has the reserved CIDRs, comes to the end of \<open>Dropping\<close> at
  once; it then takes the node out of processing.
\<close>

datatype phase =
    Taken
  | Read Node
  | Patching Node "string list" nat "go_err option"
  | Dropping nat
  | Giving nat
  | Failed

text \<open>
  \<open>handling\<close>: the calls of the handler for added and updated nodes; \<open>waiting\<close>: reservations of
  calls that are ready to be queued; \<open>inflight\<close>: the items in the hands of the workers;
  \<open>deleted\<close>: nodes whose deletion is not yet reported; \<open>releases\<close>: calls of \<open>ReleaseCIDR\<close>, with the
  index of the next set and the texts left. The last field is no state of the program: it
  records that a node was deleted at the one moment at which the program loses track of its
  blocks (see \<open>lost_reply\<close>).
\<close>

record 'w system =
  ctl :: cidrAllocator
  world :: 'w
  handling :: "(Node \<times> call) list"
  waiting :: "NodeReservedCIDRs list"
  inflight :: "(NodeReservedCIDRs \<times> phase) list"
  deleted :: "Node list"
  releases :: "(Node \<times> nat \<times> string list) list"
  lost_node :: bool

text \<open>
  A node whose CIDRs were written by an attempt that was reported as failed, while the worker
  is in its loop: when such a node is deleted and created again under its name, the next
  attempt writes blocks into it that the deletion has released. The program does nothing
  against this.
\<close>

definition lost_reply :: "'w system \<Rightarrow> Node \<Rightarrow> bool" where
  "lost_reply s node \<longleftrightarrow> v4_nets (PodCIDRs node) \<noteq> []
     \<and> (\<exists>(item, ph)\<in>set (inflight s). nodeName item = Name node
          \<and> (case ph of Patching _ _ _ _ \<Rightarrow> True | _ \<Rightarrow> False))"

text \<open>The index after one CIDR of a node: only the IPv4 ones count.\<close>

definition next_idx :: "'w api \<Rightarrow> string \<Rightarrow> nat \<Rightarrow> nat" where
  "next_idx env t idx = (case ParseCIDR t of
     Some n \<Rightarrow> if api_IsIPv6CIDR env n then idx else Suc idx | None \<Rightarrow> idx)"

abbreviation failed_event :: "Node \<Rightarrow> string \<Rightarrow> cidrAllocator \<Rightarrow> cidrAllocator" where
  "failed_event node st c \<equiv> c\<lparr>recorder := RecordNodeStatusChange (recorder c) node st\<rparr>"

inductive sys_step :: "'w api \<Rightarrow> ('w \<Rightarrow> Node list) \<Rightarrow> 'w system \<Rightarrow> 'w system \<Rightarrow> bool"
  for env :: "'w api" and cluster :: "'w \<Rightarrow> Node list" where
  node_created: "cluster w' = cluster (world s) @ [node] \<Longrightarrow> PodCIDRs node = [] \<Longrightarrow>
    Name node \<notin> Name ` set (cluster (world s)) \<Longrightarrow>
    sys_step env cluster s (s\<lparr>world := w'\<rparr>)"
| node_changed: "view (cluster w') = view (cluster (world s)) \<Longrightarrow>
    sys_step env cluster s (s\<lparr>world := w'\<rparr>)"
| node_deleted: "cluster (world s) = xs @ node # ys \<Longrightarrow> cluster w' = xs @ ys \<Longrightarrow>
    PodCIDRs seen = PodCIDRs node \<or> PodCIDRs seen = [] \<Longrightarrow>
    sys_step env cluster s (s\<lparr>world := w', deleted := deleted s @ [seen],
      lost_node := lost_node s \<or> lost_reply s node\<rparr>)"
| stopped: "sys_step env cluster s (s\<lparr>ctl := (ctl s)\<lparr>startCtx := Some True\<rparr>\<rparr>)"
| call_enters: "insertNodeToProcessing (Name node) (ctl s) = (True, c) \<Longrightarrow>
    sys_step env cluster s (s\<lparr>ctl := c, handling := handling s @ [(node,
      if PodCIDRs node = [] then Waiting (startCtx c \<noteq> None) else Occupying 0 (PodCIDRs node))]\<rparr>)"
| call_cancelled: "handling s = xs @ (node, Waiting True) # ys \<Longrightarrow> startCtx (ctl s) = Some True \<Longrightarrow>
    sys_step env cluster s (s\<lparr>ctl := removeNodeFromProcessing (Name node) (ctl s), handling := xs @ ys\<rparr>)"
| call_ready: "handling s = xs @ (node, Waiting b) # ys \<Longrightarrow> reconcileReady (ctl s) \<Longrightarrow>
    sys_step env cluster s (s\<lparr>handling := xs @ (node, Allocating []) # ys\<rparr>)"
| call_allocates: "handling s = xs @ (node, Allocating ns) # ys \<Longrightarrow> length ns < length (cidrSets (ctl s)) \<Longrightarrow>
    on_set (length ns) AllocateNext (ctl s) = (Inr n, c) \<Longrightarrow>
    sys_step env cluster s (s\<lparr>ctl := c, handling := xs @ (node, Allocating (ns @ [n])) # ys\<rparr>)"
| call_fails: "handling s = xs @ (node, Allocating ns) # ys \<Longrightarrow> length ns < length (cidrSets (ctl s)) \<Longrightarrow>
    on_set (length ns) AllocateNext (ctl s) = (Inl e, c) \<Longrightarrow> (\<And>p. e \<noteq> CidrPanic p) \<Longrightarrow>
    sys_step env cluster s (s\<lparr>ctl := c, handling := xs @ (node, Failing) # ys\<rparr>)"
| call_failed: "handling s = xs @ (node, Failing) # ys \<Longrightarrow>
    sys_step env cluster s (s\<lparr>ctl := failed_event node ''CIDRNotAvailable''
      (removeNodeFromProcessing (Name node) (ctl s)), handling := xs @ ys\<rparr>)"
| call_queues: "handling s = xs @ (node, Allocating ns) # ys \<Longrightarrow> length ns = length (cidrSets (ctl s)) \<Longrightarrow>
    sys_step env cluster s (s\<lparr>handling := xs @ ys,
      waiting := waiting s @ [\<lparr>reservedCIDRs = ns, nodeName = Name node\<rparr>]\<rparr>)"
| call_occupies: "handling s = xs @ (node, Occupying idx (t # ts)) # ys \<Longrightarrow>
    occupyLoop env node idx [t] (ctl s) = (Inr u, c) \<Longrightarrow>
    sys_step env cluster s (s\<lparr>ctl := c, handling := xs @ (node, Occupying (next_idx env t idx) ts) # ys\<rparr>)"
| call_stops: "handling s = xs @ (node, Occupying idx (t # ts)) # ys \<Longrightarrow>
    occupyLoop env node idx [t] (ctl s) = (Inl e, c) \<Longrightarrow> (\<And>p. e \<noteq> GoPanic p) \<Longrightarrow>
    sys_step env cluster s (s\<lparr>ctl := c, handling := xs @ (node, Occupying idx []) # ys\<rparr>)"
| call_occupied: "handling s = xs @ (node, Occupying idx []) # ys \<Longrightarrow>
    sys_step env cluster s (s\<lparr>ctl := removeNodeFromProcessing (Name node) (ctl s), handling := xs @ ys\<rparr>)"
| unblocked: "waiting s = xs @ item # ys \<Longrightarrow> queueAfterWait item (ctl s) = (Returned r, c) \<Longrightarrow>
    sys_step env cluster s (s\<lparr>ctl := c, waiting := xs @ ys\<rparr>)"
| delete_event: "deleted s = xs @ node # ys \<Longrightarrow>
    sys_step env cluster s (s\<lparr>deleted := xs @ ys, releases := releases s @ [(node, 0, PodCIDRs node)]\<rparr>)"
| release_next: "releases s = xs @ (node, idx, t # ts) # ys \<Longrightarrow>
    releaseLoop env node idx [t] (ctl s) = (Inr u, c) \<Longrightarrow>
    sys_step env cluster s (s\<lparr>ctl := c, releases := xs @ (node, next_idx env t idx, ts) # ys\<rparr>)"
| release_stops: "releases s = xs @ (node, idx, t # ts) # ys \<Longrightarrow>
    releaseLoop env node idx [t] (ctl s) = (Inl e, c) \<Longrightarrow> (\<And>p. e \<noteq> GoPanic p) \<Longrightarrow>
    sys_step env cluster s (s\<lparr>ctl := c, releases := xs @ ys\<rparr>)"
| release_done: "releases s = xs @ (node, idx, []) # ys \<Longrightarrow>
    sys_step env cluster s (s\<lparr>releases := xs @ ys\<rparr>)"
| worker_take: "nodeCIDRUpdateChannel (ctl s) = item # rest \<Longrightarrow>
    sys_step env cluster s
      (s\<lparr>ctl := (ctl s)\<lparr>nodeCIDRUpdateChannel := rest\<rparr>, inflight := inflight s @ [(item, Taken)]\<rparr>)"
| worker_read: "inflight s = xs @ (item, Taken) # ys \<Longrightarrow> 0 < tickPeriod (ctl s) \<Longrightarrow>
    api_Get env (nodeName item) (world s) = (r, w') \<Longrightarrow>
    sys_step env cluster s
      (s\<lparr>world := w', inflight := xs @ (item, case r of Inl e \<Rightarrow> Failed | Inr node \<Rightarrow> Read node) # ys\<rparr>)"
| worker_match: "inflight s = xs @ (item, Read node) # ys \<Longrightarrow>
    PodCIDRs node = cidrsAsString (reservedCIDRs item) \<Longrightarrow>
    sys_step env cluster s (s\<lparr>inflight := xs @ (item, Dropping (length (reservedCIDRs item))) # ys\<rparr>)"
| worker_drop: "inflight s = xs @ (item, Read node) # ys \<Longrightarrow>
    PodCIDRs node \<noteq> cidrsAsString (reservedCIDRs item) \<Longrightarrow> PodCIDRs node \<noteq> [] \<Longrightarrow>
    sys_step env cluster s (s\<lparr>inflight := xs @ (item, Dropping 0) # ys\<rparr>)"
| worker_drops: "inflight s = xs @ (item, Dropping k) # ys \<Longrightarrow> k < length (reservedCIDRs item) \<Longrightarrow>
    releaseReserved k [reservedCIDRs item ! k] (ctl s) = (Inr u, c) \<Longrightarrow>
    sys_step env cluster s (s\<lparr>ctl := c, inflight := xs @ (item, Dropping (Suc k)) # ys\<rparr>)"
| worker_dropped: "inflight s = xs @ (item, Dropping k) # ys \<Longrightarrow> length (reservedCIDRs item) \<le> k \<Longrightarrow>
    sys_step env cluster s (s\<lparr>ctl := removeNodeFromProcessing (nodeName item) (ctl s), inflight := xs @ ys\<rparr>)"
| worker_choose: "inflight s = xs @ (item, Read node) # ys \<Longrightarrow>
    PodCIDRs node = [] \<Longrightarrow> cidrsAsString (reservedCIDRs item) \<noteq> [] \<Longrightarrow>
    nodeCIDRs env node (cidrsAsString (reservedCIDRs item)) (ctl s) (world s) = (r, w') \<Longrightarrow>
    (\<And>p. r \<noteq> Inl (GoPanic p)) \<Longrightarrow>
    sys_step env cluster s (s\<lparr>world := w', inflight :=
      xs @ (item, case r of Inl e \<Rightarrow> Failed | Inr ts \<Rightarrow> Patching node ts cidrUpdateRetries None) # ys\<rparr>)"
| worker_patch: "inflight s = xs @ (item, Patching node ts (Suc n) err) # ys \<Longrightarrow>
    PatchNodePodCIDRs (api_Patch env) (world s) node ts (mode (ctl s)) (primaryIPFamily (ctl s))
      = (Inr u, w', ts') \<Longrightarrow>
    sys_step env cluster s (s\<lparr>world := w', inflight := xs @ (item, Dropping (length (reservedCIDRs item))) # ys\<rparr>)"
| worker_retry: "inflight s = xs @ (item, Patching node ts (Suc n) err) # ys \<Longrightarrow>
    PatchNodePodCIDRs (api_Patch env) (world s) node ts (mode (ctl s)) (primaryIPFamily (ctl s))
      = (Inl e, w', ts') \<Longrightarrow> (\<And>p. e \<noteq> GoPanic p) \<Longrightarrow>
    sys_step env cluster s (s\<lparr>world := w', inflight := xs @ (item, Patching node ts' n (Some e)) # ys\<rparr>)"
| worker_give_up: "inflight s = xs @ (item, Patching node ts 0 (Some err)) # ys \<Longrightarrow>
    sys_step env cluster s (s\<lparr>ctl := failed_event node ''CIDRAssignmentFailed'' (ctl s),
      inflight := xs @ (item, if api_IsServerTimeout env err then Failed else Giving 0) # ys\<rparr>)"
| worker_gives: "inflight s = xs @ (item, Giving k) # ys \<Longrightarrow> k < length (reservedCIDRs item) \<Longrightarrow>
    releaseReserved k [reservedCIDRs item ! k] (ctl s) = (Inr u, c) \<Longrightarrow>
    sys_step env cluster s (s\<lparr>ctl := c, inflight := xs @ (item, Giving (Suc k)) # ys\<rparr>)"
| worker_gave: "inflight s = xs @ (item, Giving k) # ys \<Longrightarrow> length (reservedCIDRs item) \<le> k \<Longrightarrow>
    sys_step env cluster s (s\<lparr>inflight := xs @ (item, Failed) # ys\<rparr>)"
| worker_requeue: "inflight s = xs @ (item, Failed) # ys \<Longrightarrow>
    queueAfterWait item (ctl s) = (Returned r, c) \<Longrightarrow>
    sys_step env cluster s (s\<lparr>ctl := c, inflight := xs @ ys\<rparr>)"

text \<open>
  The states a run starts in: \<open>Start\<close> has returned to its wait for the end of the context,
  the CIDRs of the nodes it listed are texts of canonical networks, no two nodes share a
  block, and no deletion is pending. Calls of the handler may have been made before: they wait for the
  reconciliation or occupy the CIDRs of their node.
\<close>

definition sys_start :: "'w api \<Rightarrow> ('w \<Rightarrow> Node list) \<Rightarrow> cidrAllocator \<Rightarrow> 'w system \<Rightarrow> bool" where
  "sys_start env cluster c0 s \<longleftrightarrow>
     (\<exists>w0. Start env True c0 w0 = (Inr (), ctl s, world s))
     \<and> alloc_inv c0 \<and> supported c0 \<and> recorder c0 = [] \<and> nodeCIDRUpdateChannel c0 = []
     \<and> (\<forall>x\<in>set (handling s). \<forall>ns. snd x \<noteq> Allocating ns)
     \<and> distinct (map (\<lambda>x. Name (fst x)) (handling s))
     \<and> (\<forall>x\<in>set (handling s). Name (fst x) \<in> nodesInProcessing c0)
     \<and> waiting s = [] \<and> inflight s = [] \<and> deleted s = [] \<and> releases s = [] \<and> \<not> lost_node s
     \<and> distinct (map Name (cluster (world s)))
     \<and> (\<forall>n\<in>set (cluster (world s)). std_cidrs (PodCIDRs n))
     \<and> sorted_wrt (\<lambda>a b. apart c0 (node_nets b) (node_nets a)) (cluster (world s))"

subsection \<open>The invariant\<close>

definition items :: "'w system \<Rightarrow> NodeReservedCIDRs list" where
  "items s = nodeCIDRUpdateChannel (ctl s) @ waiting s @ map fst (inflight s)"

text \<open>The names of the nodes the program is at work on.\<close>

definition busy :: "'w system \<Rightarrow> string list" where
  "busy s = map nodeName (items s) @ map (\<lambda>x. Name (fst x)) (handling s)"

text \<open>
  What an item in the hands of a worker holds: the part of its reservation that is not yet released,
  and nothing once an attempt has written it into the node, which holds it then.
\<close>

fun claim :: "(string \<times> string list) list \<Rightarrow> NodeReservedCIDRs \<times> phase \<Rightarrow> (nat \<times> IPNet) multiset" where
  "claim v (item, Patching node ts n err) =
     (if \<exists>p\<in>set v. fst p = nodeName item \<and> v4_nets (snd p) \<noteq> [] then {#}
      else placed 0 (reservedCIDRs item))"
| "claim v (item, Dropping k) = placed k (drop k (reservedCIDRs item))"
| "claim v (item, Giving k) = {#}"
| "claim v (item, _) = placed 0 (reservedCIDRs item)"

fun call_holds :: "call \<Rightarrow> (nat \<times> IPNet) multiset" where
  "call_holds (Allocating ns) = placed 0 ns"
| "call_holds _ = {#}"

fun release_holds :: "Node \<times> nat \<times> string list \<Rightarrow> (nat \<times> IPNet) multiset" where
  "release_holds (node, idx, ts) = placed idx (v4_nets ts)"

text \<open>
  What a worker knows of the node in a phase. A worker that gives a reservation up has recorded
  the event of it, and the invariant is about the runs without such an event.
\<close>

fun phase_ok :: "string \<Rightarrow> (string \<times> string list) list \<Rightarrow> NodeReservedCIDRs \<times> phase \<Rightarrow> bool" where
  "phase_ok md v (item, Read node) \<longleftrightarrow> Name node = nodeName item
     \<and> (PodCIDRs node = [] \<longrightarrow> (\<forall>p\<in>set v. fst p = nodeName item \<longrightarrow> snd p = []))"
| "phase_ok md v (item, Patching node ts n err) \<longleftrightarrow> Name node = nodeName item
     \<and> texts_for md (reservedCIDRs item) ts
     \<and> (\<forall>p\<in>set v. fst p = nodeName item \<longrightarrow> v4_nets (snd p) = [] \<or> v4_nets (snd p) = reservedCIDRs item)"
| "phase_ok md v (item, Giving k) \<longleftrightarrow> False"
| "phase_ok md v (item, _) \<longleftrightarrow> True"

text \<open>The holdings of the nodes, of the reservations on their way, and of the deleted nodes.\<close>

definition holders :: "('w \<Rightarrow> Node list) \<Rightarrow> 'w system \<Rightarrow> (nat \<times> IPNet) multiset" where
  "holders cluster s = (\<Sum>p\<in>#mset (view (cluster (world s))). placed 0 (v4_nets (snd p)))
     + ((\<Sum>x\<in>#mset (handling s). call_holds (snd x))
     + (\<Sum>i\<in>#mset (nodeCIDRUpdateChannel (ctl s) @ waiting s). placed 0 (reservedCIDRs i))
     + (\<Sum>x\<in>#mset (inflight s). claim (view (cluster (world s))) x))
     + ((\<Sum>n\<in>#mset (deleted s). placed 0 (node_nets n))
     + (\<Sum>x\<in>#mset (releases s). release_holds x))"

definition call_ok :: "cidrAllocator \<Rightarrow> call \<Rightarrow> bool" where
  "call_ok c p \<longleftrightarrow> (\<forall>ns. p = Allocating ns \<longrightarrow> length ns \<le> length (cidrSets c))"

definition sys_inv :: "('w \<Rightarrow> Node list) \<Rightarrow> 'w system \<Rightarrow> bool" where
  "sys_inv cluster s \<longleftrightarrow>
     holds_all (ctl s) (holders cluster s) \<and> supported (ctl s) \<and> reconcileReady (ctl s)
     \<and> distinct (busy s) \<and> set (busy s) \<subseteq> nodesInProcessing (ctl s)
     \<and> (\<forall>item\<in>set (items s). length (reservedCIDRs item) = length (cidrSets (ctl s)))
     \<and> (\<forall>x\<in>set (handling s). call_ok (ctl s) (snd x))
     \<and> distinct (map fst (view (cluster (world s))))
     \<and> (\<forall>p\<in>set (view (cluster (world s))). std_cidrs (snd p))
     \<and> (\<forall>n\<in>set (deleted s). std_cidrs (PodCIDRs n))
     \<and> (\<forall>x\<in>set (releases s). std_cidrs (snd (snd x)))
     \<and> (\<forall>x\<in>set (inflight s). phase_ok (mode (ctl s)) (view (cluster (world s))) x)"

text \<open>The facts of the invariant, one by one.\<close>

lemma sys_invD:
  assumes "sys_inv cluster s"
  shows "holds_all (ctl s) (holders cluster s)" "supported (ctl s)" "reconcileReady (ctl s)"
    "distinct (busy s)" "set (busy s) \<subseteq> nodesInProcessing (ctl s)"
    "\<And>item. item \<in> set (items s) \<Longrightarrow> length (reservedCIDRs item) = length (cidrSets (ctl s))"
    "distinct (map fst (view (cluster (world s))))"
    "\<And>p. p \<in> set (view (cluster (world s))) \<Longrightarrow> std_cidrs (snd p)"
    "\<And>n. n \<in> set (deleted s) \<Longrightarrow> std_cidrs (PodCIDRs n)"
    "\<And>x. x \<in> set (inflight s) \<Longrightarrow> phase_ok (mode (ctl s)) (view (cluster (world s))) x"
    "\<And>x. x \<in> set (handling s) \<Longrightarrow> call_ok (ctl s) (snd x)"
    "\<And>x. x \<in> set (releases s) \<Longrightarrow> std_cidrs (snd (snd x))"
  using assms by (simp_all add: sys_inv_def)

lemma view_append [simp]: "view (xs @ ys) = view xs @ view ys"
  by (simp add: view_def)

lemma view_Cons [simp]: "view (n # ns) = (Name n, PodCIDRs n) # view ns" "view [] = []"
  by (simp_all add: view_def)

lemma mem_view: "(nm, ts) \<in> set (view nodes) \<longleftrightarrow> (\<exists>n\<in>set nodes. Name n = nm \<and> PodCIDRs n = ts)"
  by (auto simp: view_def)

end
