(* ===== verification/Credentials.thy ===== *)
theory Credentials
  imports NodeUtil
begin

text \<open>
  \<open>pkg/updater/credentials.go\<close>: the AWS credentials from a Kubernetes secret, and the EC2
  client made of them. The Kubernetes and AWS clients are parameters (records of functions);
  byte slices and strings are both \<open>string\<close>, their conversion keeps the bytes.
\<close>

subsection \<open>Constants and data\<close>

definition AccessKeyID :: string where "AccessKeyID = ''accessKeyID''"
definition SecretAccessKey :: string where "SecretAccessKey = ''secretAccessKey''"
definition InClusterConfig :: string where "InClusterConfig = ''inClusterConfig''"
definition WorkloadIdentityTokenFile :: string where
  "WorkloadIdentityTokenFile = ''workloadIdentityTokenFile''"
definition RoleARN :: string where "RoleARN = ''roleARN''"

record AccessKey =
  ak_ID :: string
  ak_Secret :: string

record fileTokenRetriever =
  fileName :: string

record WorkloadIdentity =
  wi_TokenRetriever :: fileTokenRetriever
  wi_RoleARN :: string

record Credentials =
  cred_AccessKey :: "AccessKey option"
  cred_WorkloadIdentity :: "WorkloadIdentity option"

text \<open>The data of a secret: a nil map, or a map.\<close>

type_synonym secret_data = "(string \<rightharpoonup> string) option"

definition secret_get :: "secret_data \<Rightarrow> string \<Rightarrow> string option" where
  "secret_get d k = (case d of None \<Rightarrow> None | Some m \<Rightarrow> m k)"

subsection \<open>Reading a secret\<close>

definition getSecretDataValue ::
  "secret_data \<Rightarrow> string \<Rightarrow> string option \<Rightarrow> bool \<Rightarrow> go_err + string" where
  "getSecretDataValue d key altKey required =
     (case secret_get d key of Some value \<Rightarrow> Inr value
      | None \<Rightarrow>
        (case altKey of
           Some alt \<Rightarrow>
             (case secret_get d alt of Some value \<Rightarrow> Inr value
              | None \<Rightarrow> if required
                  then Inl (Errorf ''missing %q (or %q) field in secret'' [key, alt]) else Inr [])
         | None \<Rightarrow> if required then Inl (Errorf ''missing %q field in secret'' [key]) else Inr []))"

definition extractCredentials :: "secret_data \<Rightarrow> go_err + Credentials" where
  "extractCredentials d =
     (case d of None \<Rightarrow> Inl (Errorf ''secret does not contain any data'' [])
      | Some m \<Rightarrow>
        (case m WorkloadIdentityTokenFile of
           Some file \<Rightarrow>
             if file = [] then Inl (Errorf ''workloadIdentityTokenFile must not be empty'' [])
             else (case m RoleARN of
                 None \<Rightarrow> Inl (Errorf ''roleARN is required'' [])
               | Some arn \<Rightarrow>
                   if arn = [] then Inl (Errorf ''roleARN is required'' [])
                   else Inr \<lparr>cred_AccessKey = None,
                       cred_WorkloadIdentity = Some \<lparr>wi_TokenRetriever = \<lparr>fileName = file\<rparr>,
                                                      wi_RoleARN = arn\<rparr>\<rparr>)
         | None \<Rightarrow>
             (case getSecretDataValue d AccessKeyID None True of Inl e \<Rightarrow> Inl e
              | Inr keyID \<Rightarrow>
                (case getSecretDataValue d SecretAccessKey None True of Inl e \<Rightarrow> Inl e
                 | Inr key \<Rightarrow> Inr \<lparr>cred_AccessKey = Some \<lparr>ak_ID = keyID, ak_Secret = key\<rparr>,
                                  cred_WorkloadIdentity = None\<rparr>))))"

text \<open>The calls of \<open>LoadCredentials\<close> on the Kubernetes client libraries.\<close>

record ('cfg, 'client) kube =
  rest_InClusterConfig :: "go_err + 'cfg"
  BuildConfigFromFlags :: "string \<Rightarrow> string \<Rightarrow> go_err + 'cfg"
  NewForConfig :: "'cfg \<Rightarrow> go_err + 'client"
  Secrets_Get :: "'client \<Rightarrow> string \<Rightarrow> string \<Rightarrow> go_err + secret_data"

definition LoadCredentials ::
  "('cfg, 'client) kube \<Rightarrow> string \<Rightarrow> string \<Rightarrow> string \<Rightarrow> go_err + Credentials" where
  "LoadCredentials k controlKubeconfig namespace secretName =
     (case (if controlKubeconfig = InClusterConfig \<or> controlKubeconfig = []
            then rest_InClusterConfig k else BuildConfigFromFlags k [] controlKubeconfig) of
        Inl e \<Rightarrow> Inl e
      | Inr config \<Rightarrow>
        (case NewForConfig k config of Inl e \<Rightarrow> Inl e
         | Inr clientset \<Rightarrow>
           (case Secrets_Get k clientset namespace secretName of Inl e \<Rightarrow> Inl e
            | Inr secret \<Rightarrow> extractCredentials secret)))"

subsection \<open>The EC2 client\<close>

datatype CredentialsProvider =
    StaticCredentialsProvider string string string
  | WebIdentityRoleProvider string string fileTokenRetriever

record aws_Config =
  Region :: string
  Provider :: "CredentialsProvider option"
  IMDSEndpointMode :: string

text \<open>\<open>load\<close> is \<open>awsconfig.LoadDefaultConfig\<close> with the endpoint mode and the provider.\<close>

definition NewAWSEC2V2 ::
  "(string \<Rightarrow> CredentialsProvider \<Rightarrow> go_err + aws_Config) \<Rightarrow> Credentials \<Rightarrow> string \<Rightarrow> go_err + aws_Config"
where
  "NewAWSEC2V2 load cred region =
     (let provider = (case cred_AccessKey cred of
            Some k \<Rightarrow> Some (StaticCredentialsProvider (ak_ID k) (ak_Secret k) [])
          | None \<Rightarrow> (case cred_WorkloadIdentity cred of
              Some wi \<Rightarrow> Some (WebIdentityRoleProvider region (wi_RoleARN wi) (wi_TokenRetriever wi))
            | None \<Rightarrow> None))
      in case provider of
           None \<Rightarrow> Inl (ErrorString
             ''credentials should either contain access key or workload identity config'')
         | Some p \<Rightarrow>
           (case load ''IPv6'' p of
              Inl e \<Rightarrow> Inl (ErrorfV ''error loading default AWS config: %v'' [] e)
            | Inr config \<Rightarrow> Inr (config\<lparr>Region := region\<rparr>)))"

definition GetIdentityToken ::
  "(string \<Rightarrow> go_err + string) \<Rightarrow> fileTokenRetriever \<Rightarrow> go_err + string" where
  "GetIdentityToken ReadFile f = ReadFile (fileName f)"

subsection \<open>Exactly one kind of credentials\<close>

definition one_kind :: "Credentials \<Rightarrow> bool" where
  "one_kind c \<longleftrightarrow> (cred_AccessKey c = None) \<noteq> (cred_WorkloadIdentity c = None)"

lemma getSecretDataValue_required:
  "getSecretDataValue d k None True =
     (case secret_get d k of None \<Rightarrow> Inl (Errorf ''missing %q field in secret'' [k]) | Some v \<Rightarrow> Inr v)"
  by (simp add: getSecretDataValue_def split: option.split)

lemma extract_one_kind: "extractCredentials d = Inr c \<Longrightarrow> one_kind c"
  by (auto simp: extractCredentials_def one_kind_def split: option.splits if_splits sum.splits)

text \<open>The outcome by the keys the secret has.\<close>

lemma extract_workload:
  assumes "m WorkloadIdentityTokenFile = Some file"
  shows "extractCredentials (Some m) =
    (if file = [] then Inl (Errorf ''workloadIdentityTokenFile must not be empty'' [])
     else if m RoleARN = None \<or> m RoleARN = Some [] then Inl (Errorf ''roleARN is required'' [])
     else Inr \<lparr>cred_AccessKey = None, cred_WorkloadIdentity =
       Some \<lparr>wi_TokenRetriever = \<lparr>fileName = file\<rparr>, wi_RoleARN = the (m RoleARN)\<rparr>\<rparr>)"
  using assms by (auto simp: extractCredentials_def split: option.splits)

lemma extract_static:
  assumes "m WorkloadIdentityTokenFile = None"
  shows "extractCredentials (Some m) =
    (case (m AccessKeyID, m SecretAccessKey) of
       (Some i, Some k) \<Rightarrow> Inr \<lparr>cred_AccessKey = Some \<lparr>ak_ID = i, ak_Secret = k\<rparr>, cred_WorkloadIdentity = None\<rparr>
     | (None, _) \<Rightarrow> Inl (Errorf ''missing %q field in secret'' [AccessKeyID])
     | (Some i, None) \<Rightarrow> Inl (Errorf ''missing %q field in secret'' [SecretAccessKey]))"
  using assms
  by (simp add: extractCredentials_def getSecretDataValue_required secret_get_def split: option.split)

end
