(* ===== verification/Logger.thy ===== *)
theory Logger
  imports NodeUtil
begin

text \<open>
  \<open>pkg/logger\<close>: the choice of the zap level and encoder from two strings. What
  \<open>logzap.New\<close> makes of the options is not modelled: the logger is the list of options it is
  built from.
\<close>

definition DebugLevel :: string where "DebugLevel = ''debug''"
definition InfoLevel :: string where "InfoLevel = ''info''"
definition ErrorLevel :: string where "ErrorLevel = ''error''"
definition FormatJSON :: string where "FormatJSON = ''json''"
definition FormatText :: string where "FormatText = ''text''"

definition AllLogLevels :: "string list" where
  "AllLogLevels = [DebugLevel, InfoLevel, ErrorLevel]"

definition AllLogFormats :: "string list" where
  "AllLogFormats = [FormatJSON, FormatText]"

datatype zap_level = ZapDebug | ZapError | ZapInfo
datatype time_encoder = EpochTimeEncoder | ISO8601TimeEncoder
datatype duration_encoder = SecondsDurationEncoder | StringDurationEncoder

record EncoderConfig =
  EncodeTime :: time_encoder
  EncodeDuration :: duration_encoder

definition setCommonEncoderConfigOptions :: "EncoderConfig \<Rightarrow> EncoderConfig" where
  "setCommonEncoderConfigOptions encoderConfig =
     encoderConfig\<lparr>EncodeTime := ISO8601TimeEncoder, EncodeDuration := StringDurationEncoder\<rparr>"

datatype zap_opt =
    Level zap_level
  | ConsoleEncoder "EncoderConfig \<Rightarrow> EncoderConfig"
  | JSONEncoder "EncoderConfig \<Rightarrow> EncoderConfig"
  | OtherOpt string

definition NewZapLogger :: "string \<Rightarrow> string \<Rightarrow> zap_opt list \<Rightarrow> go_err + zap_opt list" where
  "NewZapLogger level format additionalOpts =
     (let zapLevel = (if level = DebugLevel then Some ZapDebug
            else if level = ErrorLevel then Some ZapError
            else if level = [] \<or> level = InfoLevel then Some ZapInfo
            else None)
      in case zapLevel of None \<Rightarrow> Inl (Errorf ''invalid log level %q'' [level])
         | Some l \<Rightarrow>
           if format = FormatText then
             Inr ([Level l, ConsoleEncoder setCommonEncoderConfigOptions] @ additionalOpts)
           else if format = [] \<or> format = FormatJSON then
             Inr ([Level l, JSONEncoder setCommonEncoderConfigOptions] @ additionalOpts)
           else Inl (Errorf ''invalid log format %q'' [format]))"

text \<open>\<open>utilruntime.Must\<close> panics with the error: \<open>Inl\<close> is the value of the panic.\<close>

definition MustNewZapLogger :: "string \<Rightarrow> string \<Rightarrow> zap_opt list \<Rightarrow> go_err + zap_opt list" where
  "MustNewZapLogger level format additionalOpts = NewZapLogger level format additionalOpts"

lemma NewZapLogger_ok_iff:
  "(\<exists>l. NewZapLogger level format opts = Inr l) \<longleftrightarrow>
     level \<in> insert [] (set AllLogLevels) \<and> format \<in> insert [] (set AllLogFormats)"
  by (auto simp: NewZapLogger_def AllLogLevels_def AllLogFormats_def Let_def)

end
