(* ===== verification/MainProgram.thy ===== *)
theory MainProgram
  imports Controller Credentials Logger
begin

text \<open>
  \<open>main.go\<close>: the flags, the sequence of the program's start with its exits, the parsing of
  the cluster CIDRs and node mask sizes, and the event handlers the informer is given. The
  manager, the client libraries and \<open>k8s.io/utils/net\<close> are parameters.
\<close>

subsection \<open>Flags\<close>

definition leaderElectionId :: string where
  "leaderElectionId = ''aws-ipam-controller-leader-election''"
definition defaultNodeCIDRMaskSizeIPv4 :: int where "defaultNodeCIDRMaskSizeIPv4 = 24"
definition defaultNodeCIDRMaskSizeIPv6 :: int where "defaultNodeCIDRMaskSizeIPv6 = 80"

record flags =
  f_clusterName :: string
  f_clusterCIDRs :: string
  f_nodeCIDRMaskSizeIPv4 :: int
  f_nodeCIDRMaskSizeIPv6 :: int
  f_mode :: string
  f_primaryIPFamily :: string
  f_controlKubeconfig :: string
  f_healthProbePort :: int
  f_metricsPort :: int
  f_namespace :: string
  f_region :: string
  f_secretName :: string
  f_targetKubeconfig :: string
  f_leaderElection :: bool
  f_leaderElectionNamespace :: string
  f_tickPeriod :: int
  f_logLevel :: string
  f_logFormat :: string

text \<open>The flag variables before \<open>pflag.Parse\<close>; durations are in nanoseconds.\<close>

definition default_flags :: flags where
  "default_flags = \<lparr>f_clusterName = [], f_clusterCIDRs = [],
     f_nodeCIDRMaskSizeIPv4 = defaultNodeCIDRMaskSizeIPv4,
     f_nodeCIDRMaskSizeIPv6 = defaultNodeCIDRMaskSizeIPv6,
     f_mode = ''ipv6'', f_primaryIPFamily = ''ipv4'', f_controlKubeconfig = InClusterConfig,
     f_healthProbePort = 8081, f_metricsPort = 8080, f_namespace = [], f_region = [],
     f_secretName = ''cloudprovider'', f_targetKubeconfig = [], f_leaderElection = False,
     f_leaderElectionNamespace = ''kube-system'', f_tickPeriod = 500 * 1000000,
     f_logLevel = InfoLevel, f_logFormat = FormatJSON\<rparr>"

subsection \<open>Helpers\<close>

text \<open>\<open>checkRequiredFlag\<close>: \<open>Some\<close> message and exit status when the value is empty.\<close>

definition checkRequiredFlag :: "string \<Rightarrow> string \<Rightarrow> (string \<times> nat) option" where
  "checkRequiredFlag name val =
     (if val = [] then Some (CHR 0x27 # ''--'' @ name @ CHR 0x27 # '' is required'', 1) else None)"

record netutils =
  ParseCIDRs :: "string list \<Rightarrow> go_err + IPNet list"
  IsDualStackCIDRs :: "IPNet list \<Rightarrow> bool \<times> go_err option"
  IsIPv6CIDR :: "IPNet \<Rightarrow> bool"

definition processCIDRs :: "netutils \<Rightarrow> string \<Rightarrow> go_err + IPNet list \<times> bool" where
  "processCIDRs nu cidrsList =
     (let cidrsSplit = Split CHR '','' (TrimSpace cidrsList) in
      case ParseCIDRs nu cidrsSplit of Inl e \<Rightarrow> Inl e
      | Inr cidrs \<Rightarrow> (let (dualstack, _) = IsDualStackCIDRs nu cidrs in Inr (cidrs, dualstack)))"

definition sortedSizes :: "netutils \<Rightarrow> IPNet list \<Rightarrow> int \<Rightarrow> int \<Rightarrow> int list" where
  "sortedSizes nu cidrs maskSizeIPv4 maskSizeIPv6 =
     map (\<lambda>clusterCIDR. if IsIPv6CIDR nu clusterCIDR then maskSizeIPv6 else maskSizeIPv4) cidrs"

definition setNodeCIDRMaskSizes :: "netutils \<Rightarrow> IPNet list \<Rightarrow> int \<Rightarrow> int \<Rightarrow> go_err + int list" where
  "setNodeCIDRMaskSizes nu cidrs ipv4Mask ipv6Mask =
     (if 1 < length cidrs then Inr (sortedSizes nu cidrs ipv4Mask ipv6Mask)
      else (case cidrs of
          [c] \<Rightarrow> if IsIPv6CIDR nu c then Inr [ipv6Mask] else Inr [ipv4Mask]
        | _ \<Rightarrow> Inr [ipv4Mask]))"


subsection \<open>Event handlers\<close>

text \<open>
  A handler call on the allocator. A call that waits has not returned: it is added to the
  list of waiting calls, with the reservation it holds when it waits for the channel.
\<close>

type_synonym handler_state = "cidrAllocator \<times> (Node \<times> NodeReservedCIDRs option) list"

definition allocate_callback :: "'w api \<Rightarrow> bool \<Rightarrow> handler_state callback" where
  "allocate_callback env b node s =
     (case s of (c, calls) \<Rightarrow>
        (case AllocateOrOccupyCIDR env b (Some node) c of
           (Returned r, c') \<Rightarrow> (r, (c', calls))
         | (WaitReconcile, c') \<Rightarrow> (Inr (), (c', calls @ [(node, None)]))
         | (WaitChannel item, c') \<Rightarrow> (Inr (), (c', calls @ [(node, Some item)]))))"

definition release_callback :: "'w api \<Rightarrow> handler_state callback" where
  "release_callback env node s =
     (case s of (c, calls) \<Rightarrow>
        (let (r, c') = ReleaseCIDR env (Some node) c in (r, (c', calls))))"

text \<open>The closure of \<open>UpdateFunc\<close>: a node that has CIDRs is left alone.\<close>

definition update_callback :: "'w api \<Rightarrow> bool \<Rightarrow> Node \<Rightarrow> handler_state callback" where
  "update_callback env b oldNode newNode s =
     (if PodCIDRs newNode = [] then allocate_callback env b newNode s else (Inr (), s))"

definition AddFunc ::
  "'w api \<Rightarrow> bool \<Rightarrow> informer_obj \<Rightarrow> handler_state \<Rightarrow> (go_panic + go_err list) \<times> handler_state" where
  "AddFunc env b = CreateAddNodeHandler (allocate_callback env b)"

definition UpdateFunc ::
  "'w api \<Rightarrow> bool \<Rightarrow> informer_obj \<Rightarrow> informer_obj \<Rightarrow> handler_state
    \<Rightarrow> (go_panic + go_err list) \<times> handler_state" where
  "UpdateFunc env b = CreateUpdateNodeHandler (update_callback env b)"

definition DeleteFunc ::
  "'w api \<Rightarrow> informer_obj \<Rightarrow> handler_state \<Rightarrow> (go_panic + go_err list) \<times> handler_state" where
  "DeleteFunc env = CreateDeleteNodeHandler (release_callback env)"

subsection \<open>The program\<close>

record manager_options =
  o_LeaderElection :: bool
  o_LeaderElectionResourceLock :: string
  o_LeaderElectionID :: string
  o_LeaderElectionNamespace :: string
  o_MetricsBindAddress :: string
  o_HealthProbeBindAddress :: string

text \<open>The calls of \<open>main\<close> on the manager and the client libraries, by their error.\<close>

record main_env =
  m_netutils :: netutils
  m_BuildConfigFromFlags :: "string \<Rightarrow> string \<Rightarrow> go_err option"
  m_NewManager :: "manager_options \<Rightarrow> go_err option"
  m_GetInformer :: "go_err option"
  m_NewForConfig :: "go_err option"
  m_LoadDefaultConfig :: "string \<Rightarrow> CredentialsProvider \<Rightarrow> go_err + aws_Config"
  m_AddReadyzCheck :: "go_err option"
  m_AddHealthzCheck :: "go_err option"
  m_AddEventHandler :: "go_err option"
  m_Add :: "go_err option"
  m_Start :: "go_err option"

datatype main_result =
    MainPanic go_err
  | Exited nat string
  | Finished "zap_opt list" aws_Config cidrAllocator

text \<open>\<open>if err != nil { klog.Error(err, msg); os.Exit(1) }\<close> in its two forms.\<close>

definition exit_on :: "go_err option \<Rightarrow> string \<Rightarrow> main_result \<Rightarrow> main_result" where
  "exit_on err msg k = (case err of None \<Rightarrow> k | Some e \<Rightarrow> Exited 1 msg)"

definition exit_or :: "go_err + 'a \<Rightarrow> string \<Rightarrow> ('a \<Rightarrow> main_result) \<Rightarrow> main_result" where
  "exit_or r msg k = (case r of Inl e \<Rightarrow> Exited 1 msg | Inr x \<Rightarrow> k x)"

fun required :: "(string \<times> string) list \<Rightarrow> main_result \<Rightarrow> main_result" where
  "required [] k = k"
| "required ((name, val) # rest) k =
     (case checkRequiredFlag name val of Some (msg, st) \<Rightarrow> Exited st msg | None \<Rightarrow> required rest k)"

definition manager_opts :: "flags \<Rightarrow> manager_options" where
  "manager_opts f = \<lparr>o_LeaderElection = f_leaderElection f, o_LeaderElectionResourceLock = ''leases'',
     o_LeaderElectionID = leaderElectionId, o_LeaderElectionNamespace = f_leaderElectionNamespace f,
     o_MetricsBindAddress = CHR '':'' # fmt_int (f_metricsPort f),
     o_HealthProbeBindAddress = CHR '':'' # fmt_int (f_healthProbePort f)\<rparr>"

text \<open>
  From the EC2 client on: the mask sizes, the allocator, its registration with the manager
  and the run of the manager. The client of \<open>NewForConfig\<close> is not nil, since it gave no error.
\<close>

definition main_allocator :: "main_env \<Rightarrow> flags \<Rightarrow> IPNet list \<Rightarrow> zap_opt list \<Rightarrow> aws_Config \<Rightarrow> main_result"
where
  "main_allocator env f cidrs log ec2Client =
     exit_or (setNodeCIDRMaskSizes (m_netutils env) cidrs (f_nodeCIDRMaskSizeIPv4 f) (f_nodeCIDRMaskSizeIPv6 f))
       '' could not set node CIDR mask sizes'' (\<lambda>sizes.
     case NewCIDRRangeAllocator False \<lparr>ClusterCIDRs = cidrs, NodeCIDRMaskSizes = sizes\<rparr>
            (f_mode f) (f_tickPeriod f) (f_nodeCIDRMaskSizeIPv6 f) (f_primaryIPFamily f) False of
       (Inl (CidrPanic (FatalExit msg)), _) \<Rightarrow> Exited 255 msg
     | (Inl (CidrPanic p), _) \<Rightarrow> MainPanic (GoPanic p)
     | (Inl e, _) \<Rightarrow> Exited 1 '' could not create CIDR range allocator''
     | (Inr cidrAllocator, _) \<Rightarrow>
         exit_on (m_AddReadyzCheck env) '' could not add ready checker'' (
         exit_on (m_AddHealthzCheck env) '' could not add healthz checker'' (
         exit_on (m_AddEventHandler env) '' unable to add components informer event handler'' (
         exit_on (m_Add env) '' could not add cidr allocator to manager'' (
         exit_on (m_Start env) '' could not start manager'' (
         Finished log ec2Client cidrAllocator))))))"

text \<open>
  \<open>main\<close> with the flags \<open>f\<close> that parsing leaves in the flag variables. The logger is made
  before \<open>pflag.Parse\<close>, so from the variables' initial values.
\<close>

definition main :: "main_env \<Rightarrow> ('cfg, 'client) kube \<Rightarrow> flags \<Rightarrow> main_result" where
  "main env k f =
     (case MustNewZapLogger (f_logLevel default_flags) (f_logFormat default_flags) [] of
        Inl e \<Rightarrow> MainPanic e
      | Inr log \<Rightarrow>
        required [(''mode'', f_mode f), (''namespace'', f_namespace f), (''secret-name'', f_secretName f),
                  (''cluster-name'', f_clusterName f), (''region'', f_region f),
                  (''target-kubeconfig'', f_targetKubeconfig f)] (
        exit_or (processCIDRs (m_netutils env) (f_clusterCIDRs f)) '' could not parse clusterCIDRs''
          (\<lambda>(cidrs, _).
        exit_on (m_BuildConfigFromFlags env [] (f_targetKubeconfig f)) '' could not use target kubeconfig'' (
        exit_on (m_NewManager env (manager_opts f)) '' could not create manager'' (
        exit_on (m_GetInformer env) '' unable to get setup components informer'' (
        exit_on (m_NewForConfig env) '' could not build coreV1Client'' (
        exit_or (LoadCredentials k (f_controlKubeconfig f) (f_namespace f) (f_secretName f))
          '' could not load AWS credentials'' (\<lambda>cred.
        exit_or (NewAWSEC2V2 (m_LoadDefaultConfig env) cred (f_region f)) '' could not create AWS EC2 client''
          (main_allocator env f cidrs log)))))))))"

subsection \<open>Lemmas\<close>

lemma exit_on_Finished [simp]: "exit_on err msg k = Finished l a c \<longleftrightarrow> err = None \<and> k = Finished l a c"
  by (auto simp: exit_on_def split: option.splits)

lemma exit_or_Finished [simp]:
  "exit_or r msg k = Finished l a c \<longleftrightarrow> (\<exists>x. r = Inr x \<and> k x = Finished l a c)"
  by (auto simp: exit_or_def split: sum.splits)

lemma required_Finished [simp]:
  "required nvs k = Finished l a c \<longleftrightarrow> (\<forall>(n, v)\<in>set nvs. v \<noteq> []) \<and> k = Finished l a c"
  by (induction nvs) (auto simp: checkRequiredFlag_def split: if_splits)

lemma length_newCidrSets:
  "newCidrSets cidrs sizes reg = (Inr ss, reg', ms) \<Longrightarrow> length ss = length cidrs"
  by (induction cidrs sizes reg arbitrary: ss reg' ms rule: newCidrSets.induct)
    (auto split: prod.splits sum.splits)

lemma setNodeCIDRMaskSizes_length:
  "setNodeCIDRMaskSizes nu cidrs a b = Inr sizes \<Longrightarrow> length cidrs \<le> length sizes"
  by (auto simp: setNodeCIDRMaskSizes_def sortedSizes_def split: if_splits list.splits)

end
