(* ===== verification/SystemInv.thy ===== *)
theory SystemInv
  imports Controller
begin

text \<open>
  Every step of the running controller keeps the invariant \<open>sys_inv\<close>, as long as no update is
  given up and no node is lost: one lemma for the steps that leave the cluster alone
  (\<open>inv_step\<close>), one for those that also end a call or an item (\<open>inv_leaves\<close>), and the changes of
  the cluster one by one. Then the invariant of runs, and what it says of two nodes.
\<close>

subsection \<open>Steps of the program\<close>

lemma inv_any:
  assumes i: "sys_inv cluster s" and w: "world s' = world s" and p: "same_params (ctl s) (ctl s')"
    and h: "holds_all (ctl s') (holders cluster s')"
    and b: "distinct (busy s')" "set (busy s') \<subseteq> nodesInProcessing (ctl s')"
    and it: "\<And>x. x \<in> set (items s') \<Longrightarrow> x \<in> set (items s) \<or> length (reservedCIDRs x) = length (cidrSets (ctl s))"
    and c: "\<And>x. x \<in> set (handling s') \<Longrightarrow> x \<in> set (handling s) \<or> call_ok (ctl s) (snd x)"
    and d: "\<And>x. x \<in> set (deleted s') \<Longrightarrow> x \<in> set (deleted s)"
    and r: "\<And>x. x \<in> set (releases s') \<Longrightarrow> x \<in> set (releases s) \<or> std_cidrs (snd (snd x))"
    and f: "\<And>x. x \<in> set (inflight s') \<Longrightarrow> x \<in> set (inflight s)
      \<or> phase_ok (mode (ctl s)) (view (cluster (world s))) x"
  shows "sys_inv cluster s'"
proof -
  have len: "length (cidrSets (ctl s')) = length (cidrSets (ctl s))" by (rule same_params_length [OF p])
  have o: "supported (ctl s')" "reconcileReady (ctl s')" "mode (ctl s') = mode (ctl s)"
    using i supported_params [OF p] p by (simp_all add: sys_inv_def same_params_def)
  have v: "distinct (map fst (view (cluster (world s'))))"
    "\<forall>p\<in>set (view (cluster (world s'))). std_cidrs (snd p)"
    using i by (simp_all add: sys_inv_def w)
  have "\<forall>x\<in>set (items s'). length (reservedCIDRs x) = length (cidrSets (ctl s'))"
    using it sys_invD(6) [OF i] by (auto simp: len)
  moreover have "\<forall>x\<in>set (handling s'). call_ok (ctl s') (snd x)"
    using c sys_invD(11) [OF i] unfolding call_ok_def len by blast
  moreover have "\<forall>n\<in>set (deleted s'). std_cidrs (PodCIDRs n)" using d sys_invD(9) [OF i] by blast
  moreover have "\<forall>x\<in>set (releases s'). std_cidrs (snd (snd x))" using r sys_invD(12) [OF i] by blast
  moreover have "\<forall>x\<in>set (inflight s'). phase_ok (mode (ctl s')) (view (cluster (world s'))) x"
    using f sys_invD(10) [OF i] unfolding o(3) w by blast
  ultimately show ?thesis
    unfolding sys_inv_def using h o(1,2) b v by blast
qed

lemma distinct_submset:
  assumes "mset xs \<subseteq># mset ys" "distinct ys"
  shows "distinct xs"
proof -
  obtain Z where "mset ys = mset xs + Z" using assms(1) by (auto simp: mset_subset_eq_exists_conv)
  moreover obtain zs where "mset zs = Z" using ex_mset by blast
  ultimately have "mset ys = mset (xs @ zs)" by simp
  then have "distinct (xs @ zs)" using assms(2) mset_eq_imp_distinct_iff by blast
  then show ?thesis by simp
qed

text \<open>A step after which the program is at work on the same nodes.\<close>

lemma inv_step:
  assumes i: "sys_inv cluster s" and w: "world s' = world s" and p: "same_params (ctl s) (ctl s')"
    and h: "holds_all (ctl s') (holders cluster s')"
    and b: "mset (busy s') = mset (busy s)" "nodesInProcessing (ctl s') = nodesInProcessing (ctl s)"
    and it: "\<And>x. x \<in> set (items s') \<Longrightarrow> x \<in> set (items s) \<or> length (reservedCIDRs x) = length (cidrSets (ctl s))"
    and c: "\<And>x. x \<in> set (handling s') \<Longrightarrow> x \<in> set (handling s) \<or> call_ok (ctl s) (snd x)"
    and d: "\<And>x. x \<in> set (deleted s') \<Longrightarrow> x \<in> set (deleted s)"
    and r: "\<And>x. x \<in> set (releases s') \<Longrightarrow> x \<in> set (releases s) \<or> std_cidrs (snd (snd x))"
    and f: "\<And>x. x \<in> set (inflight s') \<Longrightarrow> x \<in> set (inflight s)
      \<or> phase_ok (mode (ctl s)) (view (cluster (world s))) x"
  shows "sys_inv cluster s'"
proof (rule inv_any [OF i w p h])
  show "distinct (busy s')" using sys_invD(4) [OF i] b(1) mset_eq_imp_distinct_iff by blast
  show "set (busy s') \<subseteq> nodesInProcessing (ctl s')"
    using sys_invD(5) [OF i] mset_eq_setD [OF b(1)] b(2) by simp
qed (use it c d r f in blast)+

text \<open>A step that ends the work on a node.\<close>

lemma inv_leaves:
  assumes i: "sys_inv cluster s" and w: "world s' = world s" and p: "same_params (ctl s) (ctl s')"
    and h: "holds_all (ctl s') (holders cluster s')"
    and b: "mset (busy s) = add_mset nm (mset (busy s'))"
      "nodesInProcessing (ctl s') = nodesInProcessing (ctl s) - {nm}"
    and it: "set (items s') \<subseteq> set (items s)" "set (handling s') \<subseteq> set (handling s)" "deleted s' = deleted s"
      "releases s' = releases s" "set (inflight s') \<subseteq> set (inflight s)"
  shows "sys_inv cluster s'"
proof (rule inv_any [OF i w p h])
  have "mset (busy s) = mset (nm # busy s')" using b(1) by simp
  then have d: "distinct (nm # busy s')" "set (busy s) = set (nm # busy s')"
    using sys_invD(4) [OF i] mset_eq_imp_distinct_iff mset_eq_setD by blast+
  then show "distinct (busy s')" by simp
  show "set (busy s') \<subseteq> nodesInProcessing (ctl s')"
    using sys_invD(5) [OF i] d b(2) by auto
qed (use it in auto)

text \<open>The shared parts of the holdings and of the names.\<close>

lemmas sys_defs = holders_def busy_def items_def

lemma inv_stopped:
  assumes "sys_inv cluster s"
  shows "sys_inv cluster (s\<lparr>ctl := (ctl s)\<lparr>startCtx := Some True\<rparr>\<rparr>)"
  using assms by (simp add: sys_inv_def sys_defs supported_def call_ok_def)

subsection \<open>Calls of the handler for nodes\<close>

lemma inv_call_enters:
  assumes i: "sys_inv cluster s" and e: "insertNodeToProcessing (Name node) (ctl s) = (True, c)"
    and p: "\<And>ns. p \<noteq> Allocating ns"
  shows "sys_inv cluster (s\<lparr>ctl := c, handling := handling s @ [(node, p)]\<rparr>)"
proof (rule inv_any [OF i])
  have c: "c = (ctl s)\<lparr>nodesInProcessing := insert (Name node) (nodesInProcessing (ctl s))\<rparr>"
    "Name node \<notin> nodesInProcessing (ctl s)"
    using e by (auto simp: insertNodeToProcessing_def split: if_splits)
  have cp: "call_holds p = {#}" using p by (cases p) auto
  let ?s = "s\<lparr>ctl := c, handling := handling s @ [(node, p)]\<rparr>"
  have "holders cluster ?s = holders cluster s" by (simp add: holders_def c(1) cp)
  then show "holds_all (ctl ?s) (holders cluster ?s)" using sys_invD(1) [OF i] by (simp add: c(1))
  have b: "busy ?s = busy s @ [Name node]" by (simp add: busy_def items_def c(1))
  then show "distinct (busy ?s)" "set (busy ?s) \<subseteq> nodesInProcessing (ctl ?s)"
    using sys_invD(4,5) [OF i] c by auto
  show "same_params (ctl s) (ctl ?s)" by (simp add: c(1))
  show "x \<in> set (items ?s) \<Longrightarrow> x \<in> set (items s) \<or> length (reservedCIDRs x) = length (cidrSets (ctl s))" for x
    by (simp add: items_def c(1))
qed (use p in \<open>auto simp: call_ok_def\<close>)

lemma inv_call_ends:
  assumes i: "sys_inv cluster s" and f: "handling s = xs @ (node, p) # ys" and c: "same_params (ctl s) c"
    "nodesInProcessing c = nodesInProcessing (ctl s) - {Name node}"
    "nodeCIDRUpdateChannel c = nodeCIDRUpdateChannel (ctl s)" and h: "holds_all c (holders cluster s)"
  shows "sys_inv cluster (s\<lparr>ctl := c, handling := xs @ ys\<rparr>)"
proof (rule inv_leaves [OF i, where nm = "Name node"])
  let ?s = "s\<lparr>ctl := c, handling := xs @ ys\<rparr>"
  have "holders cluster s = call_holds p + holders cluster ?s"
    by (simp add: holders_def f c(3))
  then show "holds_all (ctl ?s) (holders cluster ?s)" using holds_all_mono [OF h] by simp
qed (use f c in \<open>auto simp: busy_def items_def\<close>)

lemma inv_call_next:
  assumes i: "sys_inv cluster s" and f: "handling s = xs @ (node, p) # ys" and c: "set_step (ctl s) c"
    and h: "\<And>N. holds_all (ctl s) (call_holds p + N) \<Longrightarrow> holds_all c (call_holds p' + N)"
    and ok: "call_ok (ctl s) p'"
  shows "sys_inv cluster (s\<lparr>ctl := c, handling := xs @ (node, p') # ys\<rparr>)"
proof (rule inv_step [OF i])
  let ?s = "s\<lparr>ctl := c, handling := xs @ (node, p') # ys\<rparr>"
  let ?N = "holders cluster (s\<lparr>handling := xs @ ys\<rparr>)"
  note sf = set_step_fields [OF c]
  have N: "holders cluster s = call_holds p + ?N" "holders cluster ?s = call_holds p' + ?N"
    by (simp_all add: holders_def f sf)
  show "holds_all (ctl ?s) (holders cluster ?s)"
    using h [of ?N] sys_invD(1) [OF i] unfolding N by simp
  show "same_params (ctl s) (ctl ?s)" using set_step_params [OF c] by simp
qed (use f ok set_step_fields [OF c] in \<open>auto simp: busy_def items_def\<close>)

lemma inv_call_queues:
  assumes i: "sys_inv cluster s" and f: "handling s = xs @ (node, Allocating ns) # ys"
    and l: "length ns = length (cidrSets (ctl s))"
  shows "sys_inv cluster (s\<lparr>handling := xs @ ys,
    waiting := waiting s @ [\<lparr>reservedCIDRs = ns, nodeName = Name node\<rparr>]\<rparr>)"
proof (rule inv_step [OF i])
  let ?s = "s\<lparr>handling := xs @ ys, waiting := waiting s @ [\<lparr>reservedCIDRs = ns, nodeName = Name node\<rparr>]\<rparr>"
  have "holders cluster ?s = holders cluster s" by (simp add: holders_def f)
  then show "holds_all (ctl ?s) (holders cluster ?s)" using sys_invD(1) [OF i] by simp
qed (use f l in \<open>auto simp: busy_def items_def\<close>)

lemma occupyLoop_keeps:
  assumes "occupyLoop env node idx ts c = (r, c')" "holds_all c N"
  shows "set_step c c'" "holds_all c' N"
proof -
  show "set_step c c'" by (rule occupyLoop_step [OF holds_allD [OF assms(2)] assms(1)])
  then show "holds_all c' N"
    using occupyLoop_grows [OF holds_allD [OF assms(2)] assms(1)] by (rule holds_all_grow [OF assms(2)])
qed

subsection \<open>Calls of the handler for deleted nodes\<close>

lemma next_idx_simps [simp]:
  "ParseCIDR t = Some n \<Longrightarrow> next_idx env t idx = (if api_IsIPv6CIDR env n then idx else Suc idx)"
  "ParseCIDR t = None \<Longrightarrow> next_idx env t idx = idx"
  by (simp_all add: next_idx_def)

lemma std_cidrs_Cons: "std_cidrs (t # ts) \<Longrightarrow> std_cidrs ts"
  by (simp add: std_cidrs_def)

text \<open>The release of one CIDR gives one holding back, or keeps it when the set refuses.\<close>

lemma release_one:
  assumes env: "ip_family_ok env" and t: "std_cidrs (t # ts)"
    and h: "holds_all c (placed idx (v4_nets (t # ts)) + N)"
    and r: "releaseLoop env node idx [t] c = (x, c')"
  shows "holds_all c' (placed (next_idx env t idx) (v4_nets ts) + N)"
  using env t
proof (cases rule: cidr_cases)
  case (v6 n)
  then show ?thesis using h r by simp
next
  case (v4 n)
  obtain y d where d: "on_set idx (\<lambda>s. Release s (Some n)) c = (y, d)" by (rule prod.exhaust)
  have "holds_all c (add_mset (idx, n) (placed (Suc idx) (v4_nets ts) + N))" using h v4(4) by simp
  then have "holds_all d (placed (Suc idx) (v4_nets ts) + N)" by (rule holds_all_release [OF _ d])
  moreover have "c' = d" using r v4 d by (auto split: sum.splits)
  ultimately show ?thesis using v4 by simp
qed

lemma inv_release:
  assumes env: "ip_family_ok env" and i: "sys_inv cluster s" and f: "releases s = xs @ (node, idx, t # ts) # ys"
    and r: "releaseLoop env node idx [t] (ctl s) = (x, c)"
    and rs: "rs = xs @ (node, next_idx env t idx, ts) # ys \<or> rs = xs @ ys"
  shows "sys_inv cluster (s\<lparr>ctl := c, releases := rs\<rparr>)"
proof (rule inv_step [OF i])
  let ?s = "s\<lparr>ctl := c, releases := rs\<rparr>" and ?N = "holders cluster (s\<lparr>releases := xs @ ys\<rparr>)"
  have std: "std_cidrs (t # ts)" using sys_invD(12) [OF i, of "(node, idx, t # ts)"] f by simp
  have "set_step (ctl s) c"
    by (rule releaseLoop_step [OF holds_allD [OF sys_invD(1) [OF i]] r])
  note sf = set_step_fields [OF this] and sp = set_step_params [OF this]
  have "holders cluster s = placed idx (v4_nets (t # ts)) + ?N" by (simp add: holders_def f)
  then have h: "holds_all c (placed (next_idx env t idx) (v4_nets ts) + ?N)"
    using release_one [OF env std _ r] sys_invD(1) [OF i] by simp
  have "holders cluster ?s \<subseteq># placed (next_idx env t idx) (v4_nets ts) + ?N"
    using rs by (auto simp: holders_def sf)
  then show "holds_all (ctl ?s) (holders cluster ?s)" using holds_all_mono [OF h] by simp
  show "same_params (ctl s) (ctl ?s)" using sp by simp
  show "mset (busy ?s) = mset (busy s)" "nodesInProcessing (ctl ?s) = nodesInProcessing (ctl s)"
    "\<And>x. x \<in> set (items ?s) \<Longrightarrow> x \<in> set (items s) \<or> length (reservedCIDRs x) = length (cidrSets (ctl s))"
    by (simp_all add: busy_def items_def sf)
  show "\<And>x. x \<in> set (releases ?s) \<Longrightarrow> x \<in> set (releases s) \<or> std_cidrs (snd (snd x))"
    using rs f std_cidrs_Cons [OF std] by auto
qed simp_all

lemma inv_delete_event:
  assumes i: "sys_inv cluster s" and f: "deleted s = xs @ node # ys"
  shows "sys_inv cluster (s\<lparr>deleted := xs @ ys, releases := releases s @ [(node, 0, PodCIDRs node)]\<rparr>)"
proof (rule inv_step [OF i])
  let ?s = "s\<lparr>deleted := xs @ ys, releases := releases s @ [(node, 0, PodCIDRs node)]\<rparr>"
  have "holders cluster ?s = holders cluster s" by (simp add: holders_def f node_nets_def)
  then show "holds_all (ctl ?s) (holders cluster ?s)" using sys_invD(1) [OF i] by simp
qed (use f sys_invD(9) [OF i] in \<open>auto simp: busy_def items_def\<close>)

lemma inv_release_done:
  assumes i: "sys_inv cluster s" and f: "releases s = xs @ (node, idx, []) # ys"
  shows "sys_inv cluster (s\<lparr>releases := xs @ ys\<rparr>)"
proof (rule inv_step [OF i])
  have "holders cluster (s\<lparr>releases := xs @ ys\<rparr>) = holders cluster s" by (simp add: holders_def f)
  then show "holds_all (ctl (s\<lparr>releases := xs @ ys\<rparr>)) (holders cluster (s\<lparr>releases := xs @ ys\<rparr>))"
    using sys_invD(1) [OF i] by simp
qed (use f in \<open>auto simp: busy_def items_def\<close>)

subsection \<open>The channel and the phases of a worker\<close>

lemma queueAfterWait_returned:
  "queueAfterWait item c = (Returned r, c') \<Longrightarrow>
     c' = c\<lparr>nodeCIDRUpdateChannel := nodeCIDRUpdateChannel c @ [item]\<rparr>"
  by (auto simp: queueAfterWait_def split: if_splits)

lemma same_params_channel [simp]:
  "same_params c (c\<lparr>nodeCIDRUpdateChannel := q\<rparr>)"
  by simp

text \<open>Items that only move, and keep what they hold.\<close>

lemma inv_items_moved:
  assumes i: "sys_inv cluster s" and c: "ctl s' = (ctl s)\<lparr>nodeCIDRUpdateChannel := q\<rparr>"
    and w: "world s' = world s" "deleted s' = deleted s" "handling s' = handling s" "releases s' = releases s"
    and it: "mset (items s') = mset (items s)" and h: "holders cluster s' = holders cluster s"
    and r: "\<And>x. x \<in> set (inflight s') \<Longrightarrow> x \<in> set (inflight s)
      \<or> phase_ok (mode (ctl s)) (view (cluster (world s))) x"
  shows "sys_inv cluster s'"
proof (rule inv_step [OF i w(1)])
  show "mset (busy s') = mset (busy s)" using it by (simp add: busy_def w)
  show "x \<in> set (items s') \<Longrightarrow> x \<in> set (items s) \<or> length (reservedCIDRs x) = length (cidrSets (ctl s))" for x
    using mset_eq_setD [OF it] by blast
qed (use sys_invD(1) [OF i] w r c h in simp_all)

text \<open>An item in the hands of a worker that holds something else after an operation on a set.\<close>

lemma inv_item_next:
  assumes i: "sys_inv cluster s" and f: "inflight s = xs @ (item, ph) # ys" and c: "set_step (ctl s) c"
    and h: "\<And>N. holds_all (ctl s) (claim (view (cluster (world s))) (item, ph) + N) \<Longrightarrow>
      holds_all c (claim (view (cluster (world s))) (item, ph') + N)"
    and ok: "phase_ok (mode (ctl s)) (view (cluster (world s))) (item, ph')"
  shows "sys_inv cluster (s\<lparr>ctl := c, inflight := xs @ (item, ph') # ys\<rparr>)"
proof (rule inv_step [OF i])
  let ?s = "s\<lparr>ctl := c, inflight := xs @ (item, ph') # ys\<rparr>"
  let ?N = "holders cluster (s\<lparr>inflight := xs @ ys\<rparr>)"
  note sf = set_step_fields [OF c]
  have N: "holders cluster s = claim (view (cluster (world s))) (item, ph) + ?N"
    "holders cluster ?s = claim (view (cluster (world s))) (item, ph') + ?N"
    by (simp_all add: holders_def f sf)
  show "holds_all (ctl ?s) (holders cluster ?s)"
    using h [of ?N] sys_invD(1) [OF i] unfolding N by simp
  show "same_params (ctl s) (ctl ?s)" using set_step_params [OF c] by simp
qed (use f ok set_step_fields [OF c] in \<open>auto simp: busy_def items_def\<close>)

text \<open>A worker that goes on to a phase in which its item holds the same.\<close>

lemma inv_phase:
  assumes i: "sys_inv cluster s" and f: "inflight s = xs @ (item, ph) # ys"
    and c: "claim (view (cluster (world s))) (item, ph') = claim (view (cluster (world s))) (item, ph)"
    and ok: "phase_ok (mode (ctl s)) (view (cluster (world s))) (item, ph')"
  shows "sys_inv cluster (s\<lparr>inflight := xs @ (item, ph') # ys\<rparr>)"
  using inv_item_next [OF i f set_step_refl [OF holds_allD [OF sys_invD(1) [OF i]]] _ ok] c by simp

lemma inv_world:
  assumes "sys_inv cluster s" "view (cluster w') = view (cluster (world s))"
  shows "sys_inv cluster (s\<lparr>world := w'\<rparr>)"
  using assms by (simp add: sys_inv_def sys_defs)

lemma inv_phase_world:
  assumes i: "sys_inv cluster s" and f: "inflight s = xs @ (item, ph) # ys"
    and v: "view (cluster w') = view (cluster (world s))"
    and c: "claim (view (cluster (world s))) (item, ph') = claim (view (cluster (world s))) (item, ph)"
    and ok: "phase_ok (mode (ctl s)) (view (cluster (world s))) (item, ph')"
  shows "sys_inv cluster (s\<lparr>world := w', inflight := xs @ (item, ph') # ys\<rparr>)"
proof -
  have "sys_inv cluster ((s\<lparr>inflight := xs @ (item, ph') # ys\<rparr>)\<lparr>world := w'\<rparr>)"
    by (rule inv_world [OF inv_phase [OF i f c ok]]) (simp add: v)
  then show ?thesis by (cases s) simp
qed

lemma inv_worker_read:
  assumes api: "api_contract env cluster" and i: "sys_inv cluster s"
    and f: "inflight s = xs @ (item, Taken) # ys"
    and g: "api_Get env (nodeName item) (world s) = (r, w')"
  shows "sys_inv cluster (s\<lparr>world := w',
    inflight := xs @ (item, case r of Inl e \<Rightarrow> Failed | Inr node \<Rightarrow> Read node) # ys\<rparr>)"
proof -
  let ?v = "view (cluster (world s))"
  have w: "cluster w' = cluster (world s)" by (rule api_contractD(1) [OF api g])
  have "Name node = nodeName item \<and> (PodCIDRs node = [] \<longrightarrow> (\<forall>p\<in>set ?v. fst p = nodeName item \<longrightarrow> snd p = []))"
    if "r = Inr node" for node
  proof -
    have n: "node \<in> set (cluster (world s))" "Name node = nodeName item"
      using api_contractD(2) [OF api g [unfolded that]] by simp_all
    then have "(nodeName item, PodCIDRs node) \<in> set ?v" by (auto simp: mem_view)
    then have "snd p = PodCIDRs node" if "p \<in> set ?v" "fst p = nodeName item" for p
      using that sys_invD(7) [OF i] by (metis eq_key_imp_eq_value prod.collapse)
    then show ?thesis using n by simp
  qed
  then show ?thesis
    using w by (intro inv_phase_world [OF i f]) (auto split: sum.splits)
qed

text \<open>An item in the hands of a worker, and the others.\<close>

lemma inflight_item:
  assumes i: "sys_inv cluster s" and f: "inflight s = xs @ (item, ph) # ys"
  shows "holders cluster s = claim (view (cluster (world s))) (item, ph) + holders cluster (s\<lparr>inflight := xs @ ys\<rparr>)"
    "length (reservedCIDRs item) = length (cidrSets (ctl s))"
    "nodeName item \<notin> nodeName ` fst ` set (xs @ ys)"
proof -
  show "holders cluster s = claim (view (cluster (world s))) (item, ph) + holders cluster (s\<lparr>inflight := xs @ ys\<rparr>)"
    using f by (simp add: holders_def)
  have "item \<in> set (items s)" using f by (simp add: items_def)
  then show "length (reservedCIDRs item) = length (cidrSets (ctl s))" by (rule sys_invD(6) [OF i])
  show "nodeName item \<notin> nodeName ` fst ` set (xs @ ys)"
    using sys_invD(4) [OF i] f by (auto simp: busy_def items_def)
qed

text \<open>A worker that is done with its item and gives its name free.\<close>

lemma inv_item_dropped:
  assumes i: "sys_inv cluster s" and f: "inflight s = xs @ (item, ph) # ys"
  shows "sys_inv cluster (s\<lparr>ctl := removeNodeFromProcessing (nodeName item) (ctl s), inflight := xs @ ys\<rparr>)"
proof (rule inv_leaves [OF i, where nm = "nodeName item"])
  let ?c = "removeNodeFromProcessing (nodeName item) (ctl s)"
  let ?s = "s\<lparr>ctl := ?c, inflight := xs @ ys\<rparr>"
  have "holders cluster ?s = holders cluster (s\<lparr>inflight := xs @ ys\<rparr>)" by (simp add: holders_def)
  then have "holds_all (ctl s) (holders cluster ?s)"
    using holds_all_mono [OF sys_invD(1) [OF i]] by (simp add: inflight_item(1) [OF i f])
  then show "holds_all (ctl ?s) (holders cluster ?s)" by simp
qed (use f in \<open>auto simp: busy_def items_def\<close>)

text \<open>A worker that finds its reservation in the node has nothing left to hold.\<close>

lemma inv_item_settled:
  assumes i: "sys_inv cluster s" and f: "inflight s = xs @ (item, ph) # ys"
  shows "sys_inv cluster (s\<lparr>inflight := xs @ (item, Dropping (length (reservedCIDRs item))) # ys\<rparr>)"
proof -
  have "sys_inv cluster (s\<lparr>ctl := ctl s, inflight := xs @ (item, Dropping (length (reservedCIDRs item))) # ys\<rparr>)"
    by (rule inv_item_next [OF i f set_step_refl [OF holds_allD [OF sys_invD(1) [OF i]]]])
      (auto elim: holds_all_mono)
  then show ?thesis by simp
qed

lemma releaseReserved_one:
  assumes "holds_all c (add_mset (k, n) N)" "releaseReserved k [n] c = (r, c')"
  shows "holds_all c' N"
proof -
  obtain x d where d: "on_set k (\<lambda>s. Release s (Some n)) c = (x, d)" by (rule prod.exhaust)
  then have "c' = d" using assms(2) by (auto split: sum.splits cidr_error.splits)
  then show ?thesis using holds_all_release [OF assms(1) d] by simp
qed

lemma inv_worker_drops:
  assumes i: "sys_inv cluster s" and f: "inflight s = xs @ (item, Dropping k) # ys"
    and k: "k < length (reservedCIDRs item)" and r: "releaseReserved k [reservedCIDRs item ! k] (ctl s) = (x, c)"
  shows "sys_inv cluster (s\<lparr>ctl := c, inflight := xs @ (item, Dropping (Suc k)) # ys\<rparr>)"
proof (rule inv_item_next [OF i f])
  show "set_step (ctl s) c" by (rule releaseReserved_step [OF holds_allD [OF sys_invD(1) [OF i]] r])
  show "holds_all c (claim (view (cluster (world s))) (item, Dropping (Suc k)) + N)"
    if "holds_all (ctl s) (claim (view (cluster (world s))) (item, Dropping k) + N)" for N
    using that releaseReserved_one [OF _ r] by (simp add: placed_drop [OF k])
qed simp

lemma inv_worker_choose:
  assumes api: "api_contract env cluster" and pre: "ec2_prefixes_ok env" and i: "sys_inv cluster s"
    and f: "inflight s = xs @ (item, Read node) # ys"
    and n: "PodCIDRs node = []" "cidrsAsString (reservedCIDRs item) \<noteq> []"
    and r: "nodeCIDRs env node (cidrsAsString (reservedCIDRs item)) (ctl s) (world s) = (r, w')"
  shows "sys_inv cluster (s\<lparr>world := w', inflight :=
      xs @ (item, case r of Inl e \<Rightarrow> Failed | Inr ts \<Rightarrow> Patching node ts k None) # ys\<rparr>)"
proof -
  let ?v = "view (cluster (world s))"
  have h: "holds_all (ctl s) (placed 0 (reservedCIDRs item) + holders cluster (s\<lparr>inflight := xs @ ys\<rparr>))"
    using sys_invD(1) [OF i] unfolding inflight_item(1) [OF i f] by simp
  have "\<forall>n\<in>set (reservedCIDRs item). is_canon n \<and> length (IP n) = 4"
    by (rule holds_all_v4 [OF h _ sys_invD(2) [OF i]]) (simp add: inflight_item(2) [OF i f])
  moreover have "reservedCIDRs item \<noteq> []" using n(2) by (auto simp: cidrsAsString_def)
  ultimately have t: "cluster w' = cluster (world s)"
      "\<And>ts. r = Inr ts \<Longrightarrow> texts_for (mode (ctl s)) (reservedCIDRs item) ts"
    using nodeCIDRs_texts [OF api pre sys_invD(2) [OF i] _ _ r] by blast+
  have e: "Name node = nodeName item" "\<forall>p\<in>set ?v. fst p = nodeName item \<longrightarrow> snd p = []"
    using sys_invD(10) [OF i, of "(item, Read node)"] f n(1) by simp_all
  show ?thesis
    using t e by (intro inv_phase_world [OF i f]) (auto split: sum.splits)
qed

subsection \<open>Changes of the cluster\<close>

text \<open>Claims and phases depend only on the entries of the item's node with CIDRs.\<close>

lemma claim_cong:
  "(\<And>p. fst p = nodeName (fst x) \<Longrightarrow> v4_nets (snd p) \<noteq> [] \<Longrightarrow> p \<in> set v' \<longleftrightarrow> p \<in> set v) \<Longrightarrow>
    claim v' x = claim v x"
  by (cases "(v, x)" rule: claim.cases) auto

lemma phase_ok_mono:
  assumes "phase_ok md v x" and p: "\<And>p. fst p = nodeName (fst x) \<Longrightarrow> snd p \<noteq> [] \<Longrightarrow> p \<in> set v' \<Longrightarrow> p \<in> set v"
  shows "phase_ok md v' x"
proof -
  have e: "v4_nets (snd p) = [] \<or> p \<in> set v" if "fst p = nodeName (fst x)" "p \<in> set v'" for p
    using p that by (cases "snd p = []") simp_all
  show ?thesis
    using assms(1)
  proof (cases "(md, v, x)" rule: phase_ok.cases)
    case (2 md v item node ts n err)
    then show ?thesis using assms(1) e by (metis fst_conv phase_ok.simps(2) Pair_inject)
  qed (use p in auto)
qed

lemma inv_created:
  assumes i: "sys_inv cluster s" and w: "cluster w' = cluster (world s) @ [node]" "PodCIDRs node = []"
    "Name node \<notin> Name ` set (cluster (world s))"
  shows "sys_inv cluster (s\<lparr>world := w'\<rparr>)"
proof -
  have nm: "fst ` set (view (cluster (world s))) = Name ` set (cluster (world s))"
    by (auto simp: view_def image_image)
  have v: "view (cluster w') = view (cluster (world s)) @ [(Name node, [])]" using w by simp
  have "claim (view (cluster w')) = claim (view (cluster (world s)))"
    unfolding v by (intro ext claim_cong) auto
  then have "holders cluster (s\<lparr>world := w'\<rparr>) = holders cluster s"
    unfolding holders_def by (simp add: v)
  moreover have "phase_ok (mode (ctl s)) (view (cluster w')) x" if "x \<in> set (inflight s)" for x
    unfolding v by (rule phase_ok_mono [OF sys_invD(10) [OF i that]]) auto
  ultimately show ?thesis
    using i nm v w(3) by (auto simp: sys_inv_def busy_def items_def)
qed

lemma inv_deleted:
  assumes i: "sys_inv cluster s" and w: "cluster (world s) = xs @ node # ys" "cluster w' = xs @ ys"
    and seen: "PodCIDRs seen = PodCIDRs node \<or> PodCIDRs seen = []" and lost: "\<not> lost_reply s node"
  shows "sys_inv cluster (s\<lparr>world := w', deleted := deleted s @ [seen], lost_node := b\<rparr>)"
proof -
  let ?s = "s\<lparr>world := w', deleted := deleted s @ [seen], lost_node := b\<rparr>" and ?v = "view (cluster (world s))"
  have v: "?v = view xs @ (Name node, PodCIDRs node) # view ys" "view (cluster w') = view xs @ view ys"
    using w by simp_all
  have cl: "claim (view (cluster w')) x = claim ?v x" if "x \<in> set (inflight s)" for x
  proof (cases "\<exists>item nd ts n e. x = (item, Patching nd ts n e)")
    case True
    then obtain item nd ts n e where x: "x = (item, Patching nd ts n e)" by blast
    then have "v4_nets (PodCIDRs node) = [] \<or> nodeName item \<noteq> Name node"
      using lost that by (force simp: lost_reply_def)
    then show ?thesis unfolding v by (intro claim_cong) (auto simp: x)
  next
    case False
    then show ?thesis by (cases "(?v, x)" rule: claim.cases) auto
  qed
  have "image_mset (claim (view (cluster w'))) (mset (inflight s)) = image_mset (claim ?v) (mset (inflight s))"
    using cl by (intro image_mset_cong) simp
  then have K: "placed 0 (node_nets node) + holders cluster ?s = placed 0 (node_nets seen) + holders cluster s"
    unfolding holders_def by (simp add: v node_nets_def ac_simps)
  have "holders cluster ?s \<subseteq># holders cluster s"
  proof (cases "PodCIDRs seen = []")
    case True
    then have "node_nets seen = []" by (simp add: node_nets_def)
    then have "holders cluster s = placed 0 (node_nets node) + holders cluster ?s" using K by simp
    then show ?thesis by simp
  next
    case False
    then have "node_nets seen = node_nets node" using seen by (simp add: node_nets_def)
    then show ?thesis using K by simp
  qed
  then have "holds_all (ctl s) (holders cluster ?s)" by (rule holds_all_mono [OF sys_invD(1) [OF i]])
  moreover have "phase_ok (mode (ctl s)) (view (cluster w')) x" if "x \<in> set (inflight s)" for x
    by (rule phase_ok_mono [OF sys_invD(10) [OF i that]]) (auto simp: v)
  ultimately show ?thesis using i v seen by (auto simp: sys_inv_def busy_def items_def)
qed

lemma set_cidrs_append [simp]: "set_cidrs nm us (a @ b) = set_cidrs nm us a @ set_cidrs nm us b"
  by (simp add: set_cidrs_def)

lemma set_cidrs_Cons [simp]:
  "set_cidrs nm us ((n, p) # v) = (n, if n = nm then us else p) # set_cidrs nm us v"
  by (simp add: set_cidrs_def)

lemma set_cidrs_other: "nm \<notin> fst ` set v \<Longrightarrow> set_cidrs nm us v = v"
  unfolding set_cidrs_def by (rule map_idI) (force split: prod.splits)

lemma set_cidrs_mem: "p \<in> set (set_cidrs nm us v) \<Longrightarrow> p \<in> set v \<and> fst p \<noteq> nm \<or> fst p = nm \<and> snd p = us"
  by (auto simp: set_cidrs_def split: if_splits)

lemma claim_entry:
  assumes "distinct (map fst v)" "(nodeName item, p) \<in> set v"
  shows "claim v (item, Patching node ts n err) = (if v4_nets p = [] then placed 0 (reservedCIDRs item) else {#})"
proof -
  have "snd q = p" if "q \<in> set v" "fst q = nodeName item" for q
    using that assms by (metis eq_key_imp_eq_value prod.collapse)
  then have "(\<exists>q\<in>set v. fst q = nodeName item \<and> v4_nets (snd q) \<noteq> []) \<longleftrightarrow> v4_nets p \<noteq> []"
    using assms(2) by (metis fst_conv snd_conv)
  then show ?thesis by simp
qed

lemma sum_swap:
  fixes A :: "'a multiset"
  assumes "A' + P = A + U"
  shows "A' + (R + (X' + F)) + D + (P + X) = A + (R + (X + F)) + D + (U + X')"
proof -
  have "A' + (R + (X' + F)) + D + (P + X) = (A' + P) + (R + X' + F + D + X)" by (simp only: ac_simps)
  also have "\<dots> = A + (R + (X + F)) + D + (U + X')" unfolding assms by (simp only: ac_simps)
  finally show ?thesis .
qed

text \<open>
  The CIDRs are written into the node, by an attempt that is reported as failed or not: what the
  worker and the node hold together stays the same, or becomes less.
\<close>

lemma inv_patched:
  assumes i: "sys_inv cluster s" and f: "inflight s = xs @ (item, Patching node ts n err) # ys"
    and t: "texts_for (mode (ctl s)) (reservedCIDRs item) us"
    and w: "view (cluster w') = set_cidrs (nodeName item) us (view (cluster (world s)))"
  shows "sys_inv cluster (s\<lparr>world := w', inflight := xs @ (item, Patching node us m err') # ys\<rparr>)"
proof (cases "nodeName item \<in> fst ` set (view (cluster (world s)))")
  case False
  then have "view (cluster w') = view (cluster (world s))" by (simp add: w set_cidrs_other)
  then show ?thesis
    using sys_invD(10) [OF i, of "(item, Patching node ts n err)"] f t by (intro inv_phase_world [OF i f]) auto
next
  case True
  let ?v = "view (cluster (world s))" and ?nm = "nodeName item"
  let ?x = "(item, Patching node ts n err)" and ?x' = "(item, Patching node us m err')"
  let ?s = "s\<lparr>world := w', inflight := xs @ ?x' # ys\<rparr>"
  obtain p where "(?nm, p) \<in> set ?v" using True by auto
  then obtain a b where v: "?v = a @ (?nm, p) # b" by (auto dest: split_list)
  have ds: "distinct (map fst ?v)" by (rule sys_invD(7) [OF i])
  then have nm: "?nm \<notin> fst ` set a" "?nm \<notin> fst ` set b" unfolding v by auto
  have v': "view (cluster w') = a @ (?nm, us) # b" using nm by (simp add: w v set_cidrs_other)
  have ds': "distinct (map fst (view (cluster w')))" using ds by (simp add: w)
  have ne: "nodeName (fst y) \<noteq> ?nm" if "y \<in> set (xs @ ys)" for y
    using that inflight_item(3) [OF i f] by (metis imageI)
  have cl: "claim (view (cluster w')) y = claim ?v y" if "y \<in> set (xs @ ys)" for y
    unfolding v v' by (rule claim_cong) (use ne [OF that] in auto)
  have ok: "phase_ok (mode (ctl s)) ?v ?x" by (rule sys_invD(10) [OF i]) (simp add: f)
  have img: "image_mset (claim (view (cluster w'))) (mset (xs @ ys)) = image_mset (claim ?v) (mset (xs @ ys))"
    by (rule image_mset_cong) (simp add: cl)
  then have "image_mset (claim (view (cluster w'))) (mset xs) + image_mset (claim (view (cluster w'))) (mset ys)
      = image_mset (claim ?v) (mset xs) + image_mset (claim ?v) (mset ys)" by simp
  then have cs: "(\<Sum>x\<in>#mset xs. claim (view (cluster w')) x) + (\<Sum>x\<in>#mset ys. claim (view (cluster w')) x)
      = (\<Sum>x\<in>#mset xs. claim ?v x) + (\<Sum>x\<in>#mset ys. claim ?v x)" by (metis sum_mset.union)
  have nodes: "(\<Sum>p\<in>#mset (view (cluster w')). placed 0 (v4_nets (snd p))) + placed 0 (v4_nets p)
      = (\<Sum>p\<in>#mset ?v. placed 0 (v4_nets (snd p))) + placed 0 (v4_nets us)"
    unfolding v v' by simp
  let ?R = "(\<Sum>x\<in>#mset (handling s). call_holds (snd x))
     + (\<Sum>i\<in>#mset (nodeCIDRUpdateChannel (ctl s) @ waiting s). placed 0 (reservedCIDRs i))"
  let ?D = "(\<Sum>n\<in>#mset (deleted s). placed 0 (node_nets n)) + (\<Sum>x\<in>#mset (releases s). release_holds x)"
  have hs: "holders cluster s = (\<Sum>p\<in>#mset ?v. placed 0 (v4_nets (snd p)))
      + (?R + (claim ?v ?x + ((\<Sum>x\<in>#mset xs. claim ?v x) + (\<Sum>x\<in>#mset ys. claim ?v x)))) + ?D"
    unfolding holders_def f by (simp del: claim.simps)
  have hs': "holders cluster ?s = (\<Sum>p\<in>#mset (view (cluster w')). placed 0 (v4_nets (snd p)))
      + (?R + (claim (view (cluster w')) ?x'
        + ((\<Sum>x\<in>#mset xs. claim (view (cluster w')) x) + (\<Sum>x\<in>#mset ys. claim (view (cluster w')) x)))) + ?D"
    unfolding holders_def by (simp del: claim.simps)
  have K: "holders cluster ?s + (placed 0 (v4_nets p) + claim ?v ?x)
      = holders cluster s + (placed 0 (v4_nets us) + claim (view (cluster w')) ?x')"
    unfolding hs hs' cs by (rule sum_swap [OF nodes])
  have pr: "v4_nets p = [] \<or> v4_nets p = reservedCIDRs item" using ok v by auto
  have "claim ?v ?x = (if v4_nets p = [] then placed 0 (reservedCIDRs item) else {#})"
    by (rule claim_entry [OF ds]) (simp add: v)
  then have r1: "placed 0 (v4_nets p) + claim ?v ?x = placed 0 (reservedCIDRs item)"
    using pr by (cases "v4_nets p = []") auto
  have tx: "v4_nets us = reservedCIDRs item \<or> v4_nets us = []" "std_cidrs us" using t by (auto simp: texts_for_def)
  have "claim (view (cluster w')) ?x' = (if v4_nets us = [] then placed 0 (reservedCIDRs item) else {#})"
    by (rule claim_entry [OF ds']) (simp add: v')
  then have r2: "placed 0 (v4_nets us) + claim (view (cluster w')) ?x' = placed 0 (reservedCIDRs item)"
    using tx(1) by (cases "v4_nets us = []") auto
  have "holders cluster ?s = holders cluster s" using K unfolding r1 r2 by simp
  then have h: "holds_all (ctl s) (holders cluster ?s)" using sys_invD(1) [OF i] by simp
  have it: "items ?s = items s" using f by (simp add: items_def)
  have "phase_ok (mode (ctl s)) (view (cluster w')) y" if "y \<in> set (xs @ ys)" for y
    by (rule phase_ok_mono [OF sys_invD(10) [OF i]]) (use that f ne [OF that] v v' in auto)
  moreover have "phase_ok (mode (ctl s)) (view (cluster w')) ?x'"
    using ok t tx(1) by (auto simp: w dest!: set_cidrs_mem)
  ultimately have ph: "\<forall>y\<in>set (inflight ?s). phase_ok (mode (ctl ?s)) (view (cluster (world ?s))) y" by auto
  have std: "\<forall>q\<in>set (view (cluster (world ?s))). std_cidrs (snd q)"
    using sys_invD(8) [OF i] tx(2) unfolding v by (auto simp: v')
  show ?thesis
    unfolding sys_inv_def using i h it ph std ds' by (simp add: sys_inv_def busy_def)
qed

lemma inv_worker_patch:
  assumes api: "api_contract env cluster" and i: "sys_inv cluster s"
    and f: "inflight s = xs @ (item, Patching node ts n err) # ys"
    and p: "PatchNodePodCIDRs (api_Patch env) (world s) node ts (mode (ctl s)) (primaryIPFamily (ctl s)) = (Inr u, w', ts')"
  shows "sys_inv cluster (s\<lparr>world := w', inflight := xs @ (item, Dropping (length (reservedCIDRs item))) # ys\<rparr>)"
proof -
  have ok: "Name node = nodeName item" "texts_for (mode (ctl s)) (reservedCIDRs item) ts"
    using sys_invD(10) [OF i, of "(item, Patching node ts n err)"] f by simp_all
  note cs = PatchNodePodCIDRs_cases [OF api ok(2) p]
  have t: "texts_for (mode (ctl s)) (reservedCIDRs item) ts'" unfolding cs(1) by (rule texts_for_order [OF ok(2)])
  let ?s = "s\<lparr>world := w', inflight := xs @ (item, Patching node ts' 0 None) # ys\<rparr>"
  have i': "sys_inv cluster ?s"
    by (rule inv_patched [OF i f t]) (use cs(2) ok(1) in simp)
  have f': "inflight ?s = xs @ (item, Patching node ts' 0 None) # ys" by simp
  from inv_item_settled [OF i' f'] show ?thesis by simp
qed

lemma inv_worker_retry:
  assumes api: "api_contract env cluster" and i: "sys_inv cluster s"
    and f: "inflight s = xs @ (item, Patching node ts k err) # ys"
    and p: "PatchNodePodCIDRs (api_Patch env) (world s) node ts (mode (ctl s)) (primaryIPFamily (ctl s)) = (Inl e, w', ts')"
  shows "sys_inv cluster (s\<lparr>world := w', inflight := xs @ (item, Patching node ts' n (Some e)) # ys\<rparr>)"
proof -
  have ok: "Name node = nodeName item" "texts_for (mode (ctl s)) (reservedCIDRs item) ts"
    using sys_invD(10) [OF i, of "(item, Patching node ts k err)"] f by simp_all
  note cs = PatchNodePodCIDRs_cases [OF api ok(2) p]
  have t: "texts_for (mode (ctl s)) (reservedCIDRs item) ts'" unfolding cs(1) by (rule texts_for_order [OF ok(2)])
  from cs(3) [OF refl] show ?thesis
  proof (elim conjE disjE)
    assume "view (cluster w') = view (cluster (world s))"
    then show ?thesis
      using t sys_invD(10) [OF i, of "(item, Patching node ts k err)"] f by (intro inv_phase_world [OF i f]) auto
  next
    assume "view (cluster w') = set_cidrs (Name node) ts' (view (cluster (world s)))"
    then show ?thesis using ok(1) by (intro inv_patched [OF i f t]) simp
  qed
qed

subsection \<open>Runs\<close>

text \<open>Every step keeps the invariant of the sets and appends to the events.\<close>

lemma extends_removed_event:
  "extends c d \<Longrightarrow> extends c ((removeNodeFromProcessing nm d)\<lparr>recorder := RecordNodeStatusChange (recorder d) node st\<rparr>)"
  using extends_event [of c "removeNodeFromProcessing nm d"] by simp

lemma insertNode_extends:
  "alloc_inv c \<Longrightarrow> insertNodeToProcessing nm c = (b, c') \<Longrightarrow> extends c c'"
  by (auto simp: insertNodeToProcessing_def extends_refl split: if_splits)

lemma sys_step_extends:
  assumes "sys_step env cluster s s'" "alloc_inv (ctl s)"
  shows "extends (ctl s) (ctl s')"
  using assms
  by (cases rule: sys_step.cases)
    (auto simp del: occupyLoop.simps releaseLoop.simps releaseReserved.simps simp: extends_refl
      intro: insertNode_extends queueAfterWait_extends extends_event extends_removed_event
        set_step_extends [OF on_set_alloc_step] set_step_extends [OF occupyLoop_step]
        set_step_extends [OF releaseLoop_step] set_step_extends [OF releaseReserved_step])

lemma sys_run_extends:
  assumes "(sys_step env cluster)\<^sup>*\<^sup>* s s'" "alloc_inv (ctl s)"
  shows "extends (ctl s) (ctl s')"
  using assms(1)
proof (induction rule: rtranclp_induct)
  case base
  show ?case by (rule extends_refl [OF assms(2)])
next
  case (step t u)
  have "alloc_inv (ctl t)" using step.IH by (simp add: extends_def)
  then show ?case using extends_trans [OF step.IH sys_step_extends [OF step.hyps(2)]] by blast
qed

lemma gave_up_extends: "extends c c' \<Longrightarrow> gave_up c \<Longrightarrow> gave_up c'"
  by (auto simp: extends_def gave_up_def)

text \<open>The contract of all the clients together.\<close>

definition clients_ok :: "'w api \<Rightarrow> ('w \<Rightarrow> Node list) \<Rightarrow> bool" where
  "clients_ok env cluster \<longleftrightarrow> ip_family_ok env \<and> api_contract env cluster \<and> ec2_prefixes_ok env"

lemma sys_step_inv:
  assumes cl: "clients_ok env cluster" and i: "sys_inv cluster s" and st: "sys_step env cluster s s'"
  shows "sys_inv cluster s' \<or> gave_up (ctl s') \<or> lost_node s'"
proof -
  have env: "ip_family_ok env" "api_contract env cluster" "ec2_prefixes_ok env"
    using cl by (simp_all add: clients_ok_def)
  have h: "holds_all (ctl s) (holders cluster s)" by (rule sys_invD(1) [OF i])
  note a = holds_allD [OF h]
  from st show ?thesis
  proof (cases rule: sys_step.cases)
    case (node_created w' node)
    then show ?thesis using inv_created [OF i] by simp
  next
    case (node_changed w')
    then show ?thesis using inv_world [OF i] by simp
  next
    case (node_deleted xs node ys w' seen)
    show ?thesis
    proof (cases "lost_reply s node")
      case False
      then show ?thesis using inv_deleted [OF i node_deleted(2-4)] node_deleted(1) by blast
    qed (simp add: node_deleted(1))
  next
    case stopped
    then show ?thesis using inv_stopped [OF i] by simp
  next
    case (call_enters node c)
    then show ?thesis using inv_call_enters [OF i call_enters(2)] by simp
  next
    case (call_cancelled xs node ys)
    then have "sys_inv cluster s'" using h by (simp add: inv_call_ends [OF i call_cancelled(2)])
    then show ?thesis ..
  next
    case (call_ready xs node b ys)
    have "sys_inv cluster (s\<lparr>ctl := ctl s, handling := xs @ (node, Allocating []) # ys\<rparr>)"
      by (rule inv_call_next [OF i call_ready(2) set_step_refl [OF a]]) (simp_all add: call_ok_def)
    then show ?thesis using call_ready(1) by simp
  next
    case (call_allocates xs node ns ys n c)
    have "sys_inv cluster s'"
      unfolding call_allocates(1)
      by (rule inv_call_next [OF i call_allocates(2) on_set_alloc_step [OF a call_allocates(4)]])
        (use holds_all_alloc [OF _ call_allocates(4)] call_allocates(3) in \<open>simp_all add: call_ok_def\<close>)
    then show ?thesis ..
  next
    case (call_fails xs node ns ys e c)
    note sd = on_set_alloc_step [OF a call_fails(4)]
    have "sys_inv cluster s'"
      unfolding call_fails(1)
      by (rule inv_call_next [OF i call_fails(2) sd])
        (use holds_all_mono [OF holds_all_alloc_error [OF _ call_fails(4)]] in \<open>simp_all add: call_ok_def\<close>)
    then show ?thesis ..
  next
    case (call_failed xs node ys)
    then have "sys_inv cluster s'" using h by (simp add: inv_call_ends [OF i call_failed(2)])
    then show ?thesis ..
  next
    case (call_queues xs node ns ys)
    then show ?thesis using inv_call_queues [OF i call_queues(2,3)] by simp
  next
    case (call_occupies xs node idx t ts ys u c)
    have "sys_inv cluster s'"
      unfolding call_occupies(1)
      by (rule inv_call_next [OF i call_occupies(2) occupyLoop_keeps(1) [OF call_occupies(3) h]])
        (use occupyLoop_keeps(2) [OF call_occupies(3)] in \<open>simp_all add: call_ok_def\<close>)
    then show ?thesis ..
  next
    case (call_stops xs node idx t ts ys e c)
    have "sys_inv cluster s'"
      unfolding call_stops(1)
      by (rule inv_call_next [OF i call_stops(2) occupyLoop_keeps(1) [OF call_stops(3) h]])
        (use occupyLoop_keeps(2) [OF call_stops(3)] in \<open>simp_all add: call_ok_def\<close>)
    then show ?thesis ..
  next
    case (call_occupied xs node idx ys)
    then have "sys_inv cluster s'" using h by (simp add: inv_call_ends [OF i call_occupied(2)])
    then show ?thesis ..
  next
    case (unblocked xs item ys r c)
    then have "c = (ctl s)\<lparr>nodeCIDRUpdateChannel := nodeCIDRUpdateChannel (ctl s) @ [item]\<rparr>"
      by (simp add: queueAfterWait_returned)
    then have "sys_inv cluster s'"
      by (intro inv_items_moved [OF i]) (use unblocked in \<open>simp_all add: items_def holders_def\<close>)
    then show ?thesis ..
  next
    case (delete_event xs node ys)
    then show ?thesis using inv_delete_event [OF i delete_event(2)] by simp
  next
    case (release_next xs node idx t ts ys u c)
    then show ?thesis using inv_release [OF env(1) i release_next(2,3)] by simp
  next
    case (release_stops xs node idx t ts ys e c)
    then show ?thesis using inv_release [OF env(1) i release_stops(2,3)] by simp
  next
    case (release_done xs node idx ys)
    then show ?thesis using inv_release_done [OF i release_done(2)] by simp
  next
    case (worker_take item rest)
    then have "sys_inv cluster s'"
      by (intro inv_items_moved [OF i, where q = rest]) (auto simp: items_def holders_def)
    then show ?thesis ..
  next
    case (worker_read xs item ys r w')
    then show ?thesis using inv_worker_read [OF env(2) i] by blast
  next
    case (worker_match xs item node ys)
    then show ?thesis using inv_item_settled [OF i worker_match(2)] by simp
  next
    case (worker_drop xs item node ys)
    then show ?thesis using inv_phase [OF i worker_drop(2), of "Dropping 0"] by simp
  next
    case (worker_drops xs item k ys u c)
    then show ?thesis using inv_worker_drops [OF i worker_drops(2-4)] by simp
  next
    case (worker_dropped xs item k ys)
    then show ?thesis using inv_item_dropped [OF i worker_dropped(2)] by simp
  next
    case (worker_choose xs item node ys r w')
    then show ?thesis using inv_worker_choose [OF env(2,3) i] by blast
  next
    case (worker_patch xs item node ts n err ys u w' ts')
    then show ?thesis using inv_worker_patch [OF env(2) i] by blast
  next
    case (worker_retry xs item node ts n err ys e w' ts')
    then show ?thesis using inv_worker_retry [OF env(2) i] by blast
  next
    case (worker_give_up xs item node ts err ys)
    then show ?thesis by (simp add: gave_up_def RecordNodeStatusChange_def)
  next
    case (worker_gives xs item k ys u c)
    then show ?thesis using sys_invD(10) [OF i, of "(item, Giving k)"] by simp
  next
    case (worker_gave xs item k ys)
    then show ?thesis using sys_invD(10) [OF i, of "(item, Giving k)"] by simp
  next
    case (worker_requeue xs item ys r c)
    then have "c = (ctl s)\<lparr>nodeCIDRUpdateChannel := nodeCIDRUpdateChannel (ctl s) @ [item]\<rparr>"
      by (simp add: queueAfterWait_returned)
    then have "sys_inv cluster s'"
      by (intro inv_items_moved [OF i]) (use worker_requeue in \<open>auto simp: items_def holders_def\<close>)
    then show ?thesis ..
  qed
qed

lemma sys_start_inv:
  assumes cl: "clients_ok env cluster" and st: "sys_start env cluster c0 s"
  shows "sys_inv cluster s"
proof -
  have env: "ip_family_ok env" "api_contract env cluster" using cl by (simp_all add: clients_ok_def)
  obtain w0 where w0: "Start env True c0 w0 = (Inr (), ctl s, world s)"
    using st by (auto simp: sys_start_def)
  let ?c = "c0\<lparr>startCtx := Some False\<rparr>"
  obtain r c1 w1 where rc: "reconcileState env ?c w0 = (r, c1, w1)" by (rule prod_cases3)
  then have r: "r = Inr ()" "\<not> reconcileReady c1" "world s = w1"
      "ctl s = c1\<lparr>reconcileReady := True, workers := workers c1 + cidrUpdateWorkers\<rparr>"
    using w0 by (auto simp: Start_def Let_def split: sum.splits go_err.splits if_splits)
  then obtain nodes where n: "api_List env w0 = (Inr nodes, w1)" "reconcileLoop env nodes ?c = (Inr (), c1)"
    using rc by (auto simp: reconcileState_def split: prod.splits sum.splits)
  have nodes: "nodes = cluster (world s)"
    using api_contractD(3,4) [OF env(2) n(1)] r(3) by simp
  have inv: "alloc_inv ?c" using st by (simp add: sys_start_def)
  have sd: "set_step ?c c1" by (rule reconcileLoop_step [OF inv n(2)])
  have ap: "apart ?c = apart c0"
    by (intro ext) (simp add: apart_def net_cells_def cells_at_def)
  let ?H = "\<Sum>n\<in>#mset nodes. placed 0 (node_nets n)"
  have "holds_all c1 ({#} + ?H)"
    by (rule reconcileLoop_holds [OF env(1) _ holds_all_empty [OF inv] n(2)])
      (use st nodes in \<open>simp_all add: sys_start_def ap clear_def\<close>)
  then have h: "holds_all (ctl s) ?H" by (simp add: r(4))
  have "nodeCIDRUpdateChannel (ctl s) = []" and P: "nodesInProcessing c1 = nodesInProcessing c0"
    using st set_step_fields [OF sd] by (simp_all add: r(4) sys_start_def)
  then have it: "items s = []" and ch: "nodeCIDRUpdateChannel (ctl s) = []"
    using st by (simp_all add: items_def sys_start_def)
  have "(\<Sum>p\<in>#mset (view nodes). placed 0 (v4_nets (snd p))) = ?H"
    by (simp add: view_def node_nets_def [abs_def] image_mset.compositionality comp_def)
  moreover have "call_holds (snd x) = {#}" if "x \<in> set (handling s)" for x
    using st that by (cases "snd x") (auto simp: sys_start_def)
  then have "(\<Sum>x\<in>#mset (handling s). call_holds (snd x)) = {#}" by simp
  ultimately have hs: "holders cluster s = ?H"
    using st ch nodes by (simp add: holders_def sys_start_def)
  have "supported c1" using supported_params [OF set_step_params [OF sd]] st
    by (simp add: sys_start_def supported_def)
  then have v4: "supported (ctl s)" by (simp add: r(4) supported_def)
  have "map fst (view (cluster (world s))) = map Name (cluster (world s))" by (simp add: view_def)
  then show ?thesis
    unfolding sys_inv_def using h hs it v4 st
    by (auto simp: sys_start_def r(4) mem_view busy_def P call_ok_def)
qed

lemma lost_node_step: "sys_step env cluster s s' \<Longrightarrow> lost_node s \<Longrightarrow> lost_node s'"
  by (induction rule: sys_step.induct) simp_all

lemma sys_run_inv:
  assumes cl: "clients_ok env cluster" and st: "sys_start env cluster c0 s"
    and run: "(sys_step env cluster)\<^sup>*\<^sup>* s s'" and ok: "\<not> gave_up (ctl s')" "\<not> lost_node s'"
  shows "sys_inv cluster s'"
  using run ok
proof (induction rule: rtranclp_induct)
  case base
  show ?case by (rule sys_start_inv [OF cl st])
next
  case (step t u)
  have "alloc_inv (ctl s)" using sys_start_inv [OF cl st] by (auto simp: sys_inv_def dest: holds_allD)
  from sys_run_extends [OF step.hyps(1) this] have "alloc_inv (ctl t)" by (simp add: extends_def)
  then have "extends (ctl t) (ctl u)" by (rule sys_step_extends [OF step.hyps(2)])
  then have "\<not> gave_up (ctl t)" "\<not> lost_node t"
    using gave_up_extends lost_node_step [OF step.hyps(2)] step.prems by blast+
  then show ?case using sys_step_inv [OF cl step.IH step.hyps(2)] step.prems by blast
qed


subsection \<open>No address twice\<close>

text \<open>Two networks in range of a set without a common cell have no common address.\<close>

lemma cells_apart_addrs:
  assumes wf: "cset_wf s" and a: "is_canon a" "cells_of s a \<noteq> {}" and b: "is_canon b" "cells_of s b \<noteq> {}"
    and d: "cells_of s a \<inter> cells_of s b = {}"
  shows "net_addrs a \<inter> net_addrs b = {}"
proof -
  obtain l m n where wp: "wf_params s l m n" using wf by (rule cset_wf_params)
  note C = wf_paramsD(6) [OF wp]
  have sub: "net_addrs x \<subseteq> net_addrs (clusterCIDR s)"
    if x: "is_canon x" "cells_of s x \<noteq> {}" "is_canon y" "cells_of s y \<noteq> {}" "cells_of s x \<inter> cells_of s y = {}" for x y
  proof -
    obtain l' k where k': "canon l' k x" using x(1) by (auto simp: is_canon_def)
    have len: "length (IP x) = length (IP (clusterCIDR s))" "touched s x \<noteq> {}"
      using x(2) by (auto simp: cells_of_def split: if_splits)
    then have k: "canon l k x" using k' canonD(1) [OF k'] wf_paramsD(10) [OF wp] by simp
    have r: "in_range s x" by (rule touched_in_range [OF wf k len(2,1)])
    show ?thesis
    proof (cases "m \<le> k")
      case True
      then have "net_first x \<in> net_addrs (clusterCIDR s)"
        using r in_range_iff_meets [OF wp k] canon_meet_first [OF k C] by simp
      then show ?thesis using canon_nested [OF k C True net_first_in] by blast
    next
      case False
      then have "net_first (clusterCIDR s) \<in> net_addrs x"
        using r in_range_iff_meets [OF wp k] canon_meet_first [OF C k] by (auto simp: Int_commute)
      then have "touched s x = {..< nat (maxCIDRs s)}" using touched_all [OF wp k] False by simp
      then have "cells_of s y \<subseteq> cells_of s x"
        using touched_bounded [of s y] len(1) by (auto simp: cells_of_def)
      then show ?thesis using x(4,5) by blast
    qed
  qed
  have "touched s a \<inter> touched s b = {}"
    using a(2) b(2) d by (auto simp: cells_of_def split: if_splits)
  then show ?thesis by (rule cells_disjoint_addrs [OF wf sub [OF a b d]])
qed

text \<open>Two holdings in one set have no address in common.\<close>

lemma holds_all_disjoint:
  assumes h: "holds_all c N" and ab: "{#(j, a), (j, b)#} \<subseteq># N" and j: "j < length (cidrSets c)"
  shows "net_addrs a \<inter> net_addrs b = {}"
proof -
  have "holds_all c {#(j, a), (j, b)#}" by (rule holds_all_mono [OF h ab])
  then have hs: "cs.holds (cidrSets c ! j) {#a, b#}"
    using j unfolding holds_all_def by (auto dest!: spec [of _ j])
  have "cset_wf (cidrSets c ! j)"
    using alloc_inv_nth [OF holds_allD [OF h] j] by (simp add: cset_inv_def)
  moreover have "cells_of (cidrSets c ! j) a \<inter> cells_of (cidrSets c ! j) b = {}"
    using cs.holds_disjoint hs by blast
  ultimately show ?thesis
    using hs by (intro cells_apart_addrs) (auto simp: cs.holds_def)
qed

lemma two_parts:
  assumes "a \<in># A" "b \<in># B"
  shows "{#a, b#} \<subseteq># A + B"
  using subset_mset.add_mono [of "{#a#}" A "{#b#}" B] assms by (simp add: add_mset_commute)

lemma placed_pair:
  assumes "placed 0 ns + placed 0 ms \<subseteq># N" "j < length ns" "j < length ms"
  shows "{#(j, ns ! j), (j, ms ! j)#} \<subseteq># N"
proof -
  have "(j, ns ! j) \<in># placed 0 ns" "(j, ms ! j) \<in># placed 0 ms" using assms(2,3) by (simp_all add: in_placed)
  then show ?thesis by (rule subset_mset.trans [OF two_parts assms(1)])
qed

lemma sys_inv_disjoint:
  assumes i: "sys_inv cluster s" and v: "cluster (world s) = xs @ a # ys @ b # zs"
    and j: "j < length (node_nets a)" "j < length (node_nets b)" "j < length (cidrSets (ctl s))"
  shows "net_addrs (node_nets a ! j) \<inter> net_addrs (node_nets b ! j) = {}"
proof (rule holds_all_disjoint [OF sys_invD(1) [OF i] placed_pair [OF _ j(1,2)] j(3)])
  let ?f = "\<lambda>p. placed 0 (v4_nets (snd p))"
  have "(\<Sum>p\<in>#mset (view (cluster (world s))). ?f p) = placed 0 (node_nets a) + placed 0 (node_nets b)
      + ((\<Sum>p\<in>#mset (view xs). ?f p) + (\<Sum>p\<in>#mset (view ys). ?f p) + (\<Sum>p\<in>#mset (view zs). ?f p))"
    unfolding v by (simp add: node_nets_def)
  then have "placed 0 (node_nets a) + placed 0 (node_nets b) \<subseteq># (\<Sum>p\<in>#mset (view (cluster (world s))). ?f p)"
    by (simp only: mset_subset_eq_add_left)
  also have "\<dots> \<subseteq># holders cluster s"
    unfolding holders_def by (simp only: add.assoc mset_subset_eq_add_left)
  finally show "placed 0 (node_nets a) + placed 0 (node_nets b) \<subseteq># holders cluster s" .
qed

end
