(* ===== verification/Examples.thy ===== *)
theory Examples
  imports MainProgram SystemInv
begin

text \<open>
  Concrete instances: a cluster CIDR \<open>10.0.0.0/30\<close> with nodes of one address, an allocator
  with this one set, and clients that answer from a list of nodes. They show that the
  hypotheses of the development's theorems can hold together.
\<close>

subsection \<open>A set of four blocks\<close>

definition ex_cidr :: IPNet where
  "ex_cidr = \<lparr>IP = [10, 0, 0, 0], Mask = [255, 255, 255, 252]\<rparr>"

definition ex_host :: "nat \<Rightarrow> IPNet" where
  "ex_host i = \<lparr>IP = [10, 0, 0, of_nat i], Mask = [255, 255, 255, 255]\<rparr>"

definition ex_set :: CidrSet where
  "ex_set = \<lparr>clusterCIDR = ex_cidr, clusterMaskSize = 30, nodeMask = [255, 255, 255, 255],
     nodeMaskSize = 32, maxCIDRs = 4, allocatedCIDRs = 0, nextCandidate = 0, used = 0,
     label = ''10.0.0.0/30''\<rparr>"

lemma ex_cidr_canon: "canon 4 30 ex_cidr"
proof -
  have "mask_bytes 4 30 = [255, 255, 255, 252]" by code_simp
  moreover have "ip_val [10, 0, 0, 0] = 167772160" by simp
  ultimately show ?thesis by (simp add: canon_def ex_cidr_def)
qed

lemma ex_host_canon: "canon 4 32 (ex_host i)"
proof -
  have "mask_bytes 4 32 = [255, 255, 255, 255]" by code_simp
  then show ?thesis by (simp add: canon_def ex_host_def)
qed

lemma ex_set_new: "NewCIDRSet ex_cidr 32 False = (Inr ex_set, registerCidrsetMetrics False)"
  by code_simp

lemma ex_set_inv: "cset_inv ex_set" "used_set ex_set = {}"
proof -
  obtain s where "NewCIDRSet ex_cidr (int 32) False = (Inr s, registerCidrsetMetrics False)"
    "cset_inv s" "used_set s = {}"
    by (rule NewCIDRSet_wf [OF ex_cidr_canon, of 32 False]) simp_all
  then show "cset_inv ex_set" "used_set ex_set = {}" using ex_set_new by simp_all
qed

lemma ex_set_wf: "cset_wf ex_set"
  using ex_set_inv(1) by (simp add: cset_inv_def)

lemma ex_set_simps [simp]: "maxCIDRs ex_set = 4" "clusterCIDR ex_set = ex_cidr"
  "allocatedCIDRs ex_set = 0" "nextCandidate ex_set = 0" "length (IP ex_cidr) = 4"
  by (simp_all add: ex_set_def ex_cidr_def)

lemma ex_set_block: "indexToCIDRBlock ex_set 2 = ex_host 2"
  by code_simp


subsection \<open>Clients that answer from a list of nodes\<close>

definition ex_eni :: NetworkInterface where
  "ex_eni = \<lparr>NetworkInterfaceId = Some ''eni-1'', Ipv6Prefixes = [Some ''2001:db8::/80'']\<rparr>"

lemma ex_hex_group:
  "hex_group 0 0 ''2001:db8::'' = Some (4, 8193, '':db8::'')"
  "hex_group 0 0 ''db8::'' = Some (3, 3512, ''::'')"
  by (simp_all add: hex_val_def)

lemma ex_groups:
  "groups_loop (Suc (Suc k)) ''2001:db8::'' [] None = Some ([], [0x20, 0x01, 0x0d, 0xb8], Some 4)"
  by (simp add: ex_hex_group del: hex_group.simps)

lemma ex_prefix: "ipv6_prefix ''2001:db8::/80''"
proof -
  let ?ip = "[0x20, 0x01, 0x0d, 0xb8, 0, 0, 0, 0, 0, 0, 0, 0, 0, 0, 0, 0] :: byte list"
  have "groups_loop 8 ''2001:db8::'' [] None = Some ([], [0x20, 0x01, 0x0d, 0xb8], Some 4)"
    using ex_groups [of 6] by simp
  moreover have "replicate 12 (0 :: byte) = [0, 0, 0, 0, 0, 0, 0, 0, 0, 0, 0, 0]" by code_simp
  ultimately have "ParseAddr ''2001:db8::'' = Some (Addr6 ?ip [])"
    by (simp add: ParseAddr_def parseIPv6_def del: groups_loop.simps)
  moreover have "to4 ?ip = []" by (simp add: to4_def v4InV6Prefix_def ip_len)
  moreover have "Itoa 80 = ''80''" by code_simp
  ultimately show ?thesis
    unfolding ipv6_prefix_def by (intro exI [of _ "''2001:db8::''"] exI [of _ 80] exI [of _ ?ip]) simp
qed

definition ex_env :: "Node list api" where
  "ex_env = \<lparr>
     api_Get = (\<lambda>n w. (case find (\<lambda>x. Name x = n) w of
        None \<Rightarrow> Inl (StatusError ''NotFound'') | Some x \<Rightarrow> Inr x, w)),
     api_List = (\<lambda>w. (Inr w, w)),
     api_Patch = (\<lambda>n j w. if n \<in> Name ` set w then (None, patched n j w)
        else (Some (StatusError ''NotFound''), w)),
     api_DescribeNetworkInterfaces = (\<lambda>f w. (Inr [ex_eni], w)),
     api_IsServerTimeout = (\<lambda>e. StatusError ''ServerTimeout'' \<in> set (err_chain e)),
     api_IsIPv6CIDR = (\<lambda>n. length (IP n) = 16),
     api_authority_ok = (\<lambda>a. True)\<rparr>"

lemma ex_clients: "clients_ok ex_env (\<lambda>w. w)"
proof -
  have "node \<in> set w \<and> Name node = n" if "find (\<lambda>x. Name x = n) w = Some node" for n w node
    using that by (induction w) (auto split: if_splits)
  then have "api_contract ex_env (\<lambda>w. w)"
    by (auto simp: api_contract_def ex_env_def split: option.splits if_splits)
  moreover have "ec2_prefixes_ok ex_env"
    using ex_prefix by (simp add: ec2_prefixes_ok_def ex_env_def ex_eni_def)
  moreover have "ip_family_ok ex_env" by (simp add: ip_family_ok_def ex_env_def)
  ultimately show ?thesis by (simp add: clients_ok_def)
qed

lemma ex_family: "ip_family_ok ex_env"
  using ex_clients by (simp add: clients_ok_def)

subsection \<open>An allocator with one set\<close>

definition ex_alloc :: cidrAllocator where
  "ex_alloc = \<lparr>clusterCIDRs = [ex_cidr], cidrSets = [ex_set], nodeCIDRUpdateChannel = [],
     recorder = [], nodesInProcessing = {}, mode = ''ipv4'', primaryIPFamily = ''ipv4'',
     tickPeriod = 1, nodeCIDRMaskSizeIPv6 = 80, reconcileReady = False, startCtx = None,
     workers = 0, metricLog = snd (registerCidrsetMetrics False)\<rparr>"

lemma ex_alloc_new:
  "NewCIDRRangeAllocator False \<lparr>ClusterCIDRs = [ex_cidr], NodeCIDRMaskSizes = [32]\<rparr> ''ipv4'' 1 80 ''ipv4'' False = (Inr ex_alloc, True)"
  by (simp add: NewCIDRRangeAllocator_def ex_set_new ex_alloc_def registerCidrsetMetrics_def)

lemma ex_alloc_inv: "alloc_inv ex_alloc" "supported ex_alloc"
  using ex_set_inv(1)
  by (simp_all add: alloc_inv_def supported_def ex_alloc_def ex_set_def ex_cidr_def)

definition ex_node :: "string \<Rightarrow> nat \<Rightarrow> Node" where
  "ex_node nm i = \<lparr>Name = nm, UID = nm, PodCIDR = IPNet_String (ex_host i),
     PodCIDRs = [IPNet_String (ex_host i)], ProviderID = []\<rparr>"

definition ex_fresh :: "string \<Rightarrow> Node" where
  "ex_fresh nm = \<lparr>Name = nm, UID = nm, PodCIDR = [], PodCIDRs = [], ProviderID = []\<rparr>"

lemma ex_text [simp]:
  "ParseCIDR (IPNet_String (ex_host i)) = Some (ex_host i)" "is_canon (ex_host i)"
  "length (IP (ex_host i)) = 4"
  using ParseCIDR_String_v4 [OF ex_host_canon] ex_host_canon by (auto simp: ex_host_def)

lemma ex_node_nets [simp]: "node_nets (ex_node nm i) = [ex_host i]" "std_cidrs (PodCIDRs (ex_node nm i))"
  by (simp_all add: node_nets_def ex_node_def v4_net_def)

text \<open>The controller started on a cluster of two nodes with a block each.\<close>

definition ex_nodes :: "Node list" where
  "ex_nodes = [ex_node ''a'' 0, ex_node ''b'' 1]"

definition ex_used :: "nat \<Rightarrow> int \<Rightarrow> CidrSet" where
  "ex_used bits n = ex_set\<lparr>used := bits, allocatedCIDRs := n\<rparr>"

definition ex_usage :: "int \<Rightarrow> metric list" where
  "ex_usage n = [AllocationsInc ''10.0.0.0/30'', UsageSet ''10.0.0.0/30'' n 4]"

lemma ex_occupy:
  "Occupy ex_set (Some (ex_host 0)) = (Inr (), ex_used 1 1, ex_usage 1)"
  "Occupy (ex_used 1 1) (Some (ex_host 1)) = (Inr (), ex_used 3 2, ex_usage 2)"
  by code_simp+

definition ex_started :: cidrAllocator where
  "ex_started = ex_alloc\<lparr>cidrSets := [ex_used 3 2], reconcileReady := True, startCtx := Some False,
     workers := 30, metricLog := metricLog ex_alloc @ ex_usage 1 @ ex_usage 2\<rparr>"

lemma ex_start: "Start ex_env True ex_alloc ex_nodes = (Inr (), ex_started, ex_nodes)"
proof -
  have v4: "\<not> api_IsIPv6CIDR ex_env (ex_host i)" for i by (simp add: ex_env_def)
  have l: "api_List ex_env w = (Inr w, w)" for w by (simp add: ex_env_def)
  show ?thesis
    by (simp add: Start_def reconcileState_def l ex_nodes_def ex_node_def occupyCIDRsWithoutRemoval_def
        v4 on_set_def ex_occupy [unfolded One_nat_def] ex_alloc_def ex_started_def cidrUpdateWorkers_def)
qed

definition ex_system :: "Node list system" where
  "ex_system = \<lparr>ctl = ex_started, world = ex_nodes, handling = [], waiting = [], inflight = [],
     deleted = [], releases = [], lost_node = False\<rparr>"

lemma ex_cells: "i < 4 \<Longrightarrow> cells_of ex_set (ex_host i) = {i}"
proof -
  assume i: "i < 4"
  obtain l m n where wp: "wf_params ex_set l m n" using ex_set_wf by (rule cset_wf_params)
  have b: "indexToCIDRBlock ex_set (int j) = ex_host j" if "j \<in> {0, 1, 2, 3}" for j
    using that by (elim insertE emptyE) (simp, code_simp)+
  have "i = 0 \<or> i = 1 \<or> i = 2 \<or> i = 3" using i by linarith
  then have "i \<in> {0, 1, 2, 3}" by blast
  then have "ex_host i = indexToCIDRBlock ex_set (int i)" using b by metis
  moreover have "int i < maxCIDRs ex_set" using i by (simp add: ex_set_def)
  ultimately have "touched ex_set (ex_host i) = {i}" using touched_block [OF wp, of "int i"] by simp
  then show ?thesis by (simp add: cells_of_def ex_set_def ex_cidr_def ex_host_def)
qed

lemma ex_sys_start: "sys_start ex_env (\<lambda>w. w) ex_alloc ex_system"
proof -
  have "\<exists>w0. Start ex_env True ex_alloc w0 = (Inr (), ex_started, ex_nodes)"
    using ex_start by blast
  moreover have "apart ex_alloc [ex_host 1] [ex_host 0]"
    by (simp add: apart_def net_cells_def cells_at_def ex_alloc_def ex_cells)
  ultimately show ?thesis
    using ex_alloc_inv
    by (simp add: sys_start_def ex_system_def ex_nodes_def)
      (simp add: ex_alloc_def ex_node_def)
qed

end
