(* ===== verification/SetTheorems.thy ===== *)
theory SetTheorems
  imports Examples
begin

text \<open>
  The theorems on the CIDR set (\<open>pkg/ipam/cidrset\<close>): the address arithmetic, the
  specification of its operations, their invariant and metrics, and the construction of a set.
  Each is followed by an application to a concrete set.
\<close>

subsection \<open>Sequences of operations\<close>

datatype set_op = DoAllocate | DoOccupy "IPNet option" | DoRelease "IPNet option"

fun run_op :: "set_op \<Rightarrow> CidrSet \<Rightarrow> CidrSet \<times> metric list" where
  "run_op DoAllocate s = snd (AllocateNext s)"
| "run_op (DoOccupy c) s = snd (Occupy s c)"
| "run_op (DoRelease c) s = snd (Release s c)"

fun run_ops :: "set_op list \<Rightarrow> CidrSet \<Rightarrow> CidrSet \<times> metric list" where
  "run_ops [] s = (s, [])"
| "run_ops (x # xs) s = (let (s1, ms) = run_op x s; (s2, ms') = run_ops xs s1 in (s2, ms @ ms'))"

text \<open>Allocations minus releases counted by the metrics.\<close>

fun metric_value :: "metric \<Rightarrow> int" where
  "metric_value (AllocationsInc l) = 1"
| "metric_value (ReleasesInc l) = - 1"
| "metric_value _ = 0"

definition metric_balance :: "metric list \<Rightarrow> int" where
  "metric_balance ms = sum_list (map metric_value ms)"

text \<open>\<open>n\<close> allocations in a row.\<close>

fun allocate_n :: "nat \<Rightarrow> CidrSet \<Rightarrow> (cidr_error + IPNet list) \<times> CidrSet" where
  "allocate_n 0 s = (Inr [], s)"
| "allocate_n (Suc n) s =
     (case AllocateNext s of (Inl e, s', _) \<Rightarrow> (Inl e, s')
      | (Inr b, s', _) \<Rightarrow>
        (case allocate_n n s' of (Inl e, s'') \<Rightarrow> (Inl e, s'') | (Inr bs, s'') \<Rightarrow> (Inr (b # bs), s'')))"

subsection \<open>Lemmas\<close>

lemma run_op_any:
  assumes "cset_inv s" "run_op x s = (s', ms)"
  shows "cset_inv s' \<and> same_config s s'"
proof (cases x)
  case DoAllocate
  obtain r where "AllocateNext s = (r, s', ms)" using assms(2) DoAllocate by (cases "AllocateNext s") auto
  then show ?thesis using AllocateNext_any [OF assms(1)] by blast
next
  case (DoOccupy c)
  obtain r where "Occupy s c = (r, s', ms)" using assms(2) DoOccupy by (cases "Occupy s c") auto
  then show ?thesis using Occupy_any [OF assms(1)] by blast
next
  case (DoRelease c)
  obtain r where "Release s c = (r, s', ms)" using assms(2) DoRelease by (cases "Release s c") auto
  then show ?thesis using Release_any [OF assms(1)] by blast
qed

lemma run_ops_any: "cset_inv s \<Longrightarrow> run_ops xs s = (s', ms) \<Longrightarrow> cset_inv s' \<and> same_config s s'"
proof (induction xs arbitrary: s ms)
  case (Cons x xs)
  obtain s1 m1 where 1: "run_op x s = (s1, m1)" by (rule prod.exhaust)
  obtain m2 where 2: "run_ops xs s1 = (s', m2)"
    using Cons.prems(2) 1 by (auto split: prod.splits)
  then show ?case
    using run_op_any [OF Cons.prems(1) 1] Cons.IH [OF _ 2] same_config_trans by blast
qed simp

lemma metric_balance_simps [simp]:
  "metric_balance [] = 0" "metric_balance (m # ms) = metric_value m + metric_balance ms"
  "metric_balance (ms @ ms') = metric_balance ms + metric_balance ms'"
  by (simp_all add: metric_balance_def)

lemma occupyRange_balance:
  "occupyRange i j s = (s', ms) \<Longrightarrow> allocatedCIDRs s' = allocatedCIDRs s + metric_balance ms"
proof (induction i j s arbitrary: s' ms rule: occupyRange.induct)
  case (1 i j s)
  let ?t = "s\<lparr>used := big_SetBit (used s) i True, allocatedCIDRs := allocatedCIDRs s + 1\<rparr>"
  consider "j < i" | "i \<le> j" "big_Bit (used s) i" | "i \<le> j" "\<not> big_Bit (used s) i" by linarith
  then show ?case
  proof cases
    case 3
    obtain t ms' where t: "occupyRange (i + 1) j ?t = (t, ms')" by (rule prod.exhaust)
    then have "s' = t" "ms = AllocationsInc (label s) # ms'"
      using "1.prems" 3 by (auto simp: occupyRange.simps [of i])
    then show ?thesis using "1.IH"(1) [OF 3 t] by simp
  qed (use "1.prems" "1.IH"(2) in \<open>auto simp: occupyRange.simps [of i]\<close>)
qed

lemma releaseRange_balance:
  "releaseRange i j s = (s', ms) \<Longrightarrow> allocatedCIDRs s' = allocatedCIDRs s + metric_balance ms"
proof (induction i j s arbitrary: s' ms rule: releaseRange.induct)
  case (1 i j s)
  let ?t = "s\<lparr>used := big_SetBit (used s) i False, allocatedCIDRs := allocatedCIDRs s - 1\<rparr>"
  consider "j < i" | "i \<le> j" "\<not> big_Bit (used s) i" | "i \<le> j" "big_Bit (used s) i" by linarith
  then show ?case
  proof cases
    case 3
    obtain t ms' where t: "releaseRange (i + 1) j ?t = (t, ms')" by (rule prod.exhaust)
    then have "s' = t" "ms = ReleasesInc (label s) # ms'"
      using "1.prems" 3 by (auto simp: releaseRange.simps [of i])
    then show ?thesis using "1.IH"(1) [OF 3 t] by simp
  qed (use "1.prems" "1.IH"(2) in \<open>auto simp: releaseRange.simps [of i]\<close>)
qed

lemma run_op_balance:
  "run_op x s = (s', ms) \<Longrightarrow> allocatedCIDRs s' = allocatedCIDRs s + metric_balance ms"
  by (cases x)
    (auto simp: AllocateNext_def Occupy_def Release_def Let_def
      dest: occupyRange_balance releaseRange_balance split: sum.splits prod.splits if_splits)

lemma run_ops_balance:
  "run_ops xs s = (s', ms) \<Longrightarrow> allocatedCIDRs s' = allocatedCIDRs s + metric_balance ms"
proof (induction xs arbitrary: s ms)
  case (Cons x xs)
  obtain s1 m1 where 1: "run_op x s = (s1, m1)" by (rule prod.exhaust)
  obtain m2 where 2: "run_ops xs s1 = (s', m2)" "ms = m1 @ m2"
    using Cons.prems 1 by (auto split: prod.splits)
  then show ?case using Cons.IH [OF 2(1)] run_op_balance [OF 1] by simp
qed simp

lemma allocate_n_holds:
  assumes "cs.holds s H" "n + card (used_set s) \<le> nat (maxCIDRs s)"
  shows "\<exists>ns s'. allocate_n n s = (Inr ns, s') \<and> length ns = n \<and> cs.holds s' (mset ns + H)
    \<and> same_config s s' \<and> card (used_set s') = card (used_set s) + n"
  using assms
proof (induction n arbitrary: s H)
  case 0
  then show ?case by auto
next
  case (Suc n)
  have inv: "cset_inv s" by (rule cs.holds_inv [OF Suc.prems(1)])
  obtain b s1 m where a: "AllocateNext s = (Inr b, s1, m)"
    using cs.alloc_possible [OF inv] Suc.prems(2) by force
  obtain i where i: "same_config s s1" "i \<notin> used_set s" "used_set s1 = insert i (used_set s)"
    using cs.alloc_ok [OF inv a] by blast
  have c1: "card (used_set s1) = Suc (card (used_set s))" using i by (simp add: finite_used)
  have mx: "maxCIDRs s1 = maxCIDRs s" by (rule same_configD(5) [OF i(1)])
  obtain ns s' where ns: "allocate_n n s1 = (Inr ns, s')" "length ns = n"
    "cs.holds s' (mset ns + add_mset b H)" "same_config s1 s'"
    "card (used_set s') = card (used_set s1) + n"
    using Suc.IH [OF cs.holds_alloc [OF Suc.prems(1) a]] Suc.prems(2) c1 mx by auto
  show ?case
    using ns a c1 same_config_trans [OF i(1) ns(4)] by simp
qed

lemma pair_submset:
  assumes "i < j" "j < length xs"
  shows "{#xs ! i, xs ! j#} \<subseteq># mset xs"
proof -
  have "xs = take j xs @ xs ! j # drop (Suc j) xs" using assms(2) by (rule id_take_nth_drop)
  then have m: "mset xs = add_mset (xs ! j) (mset (take j xs) + mset (drop (Suc j) xs))"
    by (metis mset_append mset.simps(2) union_mset_add_mset_right)
  have "xs ! i \<in> set (take j xs)" using assms by (auto simp: in_set_conv_nth)
  then have "xs ! i \<in># mset (take j xs) + mset (drop (Suc j) xs)" by simp
  then have "{#xs ! i#} \<subseteq># mset (take j xs) + mset (drop (Suc j) xs)" by simp
  then show ?thesis unfolding m by (simp add: add_mset_commute)
qed

lemma holds_pair_disjoint:
  assumes "cs.holds s H" "{#a, b#} \<subseteq># H"
  shows "net_addrs a \<inter> net_addrs b = {}"
proof -
  have h: "cs.holds s {#a, b#}" by (rule cs.holds_mono [OF assms])
  then have "cset_wf s" by (simp add: cs.holds_def cset_inv_def)
  moreover have "cells_of s a \<inter> cells_of s b = {}" by (rule cs.holds_disjoint [OF h])
  ultimately show ?thesis
    using h by (intro cells_apart_addrs) (simp_all add: cs.holds_def)
qed


subsection \<open>Address arithmetic\<close>

text \<open>
  C10: The index of a block and the block of an index are inverse: for every index of the set,
  reading the block back as an index returns it, in both address families.
\<close>

theorem index_of_block:
  assumes "cset_wf s" "0 \<le> i" "i < maxCIDRs s"
  shows "getIndexForCIDR s (indexToCIDRBlock s i) = Inr i"
  using cset_wf_params [OF assms(1)] getIndexForCIDR_block assms(2,3) by metis

theorem index_of_block_witness:
  "cset_wf ex_set \<and> getIndexForCIDR ex_set (indexToCIDRBlock ex_set 2) = Inr 2"
  using index_of_block [OF ex_set_wf, of 2] ex_set_wf by simp

text \<open>
  C9: The computation of a block on a 32-bit word, or on two 64-bit halves with the bits of the
  index split between them, is the plain arithmetic on the address as one number: block \<open>i\<close>
  starts \<open>i\<close> block sizes after the cluster, with no overflow and no bit lost.
\<close>

theorem block_is_arithmetic:
  assumes "cset_wf s" "0 \<le> i" "i < maxCIDRs s"
  shows "ip_val (IP (indexToCIDRBlock s i))
      = ip_val (IP (clusterCIDR s)) + nat i * 2 ^ (8 * length (IP (clusterCIDR s)) - nat (nodeMaskSize s))
    \<and> length (IP (indexToCIDRBlock s i)) = length (IP (clusterCIDR s))
    \<and> Mask (indexToCIDRBlock s i) = nodeMask s"
proof -
  obtain l m n where wf: "wf_params s l m n" "l = length (IP (clusterCIDR s))"
    using assms(1) by (rule cset_wf_params)
  show ?thesis
    using indexToCIDRBlock_val [OF wf(1) assms(2,3)] wf(2)
    by (simp add: block_start_def net_first_def indexToCIDRBlock_def)
qed

theorem block_is_arithmetic_witness:
  "cset_wf ex_set \<and> ip_val (IP (indexToCIDRBlock ex_set 2)) = 167772162"
  using block_is_arithmetic [OF ex_set_wf, of 2] ex_set_wf
  by (simp add: ex_set_def ex_cidr_def)

lemma blocks_cover:
  assumes "cset_wf s"
  shows "(\<Union>i\<in>{0..<maxCIDRs s}. net_addrs (indexToCIDRBlock s i)) = net_addrs (clusterCIDR s)"
proof
  obtain l m n where wf: "wf_params s l m n" using assms by (rule cset_wf_params)
  show "(\<Union>i\<in>{0..<maxCIDRs s}. net_addrs (indexToCIDRBlock s i)) \<subseteq> net_addrs (clusterCIDR s)"
    using block_subset_cluster [OF wf] by fastforce
  show "net_addrs (clusterCIDR s) \<subseteq> (\<Union>i\<in>{0..<maxCIDRs s}. net_addrs (indexToCIDRBlock s i))"
  proof
    fix x assume x: "x \<in> net_addrs (clusterCIDR s)"
    have "int (block_index s x) < int (2 ^ (n - m))"
      using block_index_less [OF wf x] by (simp only: of_nat_less_iff)
    then have "int (block_index s x) < maxCIDRs s" by (simp add: wf_paramsD(8) [OF wf])
    then show "x \<in> (\<Union>i\<in>{0..<maxCIDRs s}. net_addrs (indexToCIDRBlock s i))"
      using in_block_iff [OF wf _ _ x, of "int (block_index s x)"] by auto
  qed
qed

lemma blocks_disjoint:
  assumes "cset_wf s" "0 \<le> i" "i < maxCIDRs s" "0 \<le> j" "j < maxCIDRs s" "i \<noteq> j"
  shows "net_addrs (indexToCIDRBlock s i) \<inter> net_addrs (indexToCIDRBlock s j) = {}"
proof -
  obtain l m n where wf: "wf_params s l m n" using assms(1) by (rule cset_wf_params)
  show ?thesis
    using assms(2-6) block_subset_cluster [OF wf, of i] in_block_iff [OF wf assms(2,3)]
      in_block_iff [OF wf assms(4,5)]
    by (fastforce simp: disjoint_iff)
qed

text \<open>
  C12: The blocks of a set partition the cluster CIDR: together they are its addresses, and two
  different blocks have no address in common.
\<close>

theorem blocks_partition:
  assumes "cset_wf s"
  shows "(\<Union>i\<in>{0..<maxCIDRs s}. net_addrs (indexToCIDRBlock s i)) = net_addrs (clusterCIDR s)
    \<and> (\<forall>i j. 0 \<le> i \<and> i < maxCIDRs s \<and> 0 \<le> j \<and> j < maxCIDRs s \<and> i \<noteq> j \<longrightarrow>
        net_addrs (indexToCIDRBlock s i) \<inter> net_addrs (indexToCIDRBlock s j) = {})"
  using blocks_cover [OF assms] blocks_disjoint [OF assms] by blast

theorem blocks_partition_witness:
  "cset_wf ex_set
    \<and> (\<Union>i\<in>{0..<4}. net_addrs (indexToCIDRBlock ex_set i)) = net_addrs ex_cidr
    \<and> net_addrs (indexToCIDRBlock ex_set 1) \<inter> net_addrs (indexToCIDRBlock ex_set 2) = {}"
  using blocks_partition [OF ex_set_wf] ex_set_wf by simp

text \<open>
  C11: The range of indices the code computes for a network, with its masks, its last address
  and the two special cases, is exact: for a network of the cluster's family that meets the
  cluster it is the set of blocks that share an address with the network, and for any other
  canonical network the answer is the out-of-range error.
\<close>

theorem indices_of_network:
  assumes "cset_wf s" "canon l k cidr"
  shows "if length (IP cidr) = length (IP (clusterCIDR s)) \<and> net_addrs cidr \<inter> net_addrs (clusterCIDR s) \<noteq> {}
    then (\<exists>b e. getBeginingAndEndIndices s (Some cidr) = Inr (int b, int e)
      \<and> {b..e} = {i. i < nat (maxCIDRs s) \<and> net_addrs (indexToCIDRBlock s (int i)) \<inter> net_addrs cidr \<noteq> {}})
    else getBeginingAndEndIndices s (Some cidr) = Inl (ErrOutOfClusterRange cidr (clusterCIDR s))"
proof -
  obtain l' m n where wf: "wf_params s l' m n" using assms(1) by (rule cset_wf_params)
  note len = wf_paramsD(10) [OF wf]
  have r: "in_range s cidr \<longleftrightarrow> length (IP cidr) = length (IP (clusterCIDR s))
      \<and> net_addrs cidr \<inter> net_addrs (clusterCIDR s) \<noteq> {}"
    using in_range_iff_meets [OF wf, of k cidr] assms(2) canonD(1) [OF assms(2)] len
    by (auto simp: in_range_def)
  show ?thesis
  proof (cases "in_range s cidr")
    case True
    then have "canon l' k cidr" using assms(2) canonD(1) [OF assms(2)] len by (simp add: in_range_def)
    then obtain b e where "getBeginingAndEndIndices s (Some cidr) = Inr (int b, int e)" "touched s cidr = {b..e}"
      using getBeginingAndEndIndices_in [OF wf _ True] by metis
    then show ?thesis using True unfolding r touched_def by auto
  next
    case False
    then show ?thesis using getBeginingAndEndIndices_out [OF wf assms(2) False] unfolding r by simp
  qed
qed

theorem indices_of_network_witness:
  "cset_wf ex_set \<and> canon 4 30 ex_cidr
    \<and> (\<exists>b e. getBeginingAndEndIndices ex_set (Some ex_cidr) = Inr (int b, int e)
      \<and> {b..e} = {i. i < 4 \<and> net_addrs (indexToCIDRBlock ex_set (int i)) \<inter> net_addrs ex_cidr \<noteq> {}})"
proof -
  have "net_addrs ex_cidr \<inter> net_addrs ex_cidr \<noteq> {}" using net_first_in [of ex_cidr] by blast
  then show ?thesis
    using indices_of_network [OF ex_set_wf ex_cidr_canon] ex_set_wf ex_cidr_canon by simp
qed


subsection \<open>The operations against their specification\<close>

lemma in_range_meets:
  assumes "cset_inv s" "canon l k cidr" "length (IP cidr) = length (IP (clusterCIDR s))"
    "net_addrs cidr \<inter> net_addrs (clusterCIDR s) \<noteq> {}"
  shows "in_range s cidr"
proof -
  obtain l' m n where wf: "wf_params s l' m n" using assms(1) cset_wf_params cset_inv_def by metis
  have "canon l' k cidr" using assms(2,3) canonD(1) [OF assms(2)] wf_paramsD(10) [OF wf] by simp
  then show ?thesis using in_range_iff_meets [OF wf] assms(4) by simp
qed

text \<open>
  C13: \<open>Occupy\<close> implements union: on a network that meets the cluster it succeeds, adds exactly
  the blocks that share an address with the network to the blocks in use, keeps the counter
  equal to their number and the next candidate as it was.
\<close>

theorem occupy_is_union:
  assumes "cset_inv s" "canon l k cidr" "length (IP cidr) = length (IP (clusterCIDR s))"
    "net_addrs cidr \<inter> net_addrs (clusterCIDR s) \<noteq> {}"
  shows "\<exists>s' ms. Occupy s (Some cidr) = (Inr (), s', ms)
    \<and> used_set s' = used_set s \<union>
        {i. i < nat (maxCIDRs s) \<and> net_addrs (indexToCIDRBlock s (int i)) \<inter> net_addrs cidr \<noteq> {}}
    \<and> allocatedCIDRs s' = int (card (used_set s')) \<and> nextCandidate s' = nextCandidate s"
  using assms(1,2)
proof (cases rule: Occupy_canon_cases)
  case (ok s' ms)
  then show ?thesis by (auto simp: occupied_by_def touched_def cset_inv_def)
next
  case out
  then show ?thesis using in_range_meets [OF assms] by simp
qed

theorem occupy_is_union_witness:
  "cset_inv ex_set \<and> canon 4 30 ex_cidr
    \<and> (\<exists>s' ms. Occupy ex_set (Some ex_cidr) = (Inr (), s', ms)
        \<and> allocatedCIDRs s' = int (card (used_set s')))"
proof -
  have "net_addrs ex_cidr \<inter> net_addrs ex_cidr \<noteq> {}" using net_first_in [of ex_cidr] by blast
  then show ?thesis
    using occupy_is_union [OF ex_set_inv(1) ex_cidr_canon] ex_set_inv(1) ex_cidr_canon by auto
qed

text \<open>
  C14: \<open>Release\<close> implements difference: it takes exactly the blocks that share an address with
  the network out of use, also when some of them were free already.
\<close>

theorem release_is_difference:
  assumes "cset_inv s" "canon l k cidr" "length (IP cidr) = length (IP (clusterCIDR s))"
    "net_addrs cidr \<inter> net_addrs (clusterCIDR s) \<noteq> {}"
  shows "\<exists>s' ms. Release s (Some cidr) = (Inr (), s', ms)
    \<and> used_set s' = used_set s -
        {i. i < nat (maxCIDRs s) \<and> net_addrs (indexToCIDRBlock s (int i)) \<inter> net_addrs cidr \<noteq> {}}
    \<and> allocatedCIDRs s' = int (card (used_set s')) \<and> nextCandidate s' = nextCandidate s"
  using assms(1,2)
proof (cases rule: Release_canon_cases)
  case (ok s' ms)
  then show ?thesis by (auto simp: released_by_def touched_def cset_inv_def)
next
  case out
  then show ?thesis using in_range_meets [OF assms] by simp
qed

theorem release_is_difference_witness:
  "cset_inv ex_set \<and> canon 4 30 ex_cidr
    \<and> (\<exists>s' ms. Release ex_set (Some ex_cidr) = (Inr (), s', ms)
        \<and> allocatedCIDRs s' = int (card (used_set s')))"
proof -
  have "net_addrs ex_cidr \<inter> net_addrs ex_cidr \<noteq> {}" using net_first_in [of ex_cidr] by blast
  then show ?thesis
    using release_is_difference [OF ex_set_inv(1) ex_cidr_canon] ex_set_inv(1) ex_cidr_canon by auto
qed

text \<open>
  C15: \<open>AllocateNext\<close> fails exactly when every block is in use, without a change. Otherwise it
  returns the first free block on the way round from the next candidate, marks it, moves the
  candidate behind it, and reports the number of blocks it passed, all of them in use.
\<close>

theorem allocate_first_free:
  assumes "cset_inv s"
  shows "if used_set s = {..< nat (maxCIDRs s)}
    then AllocateNext s = (Inl ErrCIDRRangeNoCIDRsRemaining, s, [])
    else (\<exists>k i s'. i = (nextCandidate s + int k) mod maxCIDRs s \<and> nat i \<notin> used_set s
      \<and> (\<forall>j<k. nat ((nextCandidate s + int j) mod maxCIDRs s) \<in> used_set s) \<and> int k < maxCIDRs s
      \<and> AllocateNext s = (Inr (indexToCIDRBlock s i), s',
          [AllocationsInc (label s), TriesObserve (label s) (int k),
           UsageSet (label s) (int (card (used_set s)) + 1) (maxCIDRs s)])
      \<and> used_set s' = insert (nat i) (used_set s) \<and> nextCandidate s' = (i + 1) mod maxCIDRs s)"
  using assms
proof (cases rule: AllocateNext_cases)
  case full
  then show ?thesis by simp
next
  case (fresh k i s' ms)
  have "nat i < nat (maxCIDRs s)" "nat i \<notin> used_set s"
    using round_robin_bounds [OF assms fresh(1)] fresh(1) by (auto simp: round_robin_def)
  then have ne: "used_set s \<noteq> {..< nat (maxCIDRs s)}" by blast
  have c: "allocatedCIDRs s = int (card (used_set s))" using assms by (simp add: cset_inv_def)
  have rr: "i = (nextCandidate s + int k) mod maxCIDRs s" "nat i \<notin> used_set s"
    "\<forall>j<k. nat ((nextCandidate s + int j) mod maxCIDRs s) \<in> used_set s" "int k < maxCIDRs s"
    using fresh(1) unfolding round_robin_def by blast+
  have al: "AllocateNext s = (Inr (indexToCIDRBlock s i), s',
      [AllocationsInc (label s), TriesObserve (label s) (int k),
       UsageSet (label s) (int (card (used_set s)) + 1) (maxCIDRs s)])"
    using fresh(3) unfolding fresh(5) c .
  have ab: "used_set s' = insert (nat i) (used_set s)" "nextCandidate s' = (i + 1) mod maxCIDRs s"
    using fresh(2) unfolding allocated_by_def by blast+
  show ?thesis
    unfolding if_not_P [OF ne] by (intro exI [of _ k] exI [of _ i] exI [of _ s'] conjI rr al ab)
qed

theorem allocate_first_free_witness:
  "cset_inv ex_set \<and> used_set ex_set \<noteq> {..< nat (maxCIDRs ex_set)}
    \<and> (\<exists>i s' ms. nat i \<notin> used_set ex_set \<and> AllocateNext ex_set = (Inr (indexToCIDRBlock ex_set i), s', ms)
        \<and> used_set s' = insert (nat i) (used_set ex_set))"
proof -
  have ne: "used_set ex_set \<noteq> {..< nat (maxCIDRs ex_set)}"
    using ex_set_inv(2) by (metis empty_iff ex_set_simps(1) lessThan_iff nat_numeral zero_less_numeral)
  show ?thesis
    using allocate_first_free [OF ex_set_inv(1), unfolded if_not_P [OF ne]] ne ex_set_inv(1) by blast
qed

text \<open>
  C17: Any sequence of operations with any arguments (networks out of range, of the other
  family, IPv4-mapped, nil) keeps the invariant of the set, in particular the counter equal to
  the number of blocks in use and the next candidate in range, and never changes its
  configuration. The metrics agree with the set: the allocations counted minus the releases
  counted are the change of the number of blocks in use, so a block that was in use already is
  not counted twice and a free one is not counted as released.
\<close>

theorem set_runs_keep_invariant:
  assumes "cset_inv s" "run_ops xs s = (s', ms)"
  shows "cset_inv s' \<and> allocatedCIDRs s' = int (card (used_set s')) \<and> used_set s' \<subseteq> {..< nat (maxCIDRs s)}
    \<and> clusterCIDR s' = clusterCIDR s \<and> nodeMaskSize s' = nodeMaskSize s \<and> maxCIDRs s' = maxCIDRs s
    \<and> metric_balance ms = int (card (used_set s')) - int (card (used_set s))"
proof -
  have r: "cset_inv s'" "same_config s s'" using run_ops_any [OF assms] by simp_all
  then show ?thesis
    using same_configD [OF r(2)] assms(1) run_ops_balance [OF assms(2)] by (simp add: cset_inv_def)
qed

theorem set_runs_keep_invariant_witness:
  "cset_inv ex_set \<and> (\<exists>s' ms. run_ops [DoAllocate, DoRelease None, DoOccupy (Some ex_cidr)] ex_set = (s', ms)
     \<and> cset_inv s' \<and> allocatedCIDRs s' = int (card (used_set s')) \<and> metric_balance ms = int (card (used_set s')))"
proof -
  obtain s' ms where r: "run_ops [DoAllocate, DoRelease None, DoOccupy (Some ex_cidr)] ex_set = (s', ms)"
    by (rule prod.exhaust)
  show ?thesis using set_runs_keep_invariant [OF ex_set_inv(1) r] r ex_set_inv by simp
qed

text \<open>
  C16: The capacity of a set: as many allocations as there are free blocks succeed in a row,
  each with a block of the cluster that shares no address with the others, and when the number
  of blocks is reached the next allocation fails.
\<close>

theorem capacity:
  assumes "cset_inv s" "n + card (used_set s) \<le> nat (maxCIDRs s)"
  shows "\<exists>bs s'. allocate_n n s = (Inr bs, s') \<and> length bs = n
    \<and> (\<forall>i j. i < j \<and> j < n \<longrightarrow> net_addrs (bs ! i) \<inter> net_addrs (bs ! j) = {})
    \<and> (n + card (used_set s) = nat (maxCIDRs s) \<longrightarrow>
        AllocateNext s' = (Inl ErrCIDRRangeNoCIDRsRemaining, s', []))"
proof -
  obtain bs s' where b: "allocate_n n s = (Inr bs, s')" "length bs = n" "cs.holds s' (mset bs + {#})"
    "same_config s s'" "card (used_set s') = card (used_set s) + n"
    using allocate_n_holds [OF cs.holds_empty [OF assms(1)] assms(2)] by blast
  have inv: "cset_inv s'" by (rule cs.holds_inv [OF b(3)])
  have "net_addrs (bs ! i) \<inter> net_addrs (bs ! j) = {}" if "i < j" "j < n" for i j
    using holds_pair_disjoint [OF b(3)] pair_submset [of i j bs] that b(2) by simp
  moreover have "AllocateNext s' = (Inl ErrCIDRRangeNoCIDRsRemaining, s', [])"
    if "n + card (used_set s) = nat (maxCIDRs s)"
  proof (rule AllocateNext_full)
    have "0 < maxCIDRs s" using assms(1) by (simp add: cset_inv_def)
    then have "int (card (used_set s')) = maxCIDRs s" using that b(5) by linarith
    then show "allocatedCIDRs s' = maxCIDRs s'"
      using inv same_configD(5) [OF b(4)] by (simp add: cset_inv_def)
  qed
  ultimately show ?thesis using b(1,2) by blast
qed

theorem capacity_witness:
  "cset_inv ex_set \<and> 4 + card (used_set ex_set) \<le> nat (maxCIDRs ex_set)
    \<and> (\<exists>bs s'. allocate_n 4 ex_set = (Inr bs, s')
        \<and> AllocateNext s' = (Inl ErrCIDRRangeNoCIDRsRemaining, s', []))"
proof -
  have "4 + card (used_set ex_set) \<le> nat (maxCIDRs ex_set)" using ex_set_inv(2) by simp
  then show ?thesis using capacity [OF ex_set_inv(1), of 4] ex_set_inv by auto
qed

text \<open>
  Releasing an allocated block gives back the blocks in use and the counter from before the
  allocation.
\<close>

lemma allocate_release:
  assumes "cset_inv s" "AllocateNext s = (Inr n, s', ms)"
  shows "\<exists>s'' ms'. Release s' (Some n) = (Inr (), s'', ms') \<and> cset_inv s''
    \<and> used_set s'' = used_set s \<and> allocatedCIDRs s'' = allocatedCIDRs s"
  using cs.alloc_release [OF assms] assms(1) by (auto simp: cset_inv_def)

subsection \<open>Construction\<close>

text \<open>
  C34: \<open>NewCIDRSet\<close> for a node mask between the cluster mask and the address length, fewer than
  32 bits apart: an empty set with the invariant and one block for each value of the bits
  between the masks; for IPv6 clusters more than 16 bits apart the error, with no metrics
  registered.
\<close>

theorem new_set:
  assumes "canon l m cidr" "m \<le> n" "n \<le> 8 * l" "n - m < 32" "l = 16 \<longrightarrow> 2 ^ 48 \<le> net_first cidr"
  shows "if l = 16 \<and> 16 < n - m then NewCIDRSet cidr (int n) reg = (Inl ErrCIDRSetSubNetTooBig, reg, [])
    else (\<exists>s. NewCIDRSet cidr (int n) reg = (Inr s, registerCidrsetMetrics reg) \<and> cset_inv s
      \<and> used_set s = {} \<and> clusterCIDR s = cidr \<and> nodeMaskSize s = int n \<and> maxCIDRs s = 2 ^ (n - m))"
proof (cases "l = 16 \<and> 16 < n - m")
  case True
  then have "to4 (IP cidr) = []" "16 < int n - int m"
    using canonD(9) [OF assms(1)] assms(2) by auto
  then show ?thesis
    using True by (simp add: NewCIDRSet_def canon_mask_Size [OF assms(1)] clusterSubnetMaxDiff_def)
next
  case False
  then obtain s where "NewCIDRSet cidr (int n) reg = (Inr s, registerCidrsetMetrics reg)" "cset_inv s"
    "used_set s = {}" "clusterCIDR s = cidr" "nodeMaskSize s = int n" "maxCIDRs s = 2 ^ (n - m)"
    using NewCIDRSet_wf [OF assms(1-4), of reg] assms(5) by (metis not_le)
  then show ?thesis using False by auto
qed

theorem new_set_witness:
  "canon 4 30 ex_cidr \<and> (\<exists>s. NewCIDRSet ex_cidr 32 False = (Inr s, registerCidrsetMetrics False)
     \<and> cset_inv s \<and> used_set s = {} \<and> maxCIDRs s = 4)"
  using new_set [OF ex_cidr_canon, of 32 False] ex_cidr_canon by auto

end
