(* ===== verification/Refinement.thy ===== *)
theory Refinement
  imports SystemInv
begin

text \<open>
  The functions of the source, each taken as one action, are runs of the steps of the running
  controller: a call of the handler for a node, the handler of a deleted node, and a round of a
  worker. A loop over the CIDR sets is one step for each set; what holds on every run holds in
  particular when these functions are atomic.
\<close>

subsection \<open>The loops, one set at a time\<close>

lemma occupyLoop_split:
  "occupyLoop env node idx (t # ts) c = (case occupyLoop env node idx [t] c of
     (Inl e, c') \<Rightarrow> (Inl e, c') | (Inr u, c') \<Rightarrow> occupyLoop env node (next_idx env t idx) ts c')"
  by (simp add: next_idx_def split: option.split prod.split sum.split)

lemma releaseLoop_split:
  "releaseLoop env node idx (t # ts) c = (case releaseLoop env node idx [t] c of
     (Inl e, c') \<Rightarrow> (Inl e, c') | (Inr u, c') \<Rightarrow> releaseLoop env node (next_idx env t idx) ts c')"
  by (simp add: next_idx_def split: option.split prod.split sum.split)

lemma releaseReserved_split:
  "releaseReserved idx (n # ns) c = (case releaseReserved idx [n] c of
     (Inl p, c') \<Rightarrow> (Inl p, c') | (Inr u, c') \<Rightarrow> releaseReserved (Suc idx) ns c')"
  by (simp split: prod.split sum.split cidr_error.split)

lemma on_set_length: "on_set idx f c = (r, c') \<Longrightarrow> length (cidrSets c') = length (cidrSets c)"
  by (auto simp: on_set_def split: if_splits prod.splits)

subsection \<open>The handlers\<close>

lemma two_steps:
  "sys_step env cluster a b \<Longrightarrow> sys_step env cluster b c \<Longrightarrow> (sys_step env cluster)\<^sup>*\<^sup>* a c"
  by (rule converse_rtranclp_into_rtranclp [where r = "sys_step env cluster", OF _ r_into_rtranclp])

lemma occupied_step:
  "sys_step env cluster (s\<lparr>ctl := c, handling := xs @ (node, Occupying idx []) # ys\<rparr>)
     (s\<lparr>ctl := removeNodeFromProcessing (Name node) c, handling := xs @ ys\<rparr>)"
  using call_occupied [where s = "s\<lparr>ctl := c, handling := xs @ (node, Occupying idx []) # ys\<rparr>"
    and xs = xs and node = node and ys = ys and idx = idx] by simp

lemma occupy_run:
  assumes "occupyLoop env node idx ts c = (r, c')" "\<And>p. r \<noteq> Inl (GoPanic p)"
  shows "(sys_step env cluster)\<^sup>*\<^sup>* (s\<lparr>ctl := c, handling := xs @ (node, Occupying idx ts) # ys\<rparr>)
     (s\<lparr>ctl := removeNodeFromProcessing (Name node) c', handling := xs @ ys\<rparr>)"
  using assms
proof (induction ts arbitrary: idx c)
  case Nil
  then show ?case by (auto intro!: r_into_rtranclp occupied_step)
next
  case (Cons t ts)
  let ?S = "\<lambda>c idx ts. s\<lparr>ctl := c, handling := xs @ (node, Occupying idx ts) # ys\<rparr>"
  obtain x d where d: "occupyLoop env node idx [t] c = (x, d)" by (rule prod.exhaust)
  show ?case
  proof (cases x)
    case (Inl e)
    then have r: "r = Inl e" "c' = d" using Cons.prems(1) d by (simp_all only: occupyLoop_split [of env node idx t ts] prod.case sum.case prod.inject)
    have "sys_step env cluster (?S c idx (t # ts)) ((?S c idx (t # ts))\<lparr>ctl := d, handling := xs @ (node, Occupying idx []) # ys\<rparr>)"
      by (rule call_stops) (use d Inl Cons.prems(2) r in \<open>simp_all del: occupyLoop.simps\<close>)
    then have "sys_step env cluster (?S c idx (t # ts)) (?S d idx [])" by simp
    from two_steps [OF this occupied_step] show ?thesis using r by simp
  next
    case (Inr u)
    have "sys_step env cluster (?S c idx (t # ts)) ((?S c idx (t # ts))\<lparr>ctl := d, handling := xs @ (node, Occupying (next_idx env t idx) ts) # ys\<rparr>)"
      by (rule call_occupies) (use d Inr in \<open>simp_all del: occupyLoop.simps\<close>)
    then have 1: "sys_step env cluster (?S c idx (t # ts)) (?S d (next_idx env t idx) ts)" by simp
    have "occupyLoop env node (next_idx env t idx) ts d = (r, c')"
      using Cons.prems(1) d Inr by (simp only: occupyLoop_split [of env node idx t ts] prod.case sum.case)
    from converse_rtranclp_into_rtranclp [OF 1 Cons.IH [OF this Cons.prems(2)]] show ?thesis .
  qed
qed

lemma release_run:
  assumes "releaseLoop env node idx ts c = (r, c')" "\<And>p. r \<noteq> Inl (GoPanic p)"
  shows "(sys_step env cluster)\<^sup>*\<^sup>* (s\<lparr>ctl := c, releases := xs @ (node, idx, ts) # ys\<rparr>)
     (s\<lparr>ctl := c', releases := xs @ ys\<rparr>)"
  using assms
proof (induction ts arbitrary: idx c)
  case Nil
  let ?s = "s\<lparr>ctl := c, releases := xs @ (node, idx, []) # ys\<rparr>"
  have "sys_step env cluster ?s (?s\<lparr>releases := xs @ ys\<rparr>)" by (rule release_done) simp
  then show ?case using Nil by auto
next
  case (Cons t ts)
  let ?S = "\<lambda>c idx ts. s\<lparr>ctl := c, releases := xs @ (node, idx, ts) # ys\<rparr>"
  obtain x d where d: "releaseLoop env node idx [t] c = (x, d)" by (rule prod.exhaust)
  show ?case
  proof (cases x)
    case (Inl e)
    then have r: "r = Inl e" "c' = d" using Cons.prems(1) d by (simp_all only: releaseLoop_split [of env node idx t ts] prod.case sum.case prod.inject)
    have "sys_step env cluster (?S c idx (t # ts)) ((?S c idx (t # ts))\<lparr>ctl := d, releases := xs @ ys\<rparr>)"
      by (rule release_stops) (use d Inl Cons.prems(2) r in \<open>simp_all del: releaseLoop.simps\<close>)
    then show ?thesis using r by auto
  next
    case (Inr u)
    have "sys_step env cluster (?S c idx (t # ts)) ((?S c idx (t # ts))\<lparr>ctl := d, releases := xs @ (node, next_idx env t idx, ts) # ys\<rparr>)"
      by (rule release_next) (use d Inr in \<open>simp_all del: releaseLoop.simps\<close>)
    then have 1: "sys_step env cluster (?S c idx (t # ts)) (?S d (next_idx env t idx) ts)" by simp
    have "releaseLoop env node (next_idx env t idx) ts d = (r, c')"
      using Cons.prems(1) d Inr by (simp only: releaseLoop_split [of env node idx t ts] prod.case sum.case)
    from converse_rtranclp_into_rtranclp [OF 1 Cons.IH [OF this Cons.prems(2)]] show ?thesis .
  qed
qed

text \<open>A call that allocates: it comes to its end with one block of every set, or it fails.\<close>

lemma allocate_run:
  assumes "allocateLoop (length ns) k c = (r, c')" "length ns + k = length (cidrSets c)"
  shows "(\<forall>ms. r = Inr ms \<longrightarrow> length (ns @ ms) = length (cidrSets c') \<and>
       (sys_step env cluster)\<^sup>*\<^sup>* (s\<lparr>ctl := c, handling := xs @ (node, Allocating ns) # ys\<rparr>)
         (s\<lparr>ctl := c', handling := xs @ (node, Allocating (ns @ ms)) # ys\<rparr>))
    \<and> (\<forall>i e. r = Inl (i, e) \<longrightarrow> (\<forall>p. e \<noteq> CidrPanic p) \<longrightarrow>
       (sys_step env cluster)\<^sup>*\<^sup>* (s\<lparr>ctl := c, handling := xs @ (node, Allocating ns) # ys\<rparr>)
         (s\<lparr>ctl := failed_event node ''CIDRNotAvailable'' (removeNodeFromProcessing (Name node) c'),
           handling := xs @ ys\<rparr>))"
  using assms
proof (induction k arbitrary: ns c r)
  case (Suc k)
  let ?S = "\<lambda>c ns. s\<lparr>ctl := c, handling := xs @ (node, Allocating ns) # ys\<rparr>"
  obtain x d where d: "on_set (length ns) AllocateNext c = (x, d)" by (rule prod.exhaust)
  have l: "length ns < length (cidrSets c)" using Suc.prems(2) by simp
  show ?case
  proof (cases x)
    case (Inl e)
    then have r: "r = Inl (length ns, e)" "c' = d" using Suc.prems(1) d by simp_all
    let ?F = "s\<lparr>ctl := d, handling := xs @ (node, Failing) # ys\<rparr>"
    have "sys_step env cluster (?S c ns) ((?S c ns)\<lparr>ctl := d, handling := xs @ (node, Failing) # ys\<rparr>)"
      if "\<forall>p. e \<noteq> CidrPanic p"
      by (rule call_fails) (use d Inl l that in auto)
    then have 1: "sys_step env cluster (?S c ns) ?F" if "\<forall>p. e \<noteq> CidrPanic p" using that by simp
    have 2: "sys_step env cluster ?F (s\<lparr>ctl := failed_event node ''CIDRNotAvailable''
        (removeNodeFromProcessing (Name node) d), handling := xs @ ys\<rparr>)"
      using call_failed [where s = ?F and xs = xs and node = node and ys = ys] by simp
    show ?thesis using r two_steps [OF 1 2] by simp
  next
    case (Inr n)
    have "sys_step env cluster (?S c ns) ((?S c ns)\<lparr>ctl := d, handling := xs @ (node, Allocating (ns @ [n])) # ys\<rparr>)"
      by (rule call_allocates) (use d Inr l in simp_all)
    then have "sys_step env cluster (?S c ns) (?S d (ns @ [n]))" by simp
    note go = converse_rtranclp_into_rtranclp [where r = "sys_step env cluster", OF this]
    obtain y e where y: "allocateLoop (length (ns @ [n])) k d = (y, e)" by (rule prod.exhaust)
    then have r: "e = c'" "r = (case y of Inl z \<Rightarrow> Inl z | Inr ms \<Rightarrow> Inr (n # ms))"
      using Suc.prems(1) d Inr by (auto split: sum.splits)
    have "length (ns @ [n]) + k = length (cidrSets d)" using Suc.prems(2) on_set_length [OF d] by simp
    from Suc.IH [OF y [unfolded r(1)] this] show ?thesis
      using go r(2) by (cases y) auto
  qed
qed auto

text \<open>Where a call stands that has not returned.\<close>

fun waiting_item :: "alloc_outcome \<Rightarrow> NodeReservedCIDRs list" where
  "waiting_item (WaitChannel item) = [item]"
| "waiting_item _ = []"

fun waiting_call :: "Node \<Rightarrow> bool \<Rightarrow> alloc_outcome \<Rightarrow> (Node \<times> call) list" where
  "waiting_call node ctx WaitReconcile = [(node, Waiting ctx)]"
| "waiting_call node ctx _ = []"

lemma queue_run:
  assumes "queueAfterWait item c = (out, c')"
  shows "(sys_step env cluster)\<^sup>*\<^sup>* (s\<lparr>ctl := c, handling := xs, waiting := waiting s @ [item]\<rparr>)
    (s\<lparr>ctl := c', handling := xs, waiting := waiting s @ waiting_item out\<rparr>)"
proof (cases "length (nodeCIDRUpdateChannel c) < CidrUpdateQueueSize")
  case True
  then have o: "out = Returned (Inr ())" using assms by (simp add: queueAfterWait_def)
  let ?s = "s\<lparr>ctl := c, handling := xs, waiting := waiting s @ [item]\<rparr>"
  have "sys_step env cluster ?s (?s\<lparr>ctl := c', waiting := waiting s @ []\<rparr>)"
    by (rule unblocked [where item = item and ys = "[]"]) (use assms o in simp_all)
  moreover have "?s\<lparr>ctl := c', waiting := waiting s @ []\<rparr>
      = s\<lparr>ctl := c', handling := xs, waiting := waiting s @ waiting_item out\<rparr>" by (cases s) (simp add: o)
  ultimately show ?thesis by (simp only: r_into_rtranclp)
next
  case False
  then show ?thesis using assms by (auto simp: queueAfterWait_def)
qed

lemma allocateAndQueue_run:
  assumes a: "allocateAndQueue node c = (out, c')" and np: "\<And>p. out \<noteq> Returned (Inl (GoPanic p))"
  shows "(sys_step env cluster)\<^sup>*\<^sup>* (s\<lparr>ctl := c, handling := xs @ [(node, Allocating [])]\<rparr>)
    (s\<lparr>ctl := c', handling := xs, waiting := waiting s @ waiting_item out\<rparr>)"
proof -
  obtain r d where l: "allocateLoop (length ([] :: IPNet list)) (length (cidrSets c)) c = (r, d)" by (rule prod.exhaust)
  note run = allocate_run [OF l, where env = env and cluster = cluster and s = s and xs = xs and node = node and ys = "[]"]
  show ?thesis
  proof (cases r)
    case (Inr ns)
    have q: "queueAfterWait \<lparr>reservedCIDRs = ns, nodeName = Name node\<rparr> d = (out, c')"
      using a l Inr by (simp add: allocateAndQueue_def)
    let ?s = "s\<lparr>ctl := d, handling := xs @ [(node, Allocating ns)]\<rparr>"
    have 1: "(sys_step env cluster)\<^sup>*\<^sup>* (s\<lparr>ctl := c, handling := xs @ [(node, Allocating [])]\<rparr>) ?s"
      "length ns = length (cidrSets d)" using run Inr by simp_all
    have "sys_step env cluster ?s (?s\<lparr>handling := xs @ [], waiting := waiting ?s @ [\<lparr>reservedCIDRs = ns, nodeName = Name node\<rparr>]\<rparr>)"
      by (rule call_queues [where ys = "[]"]) (use 1(2) in simp_all)
    then have 2: "sys_step env cluster ?s (s\<lparr>ctl := d, handling := xs,
        waiting := waiting s @ [\<lparr>reservedCIDRs = ns, nodeName = Name node\<rparr>]\<rparr>)" by simp
    from rtranclp_trans [OF 1(1) converse_rtranclp_into_rtranclp [OF 2 queue_run [OF q]]] show ?thesis .
  next
    case (Inl ie)
    obtain i e where ie: "ie = (i, e)" by (rule prod.exhaust)
    have e: "e \<noteq> CidrPanic p" for p using a np [of p] l Inl ie by (auto simp: allocateAndQueue_def)
    then have "out = Returned (Inl (lift_cidr ''failed to allocate cidr from cluster cidr at idx:%v: %v'' [Itoa i] e))"
      "c' = failed_event node ''CIDRNotAvailable'' (removeNodeFromProcessing (Name node) d)"
      using a l Inl ie by (cases e; simp add: allocateAndQueue_def Let_def)+
    then show ?thesis using run Inl ie e by simp
  qed
qed

lemma handler_run:
  assumes a: "AllocateOrOccupyCIDR env b (Some node) (ctl s) = (out, c)"
    and np: "\<And>p. out \<noteq> Returned (Inl (GoPanic p))"
  shows "(sys_step env cluster)\<^sup>*\<^sup>* s (s\<lparr>ctl := c,
    handling := handling s @ waiting_call node (startCtx (ctl s) \<noteq> None) out, waiting := waiting s @ waiting_item out\<rparr>)"
proof (cases "Name node \<in> nodesInProcessing (ctl s)")
  case True
  then have "out = Returned (Inr ())" "c = ctl s"
    using a by (simp_all add: AllocateOrOccupyCIDR_def insertNodeToProcessing_def)
  then show ?thesis by simp
next
  case False
  let ?c = "(ctl s)\<lparr>nodesInProcessing := insert (Name node) (nodesInProcessing (ctl s))\<rparr>"
  let ?S = "\<lambda>p. s\<lparr>ctl := ?c, handling := handling s @ [(node, p)]\<rparr>"
  have i: "insertNodeToProcessing (Name node) (ctl s) = (True, ?c)"
    using False by (simp add: insertNodeToProcessing_def)
  note enter = converse_rtranclp_into_rtranclp [where r = "sys_step env cluster", OF call_enters [OF i]]
  show ?thesis
  proof (cases "PodCIDRs node = []")
    case False
    obtain r d where o: "occupyLoop env node 0 (PodCIDRs node) ?c = (r, d)" by (rule prod.exhaust)
    then have r: "out = Returned r" "c = removeNodeFromProcessing (Name node) d"
      using a False i by (auto simp: AllocateOrOccupyCIDR_def occupyCIDRs_def occupyCIDRsWithoutRemoval_def)
    show ?thesis
      using enter [where c = "s\<lparr>ctl := c, handling := handling s\<rparr>"] r np False
        occupy_run [OF o, where cluster = cluster and s = s and xs = "handling s" and ys = "[]"]
      by simp
  next
    case True
    let ?ctx = "startCtx (ctl s) \<noteq> None"
    have go: "(sys_step env cluster)\<^sup>*\<^sup>* s t" if "(sys_step env cluster)\<^sup>*\<^sup>* (?S (Waiting ?ctx)) t" for t
      using enter that True by simp
    consider (cancel) "out = Returned (Inl context_Canceled)" "c = removeNodeFromProcessing (Name node) ?c"
        "startCtx (ctl s) = Some True"
      | (wait) "out = WaitReconcile" "c = ?c"
      | (ready) "reconcileReady (ctl s)" "allocateAndQueue node ?c = (out, c)"
      using a True i
      by (auto simp: AllocateOrOccupyCIDR_def allocateAfterWait_def allocateAfterWaitNoCtx_def Let_def split: if_splits)
    then show ?thesis
    proof cases
      case cancel
      have "sys_step env cluster (?S (Waiting True)) ((?S (Waiting True))\<lparr>ctl := removeNodeFromProcessing (Name node) ?c, handling := handling s @ []\<rparr>)"
        using call_cancelled [where s = "?S (Waiting True)" and xs = "handling s" and node = node and ys = "[]"] cancel by simp
      then have "(sys_step env cluster)\<^sup>*\<^sup>* (?S (Waiting ?ctx)) (s\<lparr>ctl := c, handling := handling s\<rparr>)"
        using cancel by (auto intro: r_into_rtranclp)
      from go [OF this] show ?thesis using cancel by simp
    next
      case wait
      then show ?thesis using go [of "?S (Waiting ?ctx)"] by simp
    next
      case ready
      have "sys_step env cluster (?S (Waiting ?ctx)) ((?S (Waiting ?ctx))\<lparr>handling := handling s @ (node, Allocating []) # []\<rparr>)"
        by (rule call_ready) (use ready in simp_all)
      then have "sys_step env cluster (?S (Waiting ?ctx)) (?S (Allocating []))" by simp
      from go [OF converse_rtranclp_into_rtranclp [OF this allocateAndQueue_run [OF ready(2) np]]]
      have "(sys_step env cluster)\<^sup>*\<^sup>* s (s\<lparr>ctl := c, handling := handling s, waiting := waiting s @ waiting_item out\<rparr>)" .
      moreover have "waiting_call node ?ctx out = []"
        using ready(2) by (cases out) (auto simp: allocateAndQueue_def queueAfterWait_def Let_def
          split: prod.splits sum.splits cidr_error.splits if_splits)
      ultimately show ?thesis by simp
    qed
  qed
qed

lemma delete_run:
  assumes d: "deleted s = xs @ node # ys" and r: "ReleaseCIDR env (Some node) (ctl s) = (r, c)"
    and np: "\<And>p. r \<noteq> Inl (GoPanic p)"
  shows "(sys_step env cluster)\<^sup>*\<^sup>* s (s\<lparr>ctl := c, deleted := xs @ ys\<rparr>)"
proof -
  let ?s = "s\<lparr>deleted := xs @ ys\<rparr>"
  have l: "releaseLoop env node 0 (PodCIDRs node) (ctl s) = (r, c)"
    using r by (auto simp: ReleaseCIDR_def split: if_splits)
  have 1: "sys_step env cluster s (s\<lparr>deleted := xs @ ys, releases := releases s @ [(node, 0, PodCIDRs node)]\<rparr>)"
    by (rule delete_event [OF d])
  have eq: "s\<lparr>deleted := xs @ ys, releases := releases s @ [(node, 0, PodCIDRs node)]\<rparr>
      = ?s\<lparr>ctl := ctl s, releases := releases s @ (node, 0, PodCIDRs node) # []\<rparr>"
    "?s\<lparr>ctl := c, releases := releases s @ []\<rparr> = s\<lparr>ctl := c, deleted := xs @ ys\<rparr>"
    by (cases s, simp)+
  have "(sys_step env cluster)\<^sup>*\<^sup>* (?s\<lparr>ctl := ctl s, releases := releases s @ (node, 0, PodCIDRs node) # []\<rparr>)
     (?s\<lparr>ctl := c, releases := releases s @ []\<rparr>)"
    by (rule release_run [OF l np])
  from converse_rtranclp_into_rtranclp [OF 1 [unfolded eq(1)] this] show ?thesis unfolding eq(2) .
qed

subsection \<open>The round of a worker\<close>

lemma rtranclp_two_more: "R a b \<Longrightarrow> R b c \<Longrightarrow> R\<^sup>*\<^sup>* c d \<Longrightarrow> R\<^sup>*\<^sup>* a d"
  by (blast intro: converse_rtranclp_into_rtranclp)

lemma system_update_order:
  "s\<lparr>world := w, ctl := c\<rparr> = s\<lparr>ctl := c, world := w\<rparr>"
  by (cases s) simp

lemma ctl_same: "s\<lparr>ctl := ctl s, world := w, inflight := fl\<rparr> = s\<lparr>world := w, inflight := fl\<rparr>"
  by (cases s) simp

text \<open>A worker that has nothing left to release.\<close>

lemma dropped_step:
  "sys_step env cluster (s\<lparr>ctl := c, world := w, inflight := xs @ (item, Dropping (length (reservedCIDRs item))) # ys\<rparr>)
     (s\<lparr>ctl := removeNodeFromProcessing (nodeName item) c, world := w, inflight := xs @ ys\<rparr>)"
  using worker_dropped [where s = "s\<lparr>ctl := c, world := w, inflight := xs @ (item, Dropping (length (reservedCIDRs item))) # ys\<rparr>"
    and xs = xs and item = item and ys = ys and k = "length (reservedCIDRs item)"] by (simp add: system_update_order)

lemma patchLoop_run:
  assumes "patchLoop env node (ctl s) n err ts w = (res, w')" "\<And>p. res \<noteq> Some (GoPanic p)"
    "err \<noteq> None \<or> 0 < n"
  shows "(res = None \<longrightarrow> (sys_step env cluster)\<^sup>*\<^sup>*
        (s\<lparr>world := w, inflight := xs @ (item, Patching node ts n err) # ys\<rparr>)
        (s\<lparr>ctl := removeNodeFromProcessing (nodeName item) (ctl s), world := w', inflight := xs @ ys\<rparr>))
    \<and> (\<forall>e. res = Some e \<longrightarrow> (\<exists>ts'. (sys_step env cluster)\<^sup>*\<^sup>*
        (s\<lparr>world := w, inflight := xs @ (item, Patching node ts n err) # ys\<rparr>)
        (s\<lparr>world := w', inflight := xs @ (item, Patching node ts' 0 (Some e)) # ys\<rparr>)))"
  using assms
proof (induction n arbitrary: err ts w)
  case (Suc n)
  let ?S = "\<lambda>w ts n err. s\<lparr>world := w, inflight := xs @ (item, Patching node ts n err) # ys\<rparr>"
  obtain r w1 ts1 where p1: "PatchNodePodCIDRs (api_Patch env) w node ts (mode (ctl s)) (primaryIPFamily (ctl s)) = (r, w1, ts1)"
    by (rule prod_cases3)
  show ?case
  proof (cases r)
    case (Inr u)
    then have "res = None" "w' = w1" using Suc.prems(1) p1 by auto
    moreover have 1: "sys_step env cluster (?S w ts (Suc n) err)
        (s\<lparr>ctl := ctl s, world := w1, inflight := xs @ (item, Dropping (length (reservedCIDRs item))) # ys\<rparr>)"
      using worker_patch [of "?S w ts (Suc n) err" xs item node ts n err ys env u w1 ts1] p1 Inr
      by (simp add: ctl_same)
    ultimately show ?thesis using two_steps [OF 1 dropped_step] by simp
  next
    case (Inl e)
    have np: "e \<noteq> GoPanic p" for p using Suc.prems(1) Suc.prems(2) [of p] p1 Inl by auto
    then have l: "patchLoop env node (ctl s) n (Some e) ts1 w1 = (res, w')"
      using Suc.prems(1) p1 Inl by (cases e) auto
    have "sys_step env cluster (?S w ts (Suc n) err) (?S w1 ts1 n (Some e))"
      using worker_retry [of "?S w ts (Suc n) err" xs item node ts n err ys env e w1 ts1] p1 Inl np by simp
    note go = converse_rtranclp_into_rtranclp [where r = "sys_step env cluster", OF this]
    have e: "Some e \<noteq> None \<or> 0 < n" by simp
    show ?thesis using Suc.IH [OF l Suc.prems(2) e] go by blast
  qed
qed auto

text \<open>The release of a reservation, for either of its two reasons.\<close>

lemma reserved_run:
  assumes r: "releaseReserved k (drop k ns) c = (Inr u, c')" and k: "k \<le> length ns"
    and st: "\<And>k c c'. k < length ns \<Longrightarrow> releaseReserved k [ns ! k] c = (Inr (), c') \<Longrightarrow> R (S c k) (S c' (Suc k))"
  shows "R\<^sup>*\<^sup>* (S c k) (S c' (length ns))"
  using r k
proof (induction "length ns - k" arbitrary: k c)
  case 0
  then show ?case by simp
next
  case (Suc m)
  then have k: "k < length ns" by simp
  then have d: "drop k ns = ns ! k # drop (Suc k) ns" by (simp add: Cons_nth_drop_Suc)
  obtain x e where e: "releaseReserved k [ns ! k] c = (x, e)" by (rule prod.exhaust)
  have x: "x = Inr ()" "releaseReserved (Suc k) (drop (Suc k) ns) e = (Inr u, c')"
    using Suc.prems(1) [unfolded d releaseReserved_split [of k "ns ! k" "drop (Suc k) ns"]]
    by (cases x; simp add: e del: releaseReserved.simps)+
  have "m = length ns - Suc k" "Suc k \<le> length ns" using Suc.hyps(2) k by simp_all
  from converse_rtranclp_into_rtranclp [OF st [OF k e [unfolded x(1)]] Suc.hyps(1) [OF this(1) x(2) this(2)]]
  show ?case .
qed

lemma drop_run:
  assumes f: "inflight s = xs @ (item, Read node) # ys"
    and n: "PodCIDRs node \<noteq> cidrsAsString (reservedCIDRs item)" "PodCIDRs node \<noteq> []"
    and r: "releaseReserved 0 (reservedCIDRs item) (ctl s) = (Inr u, c)"
  shows "(sys_step env cluster)\<^sup>*\<^sup>* s (s\<lparr>ctl := removeNodeFromProcessing (nodeName item) c, inflight := xs @ ys\<rparr>)"
proof -
  let ?S = "\<lambda>c k. s\<lparr>ctl := c, inflight := xs @ (item, Dropping k) # ys\<rparr>" and ?l = "length (reservedCIDRs item)"
  have "sys_step env cluster s (s\<lparr>inflight := xs @ (item, Dropping 0) # ys\<rparr>)" by (rule worker_drop [OF f n])
  then have 1: "sys_step env cluster s (?S (ctl s) 0)" by simp
  have st: "sys_step env cluster (?S c k) (?S c' (Suc k))"
    if "k < ?l" "releaseReserved k [reservedCIDRs item ! k] c = (Inr (), c')" for k c c'
    using worker_drops [where s = "?S c k" and xs = xs and item = item and k = k and ys = ys and c = c'] that
    by (simp del: releaseReserved.simps)
  have 2: "(sys_step env cluster)\<^sup>*\<^sup>* (?S (ctl s) 0) (?S c ?l)"
    by (rule reserved_run [where R = "sys_step env cluster" and ns = "reservedCIDRs item" and S = ?S, OF _ _ st]) (simp_all add: r del: releaseReserved.simps)
  have 3: "sys_step env cluster (?S c ?l) (s\<lparr>ctl := removeNodeFromProcessing (nodeName item) c, inflight := xs @ ys\<rparr>)"
    using worker_dropped [where s = "?S c ?l" and xs = xs and item = item and k = ?l and ys = ys] by simp
  from rtranclp.rtrancl_into_rtrancl [OF converse_rtranclp_into_rtranclp [where r = "sys_step env cluster", OF 1 2] 3]
  show ?thesis .
qed

lemma giveUp_run:
  assumes g: "giveUp env node item err (ctl s) = (r, c)" and np: "\<And>p. r \<noteq> Inl (GoPanic p)"
    and f: "inflight s = xs @ (item, Patching node ts 0 (Some err)) # ys"
  shows "(sys_step env cluster)\<^sup>*\<^sup>* s (s\<lparr>ctl := c, inflight := xs @ (item, Failed) # ys\<rparr>)"
proof -
  let ?c = "failed_event node ''CIDRAssignmentFailed'' (ctl s)"
  let ?S = "\<lambda>c ph. s\<lparr>ctl := c, inflight := xs @ (item, ph) # ys\<rparr>" and ?l = "length (reservedCIDRs item)"
  have 1: "sys_step env cluster s (?S ?c (if api_IsServerTimeout env err then Failed else Giving 0))"
    by (rule worker_give_up [OF f])
  show ?thesis
  proof (cases "api_IsServerTimeout env err")
    case True
    then show ?thesis using 1 g by (auto simp: giveUp_def Let_def)
  next
    case False
    obtain x d where d: "releaseReserved 0 (reservedCIDRs item) ?c = (x, d)" by (rule prod.exhaust)
    then have x: "x = Inr ()" "c = d"
      using g False np by (auto simp: giveUp_def Let_def split: sum.splits)
    have st: "sys_step env cluster (?S c (Giving k)) (?S c' (Giving (Suc k)))"
      if "k < ?l" "releaseReserved k [reservedCIDRs item ! k] c = (Inr (), c')" for k c c'
      using worker_gives [where s = "?S c (Giving k)" and xs = xs and item = item and k = k and ys = ys and c = c'] that
      by (simp del: releaseReserved.simps)
    have 2: "(sys_step env cluster)\<^sup>*\<^sup>* (?S ?c (Giving 0)) (?S d (Giving ?l))"
      by (rule reserved_run [where R = "sys_step env cluster" and ns = "reservedCIDRs item" and S = "\<lambda>c k. ?S c (Giving k)", OF _ _ st])
        (simp_all add: d x(1) del: releaseReserved.simps)
    have 3: "sys_step env cluster (?S d (Giving ?l)) (?S d Failed)"
      using worker_gave [where s = "?S d (Giving ?l)" and xs = xs and item = item and k = ?l and ys = ys] by simp
    have 0: "sys_step env cluster s (?S ?c (Giving 0))" using 1 False by simp
    from rtranclp.rtrancl_into_rtrancl [OF converse_rtranclp_into_rtranclp [where r = "sys_step env cluster", OF 0 2] 3]
    show ?thesis using x by simp
  qed
qed

lemma world_same: "s\<lparr>ctl := c, world := world s, inflight := fl\<rparr> = s\<lparr>ctl := c, inflight := fl\<rparr>"
  by (cases s) simp

lemma updateNode_run:
  assumes f: "inflight s = xs @ (item, Read node) # ys"
    and u: "updateNode env item node (ctl s) (world s) = (r, c', w')" and np: "\<And>p. r \<noteq> Inl (GoPanic p)"
  shows "(sys_step env cluster)\<^sup>*\<^sup>* s (s\<lparr>ctl := c', world := w',
    inflight := (case r of Inl e \<Rightarrow> xs @ (item, Failed) # ys | Inr _ \<Rightarrow> xs @ ys)\<rparr>)"
proof (cases "PodCIDRs node = cidrsAsString (reservedCIDRs item) \<or> PodCIDRs node \<noteq> []")
  case True
  show ?thesis
  proof (cases "PodCIDRs node = cidrsAsString (reservedCIDRs item)")
    case True
    then have "r = Inr ()" "c' = removeNodeFromProcessing (nodeName item) (ctl s)" "w' = world s"
      using u by (simp_all add: updateNode_def)
    moreover have 1: "sys_step env cluster s (s\<lparr>ctl := ctl s, world := world s,
        inflight := xs @ (item, Dropping (length (reservedCIDRs item))) # ys\<rparr>)"
      using worker_match [OF f True, of env cluster] by (simp add: world_same)
    ultimately show ?thesis using two_steps [OF 1 dropped_step] by simp
  next
    case False
    obtain x d where d: "releaseReserved 0 (reservedCIDRs item) (ctl s) = (x, d)" by (rule prod.exhaust)
    then have "x = Inr ()" "r = Inr ()" "c' = removeNodeFromProcessing (nodeName item) d" "w' = world s"
      using u np True False by (auto simp: updateNode_def Let_def split: sum.splits)
    then show ?thesis using drop_run [OF f False, of "()" d env cluster] d True False by (simp add: world_same)
  qed
next
  case False
  let ?cs = "cidrsAsString (reservedCIDRs item)"
  obtain y w1 where n: "nodeCIDRs env node ?cs (ctl s) (world s) = (y, w1)" by (rule prod.exhaust)
  have e: "PodCIDRs node = []" "?cs \<noteq> []" using False by auto
  show ?thesis
  proof (cases y)
    case (Inl e')
    then have r: "r = Inl e'" "c' = ctl s" "w' = w1" using u n e by (auto simp: updateNode_def Let_def)
    then have "sys_step env cluster s (s\<lparr>world := w1, inflight := xs @ (item, Failed) # ys\<rparr>)"
      using worker_choose [OF f e n] np Inl by auto
    moreover have "s\<lparr>ctl := ctl s, world := w1, inflight := xs @ (item, Failed) # ys\<rparr>
        = s\<lparr>world := w1, inflight := xs @ (item, Failed) # ys\<rparr>" by (cases s) simp
    ultimately show ?thesis using r by auto
  next
    case (Inr ts)
    obtain res w2 where p: "patchLoop env node (ctl s) cidrUpdateRetries None ts w1 = (res, w2)"
      by (rule prod.exhaust)
    have npr: "res \<noteq> Some (GoPanic q)" for q
      using u n e Inr p np [of q] by (auto simp: updateNode_def Let_def)
    have 1: "sys_step env cluster s (s\<lparr>world := w1, inflight := xs @ (item, Patching node ts cidrUpdateRetries None) # ys\<rparr>)"
      using worker_choose [OF f e n, of cluster] Inr by simp
    note run = patchLoop_run [OF p npr, of cluster xs item ys]
    show ?thesis
    proof (cases res)
      case None
      then have r: "\<exists>x. r = Inr x" "c' = removeNodeFromProcessing (nodeName item) (ctl s)" "w' = w2"
        using u n e Inr p by (auto simp: updateNode_def Let_def)
      then show ?thesis
        using converse_rtranclp_into_rtranclp [where r = "sys_step env cluster", OF 1] run None
        by (auto simp: cidrUpdateRetries_def)
    next
      case (Some e')
      then have g: "giveUp env node item e' (ctl s) = (r, c')" "w' = w2"
        using u n e Inr p npr by (cases e'; auto simp: updateNode_def Let_def split: prod.splits)+
      obtain ts' where 2: "(sys_step env cluster)\<^sup>*\<^sup>*
        (s\<lparr>world := w1, inflight := xs @ (item, Patching node ts cidrUpdateRetries None) # ys\<rparr>)
        (s\<lparr>world := w2, inflight := xs @ (item, Patching node ts' 0 (Some e')) # ys\<rparr>)"
        using run Some by (auto simp: cidrUpdateRetries_def)
      let ?s = "s\<lparr>world := w2, inflight := xs @ (item, Patching node ts' 0 (Some e')) # ys\<rparr>"
      have 3: "(sys_step env cluster)\<^sup>*\<^sup>* ?s (s\<lparr>ctl := c', world := w2, inflight := xs @ (item, Failed) # ys\<rparr>)"
        using giveUp_run [of env node item e' ?s r c' xs ts' ys cluster] g(1) np by (simp add: system_update_order)
      obtain e2 where e2: "r = Inl e2"
        using g(1) by (auto simp: giveUp_def Let_def split: if_splits prod.splits sum.splits)
      show ?thesis
        using rtranclp_trans [OF converse_rtranclp_into_rtranclp [where r = "sys_step env cluster", OF 1 2] 3] e2 g(2)
        by simp
    qed
  qed
qed

lemma worker_round_run:
  assumes r: "worker_round env (ctl s) (world s) = (out, c', w')" and t: "0 < tickPeriod (ctl s)"
    and out: "out = Handled \<or> out = Requeued e"
  shows "(sys_step env cluster)\<^sup>*\<^sup>* s (s\<lparr>ctl := c', world := w'\<rparr>)"
proof -
  let ?c = "ctl s" and ?xs = "inflight s"
  obtain item rest where ch: "nodeCIDRUpdateChannel ?c = item # rest"
    using r out by (auto simp: worker_round_def split: list.splits)
  let ?c1 = "?c\<lparr>nodeCIDRUpdateChannel := rest\<rparr>"
  let ?S = "\<lambda>c w ph. s\<lparr>ctl := c, world := w, inflight := ?xs @ [(item, ph)]\<rparr>"
  have eq: "?S ?c1 (world s) Taken = s\<lparr>ctl := ?c1, inflight := ?xs @ [(item, Taken)]\<rparr>" by (cases s) simp
  have 1: "sys_step env cluster s (?S ?c1 (world s) Taken)"
    unfolding eq by (rule worker_take [OF ch])
  obtain g w1 where g: "api_Get env (nodeName item) (world s) = (g, w1)" by (rule prod.exhaust)
  have 2: "sys_step env cluster (?S ?c1 (world s) Taken) (?S ?c1 w1 (case g of Inl e \<Rightarrow> Failed | Inr node \<Rightarrow> Read node))"
    using worker_read [of "?S ?c1 (world s) Taken" ?xs item "[]" env g w1 cluster] g t by simp
  obtain u c2 w2 where u: "updateCIDRsAllocation env item ?c1 (world s) = (u, c2, w2)" by (rule prod_cases3)
  have np: "u \<noteq> Inl (GoPanic p)" for p using r ch u out by (auto simp: worker_round_def)
  have 3: "(sys_step env cluster)\<^sup>*\<^sup>* (?S ?c1 w1 (case g of Inl e \<Rightarrow> Failed | Inr node \<Rightarrow> Read node))
      (s\<lparr>ctl := c2, world := w2, inflight := (case u of Inl e \<Rightarrow> ?xs @ [(item, Failed)] | Inr _ \<Rightarrow> ?xs)\<rparr>)"
  proof (cases g)
    case (Inl eg)
    then have "u = Inl eg" "c2 = ?c1" "w2 = w1" using u g t by (auto simp: updateCIDRsAllocation_def)
    then show ?thesis using Inl by simp
  next
    case (Inr node)
    then have "updateNode env item node ?c1 w1 = (u, c2, w2)"
      using u g t by (auto simp: updateCIDRsAllocation_def)
    then show ?thesis
      using updateNode_run [of "?S ?c1 w1 (Read node)" ?xs item node "[]" env u c2 w2 cluster] np Inr
      by (cases u) simp_all
  qed
  have 4: "(sys_step env cluster)\<^sup>*\<^sup>*
      (s\<lparr>ctl := c2, world := w2, inflight := (case u of Inl e \<Rightarrow> ?xs @ [(item, Failed)] | Inr _ \<Rightarrow> ?xs)\<rparr>)
      (s\<lparr>ctl := c', world := w'\<rparr>)"
  proof (cases u)
    case (Inr v)
    then have "c2 = c'" "w2 = w'" using r ch u by (auto simp: worker_round_def)
    moreover have "s\<lparr>ctl := c', world := w', inflight := ?xs\<rparr> = s\<lparr>ctl := c', world := w'\<rparr>" by (cases s) simp
    ultimately show ?thesis using Inr by simp
  next
    case (Inl e')
    obtain o3 c3 where o3: "queueAfterWait item c2 = (o3, c3)" by (rule prod.exhaust)
    have "\<exists>r. o3 = Returned r" "c3 = c'" "w2 = w'"
      using r ch u Inl np o3 out
      by (auto simp: worker_round_def split: go_err.splits alloc_outcome.splits)
    then obtain q where q: "queueAfterWait item c2 = (Returned q, c')" "w2 = w'" using o3 by auto
    have "sys_step env cluster (?S c2 w' Failed) (s\<lparr>ctl := c', world := w', inflight := ?xs\<rparr>)"
      using worker_requeue [of "?S c2 w' Failed" ?xs item "[]"] q by (simp add: system_update_order)
    moreover have "s\<lparr>ctl := c', world := w', inflight := ?xs\<rparr> = s\<lparr>ctl := c', world := w'\<rparr>" by (cases s) simp
    ultimately show ?thesis using Inl q(2) by auto
  qed
  from 3 4 have "(sys_step env cluster)\<^sup>*\<^sup>* (?S ?c1 w1 (case g of Inl e \<Rightarrow> Failed | Inr node \<Rightarrow> Read node))
      (s\<lparr>ctl := c', world := w'\<rparr>)" by (rule rtranclp_trans)
  then show ?thesis by (rule rtranclp_two_more [where R = "sys_step env cluster", OF 1 2])
qed

end
