(* ===== verification/SystemTheorems.thy ===== *)
theory SystemTheorems
  imports Examples Refinement
begin

text \<open>
  The theorems on the running controller: on every run of the step relation of \<open>Controller\<close>
  from a start, as long as no update was given up and no node was deleted between a lost reply
  and the next attempt, no address belongs to two nodes and the reservations on their way are
  sound, and every block that is held is in use. The runs outside of these conditions are the
  subject of \<open>UpdateTheorems\<close> and \<open>LimitTheorems\<close>.
\<close>

subsection \<open>Lemmas\<close>

lemma ex_run:
  "sys_start ex_env (\<lambda>w. w) ex_alloc ex_system"
  "(sys_step ex_env (\<lambda>w. w))\<^sup>*\<^sup>* ex_system ex_system" "\<not> gave_up (ctl ex_system)"
  "\<not> lost_node ex_system"
  using ex_sys_start
  by (simp_all add: gave_up_def ex_system_def ex_started_def ex_alloc_def)

lemma in_sum: "x \<in># (\<Sum>a\<in>#mset xs. f a) \<longleftrightarrow> (\<exists>a\<in>set xs. x \<in># f a)"
  by (induction xs) auto

text \<open>
  A block of a reservation that is still reserved: no worker has found the reservation in its
  node, or has released the block because the node has other CIDRs.
\<close>

definition still_reserved :: "'w system \<Rightarrow> NodeReservedCIDRs \<Rightarrow> nat \<Rightarrow> bool" where
  "still_reserved s item j \<longleftrightarrow>
     (\<forall>(i, ph)\<in>set (inflight s). case ph of Dropping k \<Rightarrow> i = item \<longrightarrow> k \<le> j | _ \<Rightarrow> True)"

lemma claim_block:
  assumes "still_reserved s item j" "(item, ph) \<in> set (inflight s)" "phase_ok md v (item, ph)"
    "j < length (reservedCIDRs item)"
  shows "(j, reservedCIDRs item ! j) \<in># claim v (item, ph)
    \<or> (\<exists>p\<in>set v. fst p = nodeName item \<and> v4_nets (snd p) = reservedCIDRs item)"
proof (cases ph)
  case (Patching nd ts n err)
  then show ?thesis using assms(3,4) by (auto simp: in_placed)
next
  case (Dropping k)
  then have "k \<le> j" using assms(1,2) by (auto simp: still_reserved_def)
  then show ?thesis using assms(4) by (simp add: Dropping in_placed)
qed (use assms(3,4) in \<open>simp_all add: in_placed\<close>)

text \<open>The network \<open>n\<close> of set \<open>j\<close> is held by someone.\<close>

definition held :: "('w \<Rightarrow> Node list) \<Rightarrow> 'w system \<Rightarrow> nat \<Rightarrow> IPNet \<Rightarrow> bool" where
  "held cluster s j n \<longleftrightarrow>
     (\<exists>node\<in>set (cluster (world s)) \<union> set (deleted s). j < length (node_nets node) \<and> n = node_nets node ! j)
     \<or> (\<exists>item\<in>set (items s). j < length (reservedCIDRs item) \<and> n = reservedCIDRs item ! j \<and> still_reserved s item j)
     \<or> (\<exists>x\<in>set (handling s). \<exists>ns. snd x = Allocating ns \<and> j < length ns \<and> n = ns ! j)"

lemma in_holders:
  "x \<in># holders cluster s \<longleftrightarrow> (\<exists>p\<in>set (view (cluster (world s))). x \<in># placed 0 (v4_nets (snd p)))
     \<or> (\<exists>y\<in>set (handling s). x \<in># call_holds (snd y))
     \<or> (\<exists>i\<in>set (nodeCIDRUpdateChannel (ctl s) @ waiting s). x \<in># placed 0 (reservedCIDRs i))
     \<or> (\<exists>y\<in>set (inflight s). x \<in># claim (view (cluster (world s))) y)
     \<or> (\<exists>n\<in>set (deleted s). x \<in># placed 0 (node_nets n)) \<or> (\<exists>y\<in>set (releases s). x \<in># release_holds y)"
  unfolding holders_def union_iff in_sum by blast

lemma item_in_holders:
  assumes i: "sys_inv cluster s" and it: "item \<in> set (items s)"
    and j: "j < length (reservedCIDRs item)" and r: "still_reserved s item j"
  shows "(j, reservedCIDRs item ! j) \<in># holders cluster s"
proof -
  consider "item \<in> set (nodeCIDRUpdateChannel (ctl s) @ waiting s)"
    | ph where "(item, ph) \<in> set (inflight s)" using it by (auto simp: items_def)
  then show ?thesis
  proof cases
    case 1
    then show ?thesis using j unfolding in_holders by (auto simp: in_placed)
  next
    case (2 ph)
    from claim_block [OF r 2 sys_invD(10) [OF i 2] j] show ?thesis
      using 2 j unfolding in_holders by (fastforce simp: in_placed)
  qed
qed

lemma held_holders:
  assumes i: "sys_inv cluster s" and h: "held cluster s j n"
  shows "(j, n) \<in># holders cluster s"
proof -
  from h consider node where "node \<in> set (cluster (world s)) \<union> set (deleted s)" "j < length (node_nets node)"
      "n = node_nets node ! j"
    | item where "item \<in> set (items s)" "j < length (reservedCIDRs item)" "n = reservedCIDRs item ! j"
      "still_reserved s item j"
    | x ns where "x \<in> set (handling s)" "snd x = Allocating ns" "j < length ns" "n = ns ! j"
    unfolding held_def by blast
  then show ?thesis
  proof cases
    case 1
    then have "(j, n) \<in># placed 0 (node_nets node)" by (simp add: in_placed)
    moreover have "(Name node, PodCIDRs node) \<in> set (view (cluster (world s))) \<or> node \<in> set (deleted s)"
      using 1(1) by (auto simp: mem_view)
    ultimately show ?thesis unfolding in_holders by (force simp: node_nets_def)
  next
    case 2
    then show ?thesis using item_in_holders [OF i] by blast
  next
    case 3
    then have "(j, n) \<in># call_holds (snd x)" by (simp add: in_placed)
    then show ?thesis unfolding in_holders using 3(1) by blast
  qed
qed

lemma holds_all_cells:
  assumes "holds_all c N" "(j, n) \<in># N" "j < length (cidrSets c)"
  shows "cells_at c j n \<noteq> {}" "cells_at c j n \<subseteq> used_at c j"
proof -
  have "cs.holds (cidrSets c ! j) (at_set j N)" using assms(1,3) by (simp add: holds_all_def)
  moreover have "n \<in># at_set j N" using assms(2) by (force simp: at_set_def)
  ultimately show "cells_at c j n \<noteq> {}" "cells_at c j n \<subseteq> used_at c j"
    by (simp_all add: cs.holds_def cells_at_def used_at_def)
qed

lemma next_alloc_apart:
  assumes inv: "alloc_inv c" and a: "on_set j AllocateNext c = (Inr m, c')"
    and h: "cells_at c j n \<noteq> {}" "cells_at c j n \<subseteq> used_at c j"
  shows "net_addrs m \<inter> net_addrs n = {}"
proof -
  obtain s ms where s: "j < length (cidrSets c)" "AllocateNext (cidrSets c ! j) = (Inr m, s, ms)"
    using a by (rule on_set_nth)
  note si = alloc_inv_nth [OF inv s(1)]
  show ?thesis
    by (rule fresh_block_disjoint [OF si AllocateNext_fresh [OF si s(2)]])
      (use h in \<open>auto simp: cells_at_def used_at_def cells_of_def split: if_splits\<close>)
qed

text \<open>
  A node and a reservation on its way hold different blocks, unless the reservation is the
  node's own and an attempt has written it.
\<close>

lemma holder_pair:
  assumes i: "sys_inv cluster s" and n: "node \<in> set (cluster (world s))" and it: "item \<in> set (items s)"
    and j: "j < length (node_nets node)" "j < length (reservedCIDRs item)" and r: "still_reserved s item j"
  shows "Name node = nodeName item \<and> node_nets node = reservedCIDRs item
    \<or> {#(j, node_nets node ! j), (j, reservedCIDRs item ! j)#} \<subseteq># holders cluster s"
proof -
  let ?v = "view (cluster (world s))"
  let ?A = "\<Sum>p\<in>#mset ?v. placed 0 (v4_nets (snd p))"
  let ?C = "\<Sum>x\<in>#mset (handling s). call_holds (snd x)"
  let ?Q = "\<Sum>i\<in>#mset (nodeCIDRUpdateChannel (ctl s) @ waiting s). placed 0 (reservedCIDRs i)"
  let ?F = "\<Sum>x\<in>#mset (inflight s). claim ?v x"
  let ?b = "(j, reservedCIDRs item ! j)"
  have nv: "(Name node, PodCIDRs node) \<in> set ?v" using n by (auto simp: mem_view)
  then have a: "(j, node_nets node ! j) \<in># ?A"
    using j(1) unfolding in_sum by (force simp: in_placed node_nets_def)
  have B: ?thesis if "?b \<in># ?Q + ?F"
  proof -
    have "?b \<in># ?C + ?Q + ?F" using that by auto
    then show ?thesis unfolding holders_def
      using two_parts [OF a] by (simp add: subset_mset.add_increasing2 subset_mset.order_trans)
  qed
  consider "item \<in> set (nodeCIDRUpdateChannel (ctl s) @ waiting s)"
    | ph where "(item, ph) \<in> set (inflight s)" using it by (auto simp: items_def)
  then show ?thesis
  proof cases
    case 1
    then have "?b \<in># ?Q" unfolding in_sum using j(2) by (auto simp: in_placed)
    then show ?thesis using B by simp
  next
    case (2 ph)
    from claim_block [OF r 2 sys_invD(10) [OF i 2] j(2)] show ?thesis
    proof (elim disjE bexE conjE)
      assume "?b \<in># claim ?v (item, ph)"
      then have "?b \<in># ?F" unfolding in_sum using 2 by blast
      then show ?thesis using B by simp
    next
      fix p assume p: "p \<in> set ?v" "fst p = nodeName item" "v4_nets (snd p) = reservedCIDRs item"
      show ?thesis
      proof (cases "p = (Name node, PodCIDRs node)")
        case True
        then show ?thesis using p by (simp add: node_nets_def)
      next
        case False
        then obtain X where "mset ?v = add_mset (Name node, PodCIDRs node) (add_mset p X)"
          using nv p(1) by (metis in_multiset_in_set insert_noteq_member mset_add)
        then have "?A = placed 0 (node_nets node) + (placed 0 (reservedCIDRs item)
            + (\<Sum>p\<in>#X. placed 0 (v4_nets (snd p))))" by (simp add: node_nets_def p(3))
        then have "placed 0 (node_nets node) + placed 0 (reservedCIDRs item) \<subseteq># holders cluster s"
          unfolding holders_def by (simp only: add.assoc [symmetric] mset_subset_eq_add_left) (simp add: add.assoc)
        then show ?thesis using placed_pair j by blast
      qed
    qed
  qed
qed

text \<open>A reservation on its way for a third node.\<close>

definition ex_item :: NodeReservedCIDRs where
  "ex_item = \<lparr>reservedCIDRs = [ex_host 2], nodeName = ''c''\<rparr>"

definition ex_reserved :: CidrSet where
  "ex_reserved = ex_set\<lparr>used := 7, allocatedCIDRs := 3, nextCandidate := 3\<rparr>"

definition ex_queued :: cidrAllocator where
  "ex_queued = ex_started\<lparr>cidrSets := [ex_reserved], nodeCIDRUpdateChannel := [ex_item],
     nodesInProcessing := {''c''},
     metricLog := metricLog ex_started @ [AllocationsInc ''10.0.0.0/30'', TriesObserve ''10.0.0.0/30'' 2,
       UsageSet ''10.0.0.0/30'' 3 4]\<rparr>"

lemma ex_allocate: "AllocateNext (ex_used 3 2) = (Inr (ex_host 2), ex_reserved,
    [AllocationsInc ''10.0.0.0/30'', TriesObserve ''10.0.0.0/30'' 2, UsageSet ''10.0.0.0/30'' 3 4])"
  by code_simp

lemma ex_event: "AllocateOrOccupyCIDR ex_env b (Some (ex_fresh ''c'')) ex_started = (Returned (Inr ()), ex_queued)"
  by (simp add: AllocateOrOccupyCIDR_def insertNodeToProcessing_def ex_fresh_def ex_started_def
      ex_alloc_def allocateAfterWait_def allocateAfterWaitNoCtx_def allocateAndQueue_def queueAfterWait_def
      on_set_def ex_allocate
      ex_queued_def ex_item_def CidrUpdateQueueSize_def)

definition ex_system_queued :: "Node list system" where
  "ex_system_queued = ex_system\<lparr>ctl := ex_queued\<rparr>"

lemma ex_run_queued:
  "(sys_step ex_env (\<lambda>w. w))\<^sup>*\<^sup>* ex_system ex_system_queued" "\<not> gave_up (ctl ex_system_queued)"
  "\<not> lost_node ex_system_queued"
proof -
  show "(sys_step ex_env (\<lambda>w. w))\<^sup>*\<^sup>* ex_system ex_system_queued"
    using handler_run [of ex_env True "ex_fresh ''c''" ex_system "Returned (Inr ())" ex_queued "\<lambda>w. w"] ex_event
    by (simp add: ex_system_queued_def ex_system_def)
  show "\<not> gave_up (ctl ex_system_queued)" "\<not> lost_node ex_system_queued"
    by (simp_all add: ex_system_def ex_system_queued_def ex_queued_def gave_up_def ex_started_def ex_alloc_def)
qed

subsection \<open>The theorems\<close>

text \<open>
  C1: No pod address belongs to two nodes. On every run from a start, with any interleaving of
  node events, deletions, blocked handlers and workers and any answers of the clients within
  their contract, the networks two different nodes of the cluster have from the same cluster
  CIDR have no address in common, unless an update was given up after its last attempt, or a node
  was deleted while a worker was about to repeat an attempt that had been applied.
\<close>

theorem unique_pod_cidrs:
  assumes "clients_ok env cluster" "sys_start env cluster c0 s0" "(sys_step env cluster)\<^sup>*\<^sup>* s0 s"
    "\<not> gave_up (ctl s)" "\<not> lost_node s" "cluster (world s) = xs @ a # ys @ b # zs"
    "j < length (node_nets a)" "j < length (node_nets b)" "j < length (cidrSets (ctl s))"
  shows "net_addrs (node_nets a ! j) \<inter> net_addrs (node_nets b ! j) = {}"
  by (rule sys_inv_disjoint [OF sys_run_inv [OF assms(1-5)] assms(6-9)])

theorem unique_pod_cidrs_witness:
  "sys_start ex_env (\<lambda>w. w) ex_alloc ex_system \<and> world ex_system = [ex_node ''a'' 0, ex_node ''b'' 1]
    \<and> net_addrs (ex_host 0) \<inter> net_addrs (ex_host 1) = {}"
  using unique_pod_cidrs [OF ex_clients ex_run, of "[]" "ex_node ''a'' 0" "[]" "ex_node ''b'' 1" "[]" 0]
    ex_sys_start
  by (simp add: ex_system_def ex_nodes_def ex_started_def)

text \<open>
  C2: The reservations on their way (in the channel, in the hands of a worker, or of a handler
  about to queue them) are sound on every run from a start in which no update was given up and no
  node was deleted between an applied attempt and its repetition: the program is at work on a node
  at most once, in one handler call or one reservation, and the node is in processing; a
  reservation has one block of every cluster CIDR; and each of its blocks that is still reserved
  (until its worker has found it in the node, or has released it) shares no address with what a
  node of the cluster has from that cluster CIDR, unless this is the reservation's own node, into
  which an attempt has just written the blocks.
\<close>

theorem reservations_sound:
  assumes "clients_ok env cluster" "sys_start env cluster c0 s0" "(sys_step env cluster)\<^sup>*\<^sup>* s0 s"
    "\<not> gave_up (ctl s)" "\<not> lost_node s"
  shows "distinct (map nodeName (items s) @ map (\<lambda>x. Name (fst x)) (handling s))
    \<and> nodeName ` set (items s) \<union> (\<lambda>x. Name (fst x)) ` set (handling s) \<subseteq> nodesInProcessing (ctl s)
    \<and> (\<forall>item\<in>set (items s). length (reservedCIDRs item) = length (cidrSets (ctl s))
        \<and> (\<forall>node\<in>set (cluster (world s)).
            Name node = nodeName item \<and> node_nets node = reservedCIDRs item
            \<or> (\<forall>j < length (node_nets node). j < length (reservedCIDRs item) \<longrightarrow> still_reserved s item j \<longrightarrow>
                net_addrs (node_nets node ! j) \<inter> net_addrs (reservedCIDRs item ! j) = {})))"
proof -
  note inv = sys_run_inv [OF assms]
  note i = sys_invD [OF inv]
  have apart: "Name node = nodeName item \<and> node_nets node = reservedCIDRs item
      \<or> net_addrs (node_nets node ! j) \<inter> net_addrs (reservedCIDRs item ! j) = {}"
    if "item \<in> set (items s)" "node \<in> set (cluster (world s))" "j < length (node_nets node)"
      "j < length (reservedCIDRs item)" "still_reserved s item j" for item node j
    using holder_pair [OF inv that(2,1,3-5)] holds_all_disjoint [OF i(1), of j] i(6) [OF that(1)] that(4)
    by auto
  have d: "distinct (map nodeName (items s) @ map (\<lambda>x. Name (fst x)) (handling s))"
    using i(4) by (simp only: busy_def)
  have p: "nodeName ` set (items s) \<union> (\<lambda>x. Name (fst x)) ` set (handling s) \<subseteq> nodesInProcessing (ctl s)"
    using i(5) by (simp add: busy_def)
  show ?thesis
    by (rule conjI [OF d conjI [OF p]]) (use i(6) apart in blast)
qed

theorem reservations_sound_witness:
  "sys_start ex_env (\<lambda>w. w) ex_alloc ex_system
    \<and> (sys_step ex_env (\<lambda>w. w))\<^sup>*\<^sup>* ex_system ex_system_queued \<and> items ex_system_queued = [ex_item]
    \<and> net_addrs (ex_host 0) \<inter> net_addrs (ex_host 2) = {}"
proof -
  have it: "items ex_system_queued = [ex_item]"
    by (simp add: items_def ex_system_queued_def ex_queued_def ex_system_def)
  have n: "ex_node ''a'' 0 \<in> set (world ex_system_queued)"
    by (simp add: ex_system_queued_def ex_system_def ex_nodes_def)
  have "still_reserved ex_system_queued ex_item 0"
    by (simp add: still_reserved_def ex_system_queued_def ex_system_def)
  moreover have "\<forall>j < length (node_nets (ex_node ''a'' 0)). j < length (reservedCIDRs ex_item) \<longrightarrow>
      still_reserved ex_system_queued ex_item j \<longrightarrow> net_addrs (node_nets (ex_node ''a'' 0) ! j) \<inter> net_addrs (reservedCIDRs ex_item ! j) = {}"
    using reservations_sound [OF ex_clients ex_run(1) ex_run_queued, THEN conjunct2, THEN conjunct2,
        rule_format, of ex_item, THEN conjunct2, rule_format, of "ex_node ''a'' 0"] it n
    by (simp add: ex_item_def ex_node_def [of "''a''" 0])
  ultimately have "net_addrs (ex_host 0) \<inter> net_addrs (ex_host 2) = {}" by (simp add: ex_item_def)
  then show ?thesis using it ex_run(1) ex_run_queued(1) by blast
qed

text \<open>
  C18: No block that is held is ever free, on every run from a start in which no update was given up
  and no node was deleted between an applied attempt and its repetition. Whoever holds a network of
  set \<open>j\<close> (a node of the cluster, a deleted node whose release has not begun, a reservation on its
  way until its worker is done with the block, or a call in the middle of its allocation), the
  network covers cells of the set, they are all in use, and what the set would allocate next
  shares no address with it.
\<close>

theorem runs_keep_held_blocks_in_use:
  assumes "clients_ok env cluster" "sys_start env cluster c0 s0" "(sys_step env cluster)\<^sup>*\<^sup>* s0 s"
    "\<not> gave_up (ctl s)" "\<not> lost_node s" "held cluster s j n" "j < length (cidrSets (ctl s))"
  shows "cells_at (ctl s) j n \<noteq> {} \<and> cells_at (ctl s) j n \<subseteq> used_at (ctl s) j
    \<and> (\<forall>m c'. on_set j AllocateNext (ctl s) = (Inr m, c') \<longrightarrow> net_addrs m \<inter> net_addrs n = {})"
proof -
  note inv = sys_run_inv [OF assms(1-5)]
  have "(j, n) \<in># holders cluster s" by (rule held_holders [OF inv assms(6)])
  note c = holds_all_cells [OF sys_invD(1) [OF inv] this assms(7)]
  then show ?thesis
    using next_alloc_apart [OF holds_allD [OF sys_invD(1) [OF inv]] _ c] by blast
qed

theorem runs_keep_held_blocks_in_use_witness:
  "sys_start ex_env (\<lambda>w. w) ex_alloc ex_system \<and> (sys_step ex_env (\<lambda>w. w))\<^sup>*\<^sup>* ex_system ex_system_queued
    \<and> cells_at ex_queued 0 (ex_host 1) \<subseteq> used_at ex_queued 0
    \<and> cells_at ex_queued 0 (ex_host 2) \<subseteq> used_at ex_queued 0"
proof -
  have c: "ctl ex_system_queued = ex_queued" "length (cidrSets ex_queued) = 1"
    by (simp_all add: ex_system_queued_def ex_queued_def)
  have "held (\<lambda>w. w) ex_system_queued 0 (ex_host 1)"
    unfolding held_def
    by (intro disjI1 bexI [of _ "ex_node ''b'' 1"])
      (simp_all add: ex_system_queued_def ex_system_def ex_nodes_def)
  moreover have "held (\<lambda>w. w) ex_system_queued 0 (ex_host 2)"
    unfolding held_def
    by (intro disjI2 disjI1 bexI [of _ ex_item])
      (simp_all add: still_reserved_def items_def ex_system_queued_def ex_system_def ex_queued_def ex_item_def)
  ultimately show ?thesis
    using runs_keep_held_blocks_in_use [OF ex_clients ex_run(1) ex_run_queued, of 0] ex_run(1) ex_run_queued(1) c
    by (metis zero_less_one)
qed

text \<open>
  C31: The functions of the source are refined by the steps of the system: a call of
  \<open>AllocateOrOccupyCIDR\<close> or of \<open>ReleaseCIDR\<close> that does not panic, and a round of \<open>worker\<close> that ends
  without a panic and without blocking, each taken as one action, is a run of steps that access
  one CIDR set, the channel, the nodes in processing or one client at a time. A call that blocks
  leaves its wait behind. So what holds on every run holds when the functions are atomic.
\<close>

theorem source_calls_refine:
  "(\<forall>b node out c. AllocateOrOccupyCIDR env b (Some node) (ctl s) = (out, c)
      \<and> (\<forall>p. out \<noteq> Returned (Inl (GoPanic p))) \<longrightarrow>
      (sys_step env cluster)\<^sup>*\<^sup>* s (s\<lparr>ctl := c,
        handling := handling s @ waiting_call node (startCtx (ctl s) \<noteq> None) out,
        waiting := waiting s @ waiting_item out\<rparr>))
    \<and> (\<forall>xs node ys r c. deleted s = xs @ node # ys \<and> ReleaseCIDR env (Some node) (ctl s) = (r, c)
      \<and> (\<forall>p. r \<noteq> Inl (GoPanic p)) \<longrightarrow>
      (sys_step env cluster)\<^sup>*\<^sup>* s (s\<lparr>ctl := c, deleted := xs @ ys\<rparr>))
    \<and> (\<forall>out c w. worker_round env (ctl s) (world s) = (out, c, w) \<and> 0 < tickPeriod (ctl s)
      \<and> (out = Handled \<or> (\<exists>e. out = Requeued e)) \<longrightarrow>
      (sys_step env cluster)\<^sup>*\<^sup>* s (s\<lparr>ctl := c, world := w\<rparr>))"
  by (intro conjI allI impI; elim conjE)
    (rule handler_run delete_run, assumption+, simp | elim disjE exE; blast intro: worker_round_run)+

theorem source_calls_refine_witness:
  "(sys_step ex_env (\<lambda>w. w))\<^sup>*\<^sup>* ex_system ex_system_queued
    \<and> (\<exists>c' w'. worker_round ex_env ex_queued ex_nodes = (Requeued (StatusError ''NotFound''), c', w')
      \<and> (sys_step ex_env (\<lambda>w. w))\<^sup>*\<^sup>* ex_system_queued (ex_system_queued\<lparr>ctl := c', world := w'\<rparr>))"
proof -
  obtain out c' w' where r: "worker_round ex_env ex_queued ex_nodes = (out, c', w')" by (rule prod_cases3)
  have o: "out = Requeued (StatusError ''NotFound'')"
    using r by (simp add: worker_round_def ex_queued_def ex_item_def updateCIDRsAllocation_def ex_env_def
        ex_nodes_def ex_node_def queueAfterWait_def ex_started_def ex_alloc_def CidrUpdateQueueSize_def)
  have s: "ctl ex_system = ex_started" "handling ex_system = []" "waiting ex_system = []"
    "ctl ex_system_queued = ex_queued" "world ex_system_queued = ex_nodes" "tickPeriod ex_queued = 1"
    "ex_system\<lparr>ctl := ex_queued, handling := [], waiting := []\<rparr> = ex_system_queued"
    by (simp_all add: ex_system_queued_def ex_system_def) (simp add: ex_queued_def ex_started_def ex_alloc_def)
  have "(sys_step ex_env (\<lambda>w. w))\<^sup>*\<^sup>* ex_system ex_system_queued"
    using source_calls_refine [of ex_env ex_system "\<lambda>w. w", THEN conjunct1, rule_format,
        of True "ex_fresh ''c''" "Returned (Inr ())" ex_queued] ex_event
    by (simp add: s)
  moreover have "(sys_step ex_env (\<lambda>w. w))\<^sup>*\<^sup>* ex_system_queued (ex_system_queued\<lparr>ctl := c', world := w'\<rparr>)"
    using source_calls_refine [of ex_env ex_system_queued "\<lambda>w. w", THEN conjunct2, THEN conjunct2, rule_format,
        of out c' w'] r o
    by (simp add: s)
  ultimately show ?thesis using r o by blast
qed

end
