(* ===== verification/Outcomes.thy ===== *)
theory Outcomes
  imports Handlers
begin

text \<open>
  When the loops of the allocator succeed: what occupying and releasing the CIDRs of a node
  or a reservation does in every case, and when there is a block of every set to allocate.
\<close>

subsection \<open>One set\<close>

lemma on_set_occupy_cases:
  assumes inv: "alloc_inv c" and n: "is_canon n"
  obtains (panic) "length (cidrSets c) \<le> idx"
      "on_set idx (\<lambda>s. Occupy s (Some n)) c = (Inl (CidrPanic IndexOutOfRange), c)"
    | (out) "idx < length (cidrSets c)" "\<not> in_range (cidrSets c ! idx) n"
      "on_set idx (\<lambda>s. Occupy s (Some n)) c
        = (Inl (ErrOutOfClusterRange n (clusterCIDR (cidrSets c ! idx))), c)"
    | (ok) d where "idx < length (cidrSets c)" "in_range (cidrSets c ! idx) n"
      "on_set idx (\<lambda>s. Occupy s (Some n)) c = (Inr (), d)" "set_step c d"
      "\<And>i. used_at d i = used_at c i \<union> (if i = idx then cells_at c idx n else {})"
proof (cases "idx < length (cidrSets c)")
  case False
  then show thesis using panic by (simp add: on_set_def)
next
  case True
  obtain l k where k: "canon l k n" using n by (auto simp: is_canon_def)
  from alloc_inv_nth [OF inv True] k show thesis
  proof (cases rule: Occupy_canon_cases)
    case (ok s' ms)
    then obtain d where d: "on_set idx (\<lambda>s. Occupy s (Some n)) c = (Inr (), d)"
      using True by (simp add: on_set_def)
    show thesis
      by (rule that(3) [OF True ok(2) d on_set_occupy_step [OF inv d] on_set_occupy(3) [OF inv n d]])
  next
    case out
    then show thesis using True that(2) by (simp add: on_set_def)
  qed
qed

lemma on_set_release_cases:
  assumes inv: "alloc_inv c" and n: "is_canon n"
  obtains (panic) "length (cidrSets c) \<le> idx"
      "on_set idx (\<lambda>s. Release s (Some n)) c = (Inl (CidrPanic IndexOutOfRange), c)"
    | (out) "idx < length (cidrSets c)" "\<not> in_range (cidrSets c ! idx) n"
      "on_set idx (\<lambda>s. Release s (Some n)) c
        = (Inl (ErrOutOfClusterRange n (clusterCIDR (cidrSets c ! idx))), c)"
    | (ok) d where "idx < length (cidrSets c)" "in_range (cidrSets c ! idx) n"
      "on_set idx (\<lambda>s. Release s (Some n)) c = (Inr (), d)" "set_step c d"
      "\<And>i. used_at d i = used_at c i - (if i = idx then cells_at c idx n else {})"
proof (cases "idx < length (cidrSets c)")
  case False
  then show thesis using panic by (simp add: on_set_def)
next
  case True
  obtain l k where k: "canon l k n" using n by (auto simp: is_canon_def)
  from alloc_inv_nth [OF inv True] k show thesis
  proof (cases rule: Release_canon_cases)
    case (ok s' ms)
    then obtain d where d: "on_set idx (\<lambda>s. Release s (Some n)) c = (Inr (), d)"
      using True by (simp add: on_set_def)
    show thesis
      by (rule that(3) [OF True ok(2) d on_set_release_step [OF inv d] on_set_release(2) [OF inv n d]])
  next
    case out
    then show thesis using True that(2) by (simp add: on_set_def)
  qed
qed

text \<open>A network out of range covers no cell.\<close>

lemma cells_at_out:
  assumes "alloc_inv c" "i < length (cidrSets c)" "is_canon n" "\<not> in_range (cidrSets c ! i) n"
  shows "cells_at c i n = {}"
proof -
  have wf: "cset_wf (cidrSets c ! i)" using alloc_inv_nth [OF assms(1,2)] by (simp add: cset_inv_def)
  obtain l k where "canon l k n" using assms(3) by (auto simp: is_canon_def)
  then show ?thesis
    using touched_in_range [OF wf] assms(4) by (auto simp: cells_at_def cells_of_def)
qed

lemma step_in_range:
  "set_step c d \<Longrightarrow> i < length (cidrSets c) \<Longrightarrow> in_range (cidrSets d ! i) n = in_range (cidrSets c ! i) n"
  using same_config_eqs(5) [OF set_step_same] .

subsection \<open>Occupying the CIDRs of a node\<close>

text \<open>The networks \<open>ns\<close> fit the sets from \<open>idx\<close> on.\<close>

definition nets_fit :: "cidrAllocator \<Rightarrow> nat \<Rightarrow> IPNet list \<Rightarrow> bool" where
  "nets_fit c idx ns \<longleftrightarrow> (ns = [] \<or> idx + length ns \<le> length (cidrSets c))
     \<and> (\<forall>j < length ns. in_range (cidrSets c ! (idx + j)) (ns ! j))"

lemma nets_fit_simps [simp]:
  "nets_fit c idx []"
  "nets_fit c idx (n # ns) \<longleftrightarrow> idx < length (cidrSets c) \<and> in_range (cidrSets c ! idx) n \<and> nets_fit c (Suc idx) ns"
proof -
  have "(\<forall>j < length (n # ns). in_range (cidrSets c ! (idx + j)) ((n # ns) ! j))
      \<longleftrightarrow> in_range (cidrSets c ! idx) n \<and> (\<forall>j < length ns. in_range (cidrSets c ! (Suc idx + j)) (ns ! j))"
    by (simp add: All_less_Suc2)
  then show "nets_fit c idx (n # ns) \<longleftrightarrow> idx < length (cidrSets c) \<and> in_range (cidrSets c ! idx) n \<and> nets_fit c (Suc idx) ns"
    by (auto simp: nets_fit_def)
qed (simp add: nets_fit_def)

lemma nets_fit_step: "set_step c d \<Longrightarrow> nets_fit d idx ns = nets_fit c idx ns"
  by (induction ns arbitrary: idx) (auto simp: set_step_fields(12) step_in_range)

lemma occupyLoop_iff:
  assumes "ip_family_ok env" "std_cidrs ts" "alloc_inv c"
  shows "if nets_fit c idx (v4_nets ts) then (\<exists>c'. occupyLoop env node idx ts c = (Inr (), c'))
    else (\<exists>e c'. occupyLoop env node idx ts c = (Inl e, c'))"
  using assms(2,3)
proof (induction ts arbitrary: idx c)
  case (Cons t ts)
  from assms(1) Cons.prems(1) show ?case
  proof (cases rule: cidr_cases)
    case (v6 n)
    then show ?thesis using Cons.IH [of c idx] Cons.prems by simp
  next
    case (v4 n)
    from Cons.prems(2) v4(3) show ?thesis
    proof (cases rule: on_set_occupy_cases [where idx = idx])
      case (ok d)
      then show ?thesis
        using Cons.IH [OF _ set_step_inv [OF ok(4)], of "Suc idx"] Cons.prems(1) v4
        by (simp add: nets_fit_step [OF ok(4)])
    qed (use v4 in auto)
  qed
qed simp

lemma occupyLoop_fits:
  assumes "ip_family_ok env" "std_cidrs ts" "alloc_inv c" "nets_fit c idx (v4_nets ts)"
  obtains c' where "occupyLoop env node idx ts c = (Inr (), c')"
  using occupyLoop_iff [OF assms(1-3), of idx node] assms(4) by auto

lemma occupyLoop_unfit:
  assumes "ip_family_ok env" "std_cidrs ts" "alloc_inv c" "\<not> nets_fit c idx (v4_nets ts)"
  obtains e c' where "occupyLoop env node idx ts c = (Inl e, c')"
  using occupyLoop_iff [OF assms(1-3), of idx node] assms(4) by auto

lemma releaseLoop_fits:
  assumes "ip_family_ok env" "std_cidrs ts" "alloc_inv c" "nets_fit c idx (v4_nets ts)"
  shows "\<exists>c'. releaseLoop env node idx ts c = (Inr (), c')"
  using assms(2-4)
proof (induction ts arbitrary: idx c)
  case (Cons t ts)
  from assms(1) Cons.prems(1) show ?case
  proof (cases rule: cidr_cases)
    case (v6 n)
    then show ?thesis using Cons.IH [of c idx] Cons.prems by simp
  next
    case (v4 n)
    from Cons.prems(2) v4(3) show ?thesis
    proof (cases rule: on_set_release_cases [where idx = idx])
      case (ok d)
      then show ?thesis
        using Cons.IH [OF _ set_step_inv [OF ok(4)], of "Suc idx"] Cons.prems(1,3) v4
        by (simp add: nets_fit_step [OF ok(4)])
    qed (use v4 Cons.prems(3) in auto)
  qed
qed simp

text \<open>The release of a node whose CIDRs fit the sets.\<close>

lemma ReleaseCIDR_fits:
  assumes "ip_family_ok env" "std_cidrs (PodCIDRs node)" "alloc_inv c" "nets_fit c 0 (node_nets node)"
  obtains c' where "ReleaseCIDR env (Some node) c = (Inr (), c')"
    "\<forall>i < length (cidrSets c). used_at c' i = used_at c i - net_cells c 0 (node_nets node) i"
proof -
  obtain c' where c': "releaseLoop env node 0 (PodCIDRs node) c = (Inr (), c')"
    using releaseLoop_fits [OF assms(1-3)] assms(4) by (auto simp: node_nets_def)
  have "ReleaseCIDR env (Some node) c = (Inr (), c')"
    using c' by (auto simp: ReleaseCIDR_def)
  then show thesis using that releaseLoop_ok [OF assms(1-3) c'] by (simp add: node_nets_def)
qed

subsection \<open>Giving a reservation back\<close>

lemma releaseReserved_total:
  assumes "alloc_inv c" "\<forall>n\<in>set ns. is_canon n" "ns = [] \<or> idx + length ns \<le> length (cidrSets c)"
  shows "\<exists>c'. releaseReserved idx ns c = (Inr (), c') \<and> set_step c c'
    \<and> (\<forall>i < length (cidrSets c). used_at c' i = used_at c i - net_cells c idx ns i)"
  using assms
proof (induction ns arbitrary: idx c)
  case Nil
  then show ?case by (simp add: set_step_refl)
next
  case (Cons n ns)
  have n: "is_canon n" "\<forall>n\<in>set ns. is_canon n" using Cons.prems(2) by simp_all
  from Cons.prems(1) n(1) show ?case
  proof (cases rule: on_set_release_cases [where idx = idx])
    case panic
    then show ?thesis using Cons.prems(3) by simp
  next
    case out
    then show ?thesis
      using Cons.IH [OF Cons.prems(1) n(2), of "Suc idx"] Cons.prems(3)
        cells_at_out [OF Cons.prems(1) out(1) n(1) out(2)]
      by (auto simp: set_step_refl)
  next
    case (ok d)
    then obtain c' where "releaseReserved (Suc idx) ns d = (Inr (), c')" "set_step d c'"
      "\<forall>i < length (cidrSets d). used_at c' i = used_at d i - net_cells d (Suc idx) ns i"
      using Cons.IH [OF set_step_inv [OF ok(4)] n(2), of "Suc idx"] Cons.prems(3)
      by (auto simp: set_step_fields(12) [OF ok(4)])
    then show ?thesis
      using ok set_step_trans [OF ok(4)] by (auto simp: net_cells_step [OF ok(4)] set_step_fields(12) [OF ok(4)])
  qed
qed

subsection \<open>A block of every set\<close>

definition has_room :: "cidrAllocator \<Rightarrow> nat \<Rightarrow> bool" where
  "has_room c i \<longleftrightarrow> card (used_at c i) < nat (maxCIDRs (cidrSets c ! i))"

lemma no_room_full:
  assumes "alloc_inv c" "i < length (cidrSets c)"
  shows "has_room c i \<longleftrightarrow> used_at c i \<noteq> {..< nat (maxCIDRs (cidrSets c ! i))}"
proof -
  have "used_at c i \<subseteq> {..< nat (maxCIDRs (cidrSets c ! i))}"
    using cs.used_bounded [OF alloc_inv_nth [OF assms]] by (simp add: used_at_def)
  then show ?thesis
    unfolding has_room_def
    by (metis card_lessThan finite_lessThan order_less_irrefl psubsetI psubset_card_mono)
qed

lemma allocateLoop_possible:
  assumes inv: "alloc_inv c" and r: "\<forall>i < length (cidrSets c). has_room c i"
  obtains ns c' where "allocateLoop 0 (length (cidrSets c)) c = (Inr ns, c')"
proof (cases "allocateLoop 0 (length (cidrSets c)) c")
  case (Pair x d)
  show thesis
  proof (cases x)
    case (Inl je)
    obtain j e where je: "je = (j, e)" by (cases je)
    have "used_at c j = {..< nat (maxCIDRs (cidrSets c ! j))}" "j < length (cidrSets c)"
      using allocateLoop_err [OF inv _ Pair [unfolded Inl je]] by simp_all
    then show thesis using r no_room_full [OF inv] by blast
  qed (use Pair that in simp)
qed

text \<open>The first set without room is the one the loop fails at.\<close>

lemma allocateLoop_first_full:
  assumes inv: "alloc_inv c" and j: "j < length (cidrSets c)" "\<not> has_room c j" "\<forall>i < j. has_room c i"
  obtains c' where "allocateLoop 0 (length (cidrSets c)) c = (Inl (j, ErrCIDRRangeNoCIDRsRemaining), c')"
    "set_step c c'" "\<forall>i < j. \<exists>x. x \<notin> used_at c i \<and> used_at c' i = insert x (used_at c i)"
    "\<forall>i \<ge> j. used_at c' i = used_at c i"
proof (cases "allocateLoop 0 (length (cidrSets c)) c")
  case (Pair x d)
  have full: "used_at c j = {..< nat (maxCIDRs (cidrSets c ! j))}" using no_room_full [OF inv j(1)] j(2) by simp
  have sd: "set_step c d" by (rule allocateLoop_step [OF inv Pair])
  have bounded: "used_at d j \<subseteq> {..< nat (maxCIDRs (cidrSets c ! j))}"
    using cs.used_bounded [OF alloc_inv_nth [OF set_step_inv [OF sd], of j]] j(1)
    unfolding used_at_def same_configD(5) [OF set_step_same [OF sd j(1)]] set_step_fields(12) [OF sd] .
  have no_new: False if "x \<notin> used_at c j" "x \<in> used_at d j" for x
    using that full bounded by blast
  show thesis
  proof (cases x)
    case (Inr ns)
    then have "\<exists>y. cells_at c j (ns ! j) = {y} \<and> y \<notin> used_at c j" "length ns = length (cidrSets c)"
      "used_at d j = used_at c j \<union> net_cells c 0 ns j"
      using allocateLoop_ok [OF inv Pair [unfolded Inr]] j(1) by simp_all
    then show thesis using no_new j(1) by (auto simp: net_cells_def)
  next
    case (Inl je)
    obtain k e where je: "je = (k, e)" by (cases je)
    have er: "e = ErrCIDRRangeNoCIDRsRemaining" "k < length (cidrSets c)"
      "used_at c k = {..< nat (maxCIDRs (cidrSets c ! k))}"
      "\<And>i. i < k \<Longrightarrow> \<exists>x. x \<notin> used_at c i \<and> used_at d i = insert x (used_at c i)"
      "\<And>i. k \<le> i \<Longrightarrow> used_at d i = used_at c i"
      using allocateLoop_err [OF inv _ Pair [unfolded Inl je]] by simp_all
    have k: "k < length (cidrSets c)" "used_at c k = {..< nat (maxCIDRs (cidrSets c ! k))}"
      "e = ErrCIDRRangeNoCIDRsRemaining" using er by simp_all
    have "\<not> k < j" using j(3) k no_room_full [OF inv k(1)] by blast
    moreover have "\<not> j < k" using er(4) [of j] no_new by blast
    ultimately have "k = j" by simp
    have "\<forall>i < j. \<exists>x. x \<notin> used_at c i \<and> used_at d i = insert x (used_at c i)"
      "\<forall>i \<ge> j. used_at d i = used_at c i"
      using er(4,5) unfolding \<open>k = j\<close> by simp_all
    then show thesis using Pair k(3) sd unfolding Inl je \<open>k = j\<close> by (intro that [of d]) simp_all
  qed
qed


subsection \<open>Reconciliation\<close>

lemma occupyCIDRsWithoutRemoval_fits:
  assumes env: "ip_family_ok env" and ts: "std_cidrs (PodCIDRs node)" and inv: "alloc_inv c"
    and f: "nets_fit c 0 (node_nets node)"
  obtains d where "occupyCIDRsWithoutRemoval env node c = (Inr (), d)" "set_step c d"
    "\<forall>i < length (cidrSets c). used_at d i = used_at c i \<union> net_cells c 0 (node_nets node) i"
proof (cases "PodCIDRs node = []")
  case True
  then show thesis
    using that [of c] inv by (simp add: occupyCIDRsWithoutRemoval_def set_step_refl node_nets_def)
next
  case False
  obtain d where d: "occupyLoop env node 0 (PodCIDRs node) c = (Inr (), d)"
    by (rule occupyLoop_fits [OF env ts inv f [unfolded node_nets_def]])
  show thesis
    by (rule that [OF _ occupyLoop_step [OF inv d]])
      (use d False occupyLoop_ok [OF env ts inv d] in \<open>simp_all add: occupyCIDRsWithoutRemoval_def node_nets_def\<close>)
qed

lemma reconcileLoop_fits:
  assumes env: "ip_family_ok env"
  shows "alloc_inv c \<Longrightarrow> \<forall>n\<in>set nodes. std_cidrs (PodCIDRs n) \<and> nets_fit c 0 (node_nets n) \<Longrightarrow>
    \<exists>c'. reconcileLoop env nodes c = (Inr (), c') \<and> set_step c c'
      \<and> (\<forall>i < length (cidrSets c). used_at c' i = used_at c i \<union> (\<Union>n\<in>set nodes. net_cells c 0 (node_nets n) i))"
proof (induction nodes arbitrary: c)
  case Nil
  then show ?case by (simp add: set_step_refl)
next
  case (Cons node nodes)
  show ?case
  proof (cases "PodCIDRs node = []")
    case True
    then show ?thesis using Cons.IH [OF Cons.prems(1)] Cons.prems(2) by (simp add: node_nets_def)
  next
    case False
    obtain d where d: "occupyCIDRsWithoutRemoval env node c = (Inr (), d)" "set_step c d"
      "\<forall>i < length (cidrSets c). used_at d i = used_at c i \<union> net_cells c 0 (node_nets node) i"
      using occupyCIDRsWithoutRemoval_fits [OF env _ Cons.prems(1)] Cons.prems(2) by (metis list.set_intros(1))
    have "\<forall>n\<in>set nodes. std_cidrs (PodCIDRs n) \<and> nets_fit d 0 (node_nets n)"
      using Cons.prems(2) by (simp add: nets_fit_step [OF d(2)])
    from Cons.IH [OF set_step_inv [OF d(2)] this] obtain c' where c': "reconcileLoop env nodes d = (Inr (), c')"
      "set_step d c'" "\<forall>i < length (cidrSets d). used_at c' i
        = used_at d i \<union> (\<Union>n\<in>set nodes. net_cells d 0 (node_nets n) i)"
      by blast
    then show ?thesis
      using False d(1,3) set_step_trans [OF d(2)]
      by (auto simp: net_cells_step [OF d(2)] set_step_fields(12) [OF d(2)])
  qed
qed

text \<open>A node whose networks do not fit stops the reconciliation.\<close>

lemma reconcileLoop_stuck:
  assumes env: "ip_family_ok env"
  shows "alloc_inv c \<Longrightarrow> \<forall>n\<in>set nodes. std_cidrs (PodCIDRs n) \<Longrightarrow>
    \<exists>n\<in>set nodes. \<not> nets_fit c 0 (node_nets n) \<Longrightarrow> \<exists>e c'. reconcileLoop env nodes c = (Inl e, c')"
proof (induction nodes arbitrary: c)
  case (Cons node nodes)
  have ts: "std_cidrs (PodCIDRs node)" using Cons.prems(2) by simp
  show ?case
  proof (cases "nets_fit c 0 (node_nets node)")
    case True
    from occupyCIDRsWithoutRemoval_fits [OF env ts Cons.prems(1) this]
    obtain d where d: "occupyCIDRsWithoutRemoval env node c = (Inr (), d)" "set_step c d" by blast
    have "\<exists>n\<in>set nodes. \<not> nets_fit c 0 (node_nets n)" using True Cons.prems(3) by simp
    then show ?thesis
      using Cons.IH [OF Cons.prems(1)] Cons.IH [OF set_step_inv [OF d(2)]] Cons.prems(2) d(1)
      by (simp add: nets_fit_step [OF d(2)])
  next
    case False
    then have "PodCIDRs node \<noteq> []" by (auto simp: node_nets_def)
    moreover obtain e d where "occupyLoop env node 0 (PodCIDRs node) c = (Inl e, d)"
      by (rule occupyLoop_unfit [OF env ts Cons.prems(1) False [unfolded node_nets_def]])
    ultimately show ?thesis
      by (simp add: occupyCIDRsWithoutRemoval_def split: go_err.split)
  qed
qed simp

lemma Start_ready:
  assumes "Start env True c w = (Inr (), c', w')"
  obtains nodes d where "api_List env w = (Inr nodes, w')"
    "reconcileLoop env nodes (c\<lparr>startCtx := Some False\<rparr>) = (Inr (), d)" "\<not> reconcileReady d"
    "c' = d\<lparr>reconcileReady := True, workers := workers d + cidrUpdateWorkers\<rparr>"
proof -
  let ?c = "c\<lparr>startCtx := Some False\<rparr>"
  obtain r d w1 where rc: "reconcileState env ?c w = (r, d, w1)" by (rule prod_cases3)
  then have r: "r = Inr ()" "\<not> reconcileReady d" "w1 = w'"
      "c' = d\<lparr>reconcileReady := True, workers := workers d + cidrUpdateWorkers\<rparr>"
    using assms by (auto simp: Start_def Let_def split: sum.splits go_err.splits if_splits)
  then obtain nodes where "api_List env w = (Inr nodes, w')" "reconcileLoop env nodes ?c = (Inr (), d)"
    using rc by (auto simp: reconcileState_def split: prod.splits sum.splits)
  then show thesis using r(2,4) that by blast
qed

end
