(* ===== verification/IPv6Text.thy ===== *)
theory IPv6Text
  imports NetText
begin

text \<open>
  The round trip of IPv6 text: what \<open>netip.Addr.appendTo6\<close> prints, with \<open>::\<close> for its longest run of
  zero groups, \<open>netip.parseIPv6\<close> reads back. With the IPv4 round trip of NetText this makes
  \<open>ParseCIDR\<close> a left inverse of \<open>IPNet.String\<close> on the canonical networks of both families.
\<close>

subsection \<open>Groups and their text\<close>

text \<open>The two bytes of a group, and the text of a list of groups with and without a colon in front.\<close>

definition group_bytes :: "nat list \<Rightarrow> byte list" where
  "group_bytes us = concat (map (\<lambda>u. [of_nat (u div 256), of_nat u]) us)"

definition colon_before :: "nat list \<Rightarrow> string" where
  "colon_before us = concat (map (\<lambda>u. CHR '':'' # hex u) us)"

definition colon_after :: "nat list \<Rightarrow> string" where
  "colon_after us = concat (map (\<lambda>u. hex u @ '':'') us)"

definition joined :: "nat list \<Rightarrow> string" where
  "joined us = (case us of [] \<Rightarrow> [] | u # vs \<Rightarrow> hex u @ colon_before vs)"

lemma group_bytes_simps [simp]:
  "group_bytes [] = []" "group_bytes (u # us) = of_nat (u div 256) # of_nat u # group_bytes us"
  "group_bytes (us @ vs) = group_bytes us @ group_bytes vs"
  "length (group_bytes us) = 2 * length us"
  by (simp_all add: group_bytes_def) (induction us; simp)

lemma group_bytes_zeros [simp]: "group_bytes (replicate n 0) = replicate (2 * n) 0"
  by (induction n) simp_all

lemma colon_simps [simp]:
  "colon_before [] = []" "colon_before (u # us) = CHR '':'' # hex u @ colon_before us"
  "colon_after [] = []" "colon_after (u # us) = hex u @ CHR '':'' # colon_after us"
  by (simp_all add: colon_before_def colon_after_def)

lemma joined_simps [simp]: "joined [] = []" "joined (u # us) = hex u @ colon_before us"
  by (simp_all add: joined_def)

lemma joined_Nil_iff: "joined us = [] \<longleftrightarrow> us = []"
  by (cases us) (simp_all add: hex.simps)

lemma joined_nth: "us \<noteq> [] \<Longrightarrow> joined us = hex (us ! 0) @ colon_before (drop 1 us)"
  by (cases us) simp_all

lemma joined_last: "us \<noteq> [] \<Longrightarrow> joined us = colon_after (butlast us) @ hex (last us)"
proof (induction us)
  case (Cons u us)
  then show ?case by (cases us) simp_all
qed simp

lemma groups_bytes: "even (length ip) \<Longrightarrow> group_bytes (groups ip) = ip"
proof (induction ip rule: groups.induct)
  case (1 a b bs)
  have z: "(256 :: byte) = 0" by code_simp
  have "a * 256 = 0" by (simp only: z mult_zero_right)
  then have "(of_nat (unat a * 256 + unat b) :: byte) = b" by simp
  moreover have "(unat a * 256 + unat b) div 256 = unat a" by simp
  ultimately show ?case using 1 by simp
qed simp_all

lemma length_groups: "length (groups ip) = length ip div 2"
  by (induction ip rule: groups.induct) simp_all

lemma groups_small: "u \<in> set (groups ip) \<Longrightarrow> u < 65536"
proof (induction ip rule: groups.induct)
  case (1 a b bs)
  have "unat a < 256" "unat b < 256" by simp_all
  then have "unat a * 256 + unat b < 65536" by linarith
  with 1 show ?case by auto
qed simp_all

subsection \<open>Hexadecimal groups\<close>

lemma hex_val_hex_digit [simp]: "d < 16 \<Longrightarrow> hex_val (hex_digit d) = Some d"
  by (simp add: hex_val_def hex_digit_def)

lemma hex_val_sep [simp]:
  "hex_val CHR '':'' = None" "hex_val CHR ''.'' = None" "hex_val CHR ''%'' = None" "hex_val CHR ''/'' = None"
  by (simp_all add: hex_val_def)

lemma hex_nonempty [simp]: "hex n \<noteq> []"
  by (subst hex.simps) simp

lemma hex_set: "c \<in> set (hex n) \<Longrightarrow> hex_val c \<noteq> None"
proof (induction n rule: hex.induct)
  case (1 n)
  then show ?case by (subst (asm) hex.simps) (auto split: if_splits)
qed

lemma hex_no_sep [simp]: "CHR '':'' \<notin> set (hex n)" "CHR ''.'' \<notin> set (hex n)"
  "CHR ''%'' \<notin> set (hex n)" "CHR ''/'' \<notin> set (hex n)"
  using hex_set [of _ n] hex_val_sep by blast+

lemma hex_Cons: obtains c cs where "hex n = c # cs" "c \<noteq> CHR '':''"
  using hex_no_sep(1) [of n] by (cases "hex n") auto

lemma hex_1: "a < 16 \<Longrightarrow> hex a = [hex_digit a]"
  by (simp add: hex.simps)

lemma hex_2: "16 \<le> a \<Longrightarrow> a < 256 \<Longrightarrow> hex a = [hex_digit (a div 16), hex_digit (a mod 16)]"
  by (subst hex.simps) (simp add: hex_1)

lemma hex_3: "256 \<le> a \<Longrightarrow> a < 4096 \<Longrightarrow>
    hex a = [hex_digit (a div 256), hex_digit (a div 16 mod 16), hex_digit (a mod 16)]"
  by (subst hex.simps) (simp add: hex_2 flip: div_mult2_eq)

lemma hex_4: "4096 \<le> a \<Longrightarrow> a < 65536 \<Longrightarrow>
    hex a = [hex_digit (a div 4096), hex_digit (a div 256 mod 16), hex_digit (a div 16 mod 16), hex_digit (a mod 16)]"
  by (subst hex.simps) (simp add: hex_3 flip: div_mult2_eq)

text \<open>One digit read by \<open>hex_group\<close>.\<close>

lemma hex_group_digit:
  "d < 16 \<Longrightarrow> off < 4 \<Longrightarrow> acc * 16 + d < 65536 \<Longrightarrow>
    hex_group off acc (hex_digit d # cs) = hex_group (off + 1) (acc * 16 + d) cs"
  by simp

lemma hex_group_end:
  "r = [] \<or> hex_val (hd r) = None \<Longrightarrow> hex_group off acc r = Some (off, acc, r)"
  by (cases r) simp_all

lemma hex_group_hex:
  assumes "n < 65536" "r = [] \<or> hex_val (hd r) = None"
  shows "hex_group 0 0 (hex n @ r) = Some (length (hex n), n, r)"
proof -
  note e = hex_group_end [OF assms(2)]
  have parts: "n div 16 * 16 + n mod 16 = n" "n div 256 * 16 + n div 16 mod 16 = n div 16"
    "n div 4096 * 16 + n div 256 mod 16 = n div 256"
    using div_mult_mod_eq [of n 16] div_mult_mod_eq [of "n div 16" 16] div_mult_mod_eq [of "n div 256" 16]
    by (simp_all flip: div_mult2_eq)
  consider "n < 16" | "16 \<le> n" "n < 256" | "256 \<le> n" "n < 4096" | "4096 \<le> n" by linarith
  then show ?thesis
  proof cases
    case 1
    then show ?thesis by (simp add: hex_1 hex_group_digit e del: hex_group.simps)
  next
    case 2
    then show ?thesis using assms(1)
      by (simp add: hex_2 hex_group_digit e parts del: hex_group.simps)
  next
    case 3
    then show ?thesis using assms(1)
      by (simp add: hex_3 hex_group_digit e parts del: hex_group.simps)
  next
    case 4
    then show ?thesis using assms(1)
      by (simp add: hex_4 hex_group_digit e parts del: hex_group.simps)
  qed
qed

subsection \<open>The printer\<close>

text \<open>The run that is abbreviated: none, or at least two zero groups.\<close>

definition good_run :: "nat list \<Rightarrow> nat \<times> nat \<Rightarrow> bool" where
  "good_run us r \<longleftrightarrow> r = (255, 255) \<or> (\<exists>l\<ge>2. snd r = fst r + l \<and> snd r \<le> length us
      \<and> take l (drop (fst r) us) = replicate l 0)"

lemma takeWhile_zeros:
  "take (length (takeWhile (\<lambda>u. u = 0) us)) us = replicate (length (takeWhile (\<lambda>u. u = 0) us)) (0 :: nat)"
  by (induction us) simp_all

lemma zero_run_good: "length us = 8 \<Longrightarrow> good_run us (zero_run us)"
  unfolding zero_run_def
proof (rule fold_invariant [where Q = "\<lambda>i. i < length us"], goal_cases)
  case (3 i r)
  let ?l = "length (takeWhile (\<lambda>u. u = 0) (drop i us))"
  have "?l \<le> length us - i" by (metis length_drop length_takeWhile_le)
  then have "good_run us (i, i + ?l)" if "2 \<le> ?l"
    using that 3(2) takeWhile_zeros [of "drop i us"]
    by (auto simp: good_run_def intro!: exI [of _ ?l])
  then show ?case using 3(3) by (cases r) (simp add: Let_def)
qed (simp_all add: good_run_def)

lemma append6_rest:
  "length us = 8 \<Longrightarrow> 0 < i \<Longrightarrow> zs < i \<or> 8 \<le> zs \<Longrightarrow> 8 \<le> k + i \<Longrightarrow>
    append6 k us zs ze i = colon_before (drop i us)"
proof (induction k arbitrary: i)
  case (Suc k)
  show ?case
  proof (cases "i < 8")
    case True
    then have "drop i us = us ! i # drop (Suc i) us" using Suc.prems by (simp add: Cons_nth_drop_Suc)
    then show ?thesis using True Suc.prems Suc.IH [of "Suc i"] by auto
  qed (use Suc.prems in simp)
qed simp

lemma append6_run:
  "length us = 8 \<Longrightarrow> zs < ze \<Longrightarrow> ze \<le> 8 \<Longrightarrow> i \<le> zs \<Longrightarrow> 0 < i \<Longrightarrow> 8 \<le> k + i \<Longrightarrow>
    append6 k us zs ze i = colon_before (take (zs - i) (drop i us)) @ ''::'' @ joined (drop ze us)"
proof (induction k arbitrary: i)
  case (Suc k)
  show ?case
  proof (cases "i = zs")
    case True
    have "drop ze us = us ! ze # drop (Suc ze) us" if "ze < 8"
      using that Suc.prems by (simp add: Cons_nth_drop_Suc)
    then show ?thesis using True Suc.prems append6_rest [of us "Suc ze" zs k ze]
      by (cases "ze < 8") auto
  next
    case False
    then have i: "i < 8" "i < zs" "zs - i = Suc (zs - Suc i)" using Suc.prems by linarith+
    then have "drop i us = us ! i # drop (Suc i) us" using Suc.prems by (simp add: Cons_nth_drop_Suc)
    then show ?thesis using i Suc.prems Suc.IH [of "Suc i"] by simp
  qed
qed simp

lemma append6_0:
  "append6 8 us zs ze 0 = (if zs = 0
     then ''::'' @ (if 8 \<le> ze then [] else hex (us ! ze) @ append6 7 us zs ze (Suc ze))
     else hex (us ! 0) @ append6 7 us zs ze 1)"
  using append6.simps(2) [of 7 us zs ze 0] by simp

lemma string6_shape:
  assumes "length ip = 16"
  obtains "string6 ip = joined (groups ip)"
  | pre z suf where "groups ip = pre @ replicate z 0 @ suf" "2 \<le> z"
      "string6 ip = joined pre @ ''::'' @ joined suf"
proof -
  let ?us = "groups ip"
  have len: "length ?us = 8" using assms by (simp add: length_groups)
  then have ne: "?us \<noteq> []" by auto
  obtain zs ze where r: "zero_run ?us = (zs, ze)" by fastforce
  have s: "string6 ip = append6 8 ?us zs ze 0" by (simp add: string6_def r)
  have hd: "drop i ?us = ?us ! i # drop (Suc i) ?us" if "i < 8" for i
    using that len by (simp add: Cons_nth_drop_Suc)
  from zero_run_good [OF len] consider "zs = 255"
    | l where "2 \<le> l" "ze = zs + l" "ze \<le> 8" "take l (drop zs ?us) = replicate l 0"
    unfolding r good_run_def len by auto
  then show thesis
  proof cases
    case 1
    then have "string6 ip = joined ?us"
      using s joined_nth [of ?us] append6_rest [OF len, of 1 zs 7 ze] ne
      by (simp add: append6_0)
    then show thesis by (rule that(1))
  next
    case (2 l)
    have us: "?us = take zs ?us @ replicate l 0 @ drop ze ?us"
      using 2(2,4) append_take_drop_id [of l "drop zs ?us"] append_take_drop_id [of zs ?us]
      by (simp add: add.commute)
    have "string6 ip = joined (take zs ?us) @ ''::'' @ joined (drop ze ?us)"
    proof (cases "zs = 0")
      case True
      then show ?thesis using s 2 hd [of ze] append6_rest [OF len, of "Suc ze" zs 7 ze]
        by (cases "ze < 8") (auto simp: len append6_0)
    next
      case False
      then obtain m where m: "zs = Suc m" by (cases zs) auto
      have "joined (take zs ?us) = hex (?us ! 0) @ colon_before (take m (drop 1 ?us))"
        using joined_nth [of "take zs ?us"] ne m by (simp add: drop_take)
      with m show ?thesis using s 2 append6_run [OF len, of zs ze 1 7] by (simp add: append6_0)
    qed
    with us 2(1) show thesis by (rule that(2))
  qed
qed

subsection \<open>The parser\<close>

definition small :: "nat list \<Rightarrow> bool" where
  "small us \<longleftrightarrow> (\<forall>u\<in>set us. u < 65536)"

lemma small_simps [simp]:
  "small []" "small (u # us) \<longleftrightarrow> u < 65536 \<and> small us" "small (us @ vs) \<longleftrightarrow> small us \<and> small vs"
  by (auto simp: small_def)

text \<open>One round of the loop, by what follows the group.\<close>

lemma group_last:
  "u < 65536 \<Longrightarrow> groups_loop (Suc k) (hex u) ip e = Some ([], ip @ group_bytes [u], e)"
  using hex_group_hex [of u "[]"] by simp

lemma group_colon:
  "u < 65536 \<Longrightarrow> groups_loop (Suc k) (hex u @ CHR '':'' # hex v @ r) ip e
     = groups_loop k (hex v @ r) (ip @ group_bytes [u]) e"
  using hex_group_hex [of u "CHR '':'' # hex v @ r"] by (cases v rule: hex_Cons) simp

lemma group_run:
  "u < 65536 \<Longrightarrow> groups_loop (Suc k) (hex u @ ''::'' @ s) ip None
     = (if s = [] then Some ([], ip @ group_bytes [u], Some (length (ip @ group_bytes [u])))
        else groups_loop k s (ip @ group_bytes [u]) (Some (length (ip @ group_bytes [u]))))"
  using hex_group_hex [of u "''::'' @ s"] by simp

declare groups_loop.simps [simp del]

lemma groups_colon_after:
  "small us \<Longrightarrow> groups_loop (length us + k) (colon_after us @ hex v @ r) ip e
     = groups_loop k (hex v @ r) (ip @ group_bytes us) e"
proof (induction us arbitrary: ip)
  case (Cons u us)
  obtain w s where "colon_after us @ hex v @ r = hex w @ s" by (cases us) auto
  then show ?case using Cons group_colon [of u "length us + k" w s ip e] by simp
qed simp

lemma butlast_last_small:
  assumes "us \<noteq> []" "small us"
  shows "small (butlast us)" "last us < 65536"
    "group_bytes (butlast us) @ group_bytes [last us] = group_bytes us"
proof -
  have us: "us = butlast us @ [last us]" using assms(1) by simp
  show "small (butlast us)" "last us < 65536" using assms(2) small_simps(3) us by (metis small_simps(2))+
  show "group_bytes (butlast us) @ group_bytes [last us] = group_bytes us"
    by (metis us group_bytes_simps(3))
qed

lemma groups_joined:
  assumes "us \<noteq> []" "small us" "length us \<le> k"
  shows "groups_loop k (joined us) ip e = Some ([], ip @ group_bytes us, e)"
proof -
  note b = butlast_last_small [OF assms(1,2)]
  define m where "m = k - length us"
  have k: "k = length (butlast us) + Suc m" using assms(1,3) by (cases us) (auto simp: m_def)
  show ?thesis
    using groups_colon_after [OF b(1), of "Suc m" "last us" "[]" ip e] group_last [OF b(2)] b(3)
    unfolding k joined_last [OF assms(1)] by simp
qed

lemma groups_joined_run:
  assumes "us \<noteq> []" "small us"
  shows "groups_loop (length us + k) (joined us @ ''::'' @ s) ip None
    = (if s = [] then Some ([], ip @ group_bytes us, Some (length (ip @ group_bytes us)))
       else groups_loop k s (ip @ group_bytes us) (Some (length (ip @ group_bytes us))))"
proof -
  note b = butlast_last_small [OF assms]
  have k: "length us + k = length (butlast us) + Suc k" using assms(1) by (cases us) auto
  have len: "length (ip @ group_bytes us) = length ((ip @ group_bytes (butlast us)) @ group_bytes [last us])"
    by (simp only: append_assoc b(3))
  show ?thesis
    using groups_colon_after [OF b(1), of "Suc k" "last us" "''::'' @ s" ip None]
      group_run [OF b(2), of k s "ip @ group_bytes (butlast us)"]
    unfolding k joined_last [OF assms(1)] len by (simp only: append_assoc b(3))
qed

subsection \<open>The round trip\<close>

lemma joined_set: "c \<in> set (joined us) \<Longrightarrow> c = CHR '':'' \<or> hex_val c \<noteq> None"
  by (cases us) (auto simp: colon_before_def dest: hex_set split: if_splits)

lemma string6_set:
  assumes "length ip = 16"
  shows "c \<in> set (string6 ip) \<Longrightarrow> c = CHR '':'' \<or> hex_val c \<noteq> None" "CHR '':'' \<in> set (string6 ip)"
proof -
  show "c = CHR '':'' \<or> hex_val c \<noteq> None" if c: "c \<in> set (string6 ip)"
    using assms by (cases rule: string6_shape) (use c in \<open>auto dest: joined_set\<close>)
  show "CHR '':'' \<in> set (string6 ip)"
  proof (use assms in \<open>cases rule: string6_shape\<close>)
    case 1
    have "length (groups ip) = 8" using assms by (simp add: length_groups)
    then obtain u v us where "groups ip = u # v # us" by (auto simp: eval_nat_numeral length_Suc_conv)
    with 1 show ?thesis by simp
  qed simp
qed

lemma string6_no_sep:
  assumes "length ip = 16"
  shows "CHR ''.'' \<notin> set (string6 ip)" "CHR ''%'' \<notin> set (string6 ip)" "CHR ''/'' \<notin> set (string6 ip)"
  using string6_set(1) [OF assms] by fastforce+

lemma joined_no_run: "take 2 (joined us @ s) \<noteq> ''::''" if "us \<noteq> []"
proof (cases us)
  case (Cons u vs)
  obtain c cs where "hex u = c # cs" "c \<noteq> CHR '':''" by (rule hex_Cons)
  then show ?thesis using Cons by simp
qed (use that in simp)

lemma parse_no_run:
  assumes "length us = 8" "small us" "CHR ''%'' \<notin> set (joined us)"
  shows "parseIPv6 (joined us) = Some (Addr6 (group_bytes us) [])"
proof -
  have ne: "us \<noteq> []" using assms(1) by auto
  have "groups_loop 8 (joined us) [] None = Some ([], group_bytes us, None)"
    using groups_joined [OF ne assms(2), of 8 "[]" None] assms(1) by simp
  then show ?thesis
    using joined_no_run [OF ne, of "[]"] assms by (simp add: parseIPv6_def Cut_none)
qed

lemma parse_run:
  assumes "length pre + z + length suf = 8" "2 \<le> z" "small pre" "small suf"
    "CHR ''%'' \<notin> set (joined pre @ ''::'' @ joined suf)"
  shows "parseIPv6 (joined pre @ ''::'' @ joined suf)
    = Some (Addr6 (group_bytes (pre @ replicate z 0 @ suf)) [])"
proof (cases "pre = []")
  case True
  show ?thesis
  proof (cases "suf = []")
    case True
    with \<open>pre = []\<close> show ?thesis using assms(1) by (simp add: parseIPv6_def)
  next
    case False
    then have "groups_loop 8 (joined suf) [] (Some 0) = Some ([], group_bytes suf, Some 0)"
      using groups_joined [OF _ assms(4), of 8 "[]" "Some 0"] assms(1) by simp
    moreover have "joined suf \<noteq> []" "16 - 2 * length suf = 2 * z"
      using False assms(1) True by (cases suf; simp)+
    ultimately show ?thesis using True assms by (simp add: parseIPv6_def Cut_none)
  qed
next
  case False
  let ?b = "group_bytes (pre @ suf)"
  have "groups_loop (length pre + (8 - length pre)) (joined pre @ ''::'' @ joined suf) [] None
      = Some ([], ?b, Some (2 * length pre))"
    using groups_joined_run [OF False assms(3), of "8 - length pre" "joined suf" "[]"]
      groups_joined [OF _ assms(4), of "8 - length pre" "group_bytes pre" "Some (2 * length pre)"] assms(1)
    by (cases "suf = []") (simp_all add: joined_Nil_iff)
  then have "groups_loop 8 (joined pre @ ''::'' @ joined suf) [] None = Some ([], ?b, Some (2 * length pre))"
    using assms(1) by simp
  moreover have "16 - (2 * length pre + 2 * length suf) = 2 * z" using assms(1) by linarith
  ultimately show ?thesis
    using joined_no_run [OF False, of "''::'' @ joined suf"] assms
    by (simp add: parseIPv6_def Cut_none)
qed

lemma parse_string6:
  assumes "length ip = 16"
  shows "parseIPv6 (string6 ip) = Some (Addr6 ip [])"
proof -
  have us: "length (groups ip) = 8" "small (groups ip)" "group_bytes (groups ip) = ip"
    using assms groups_small by (auto simp: length_groups groups_bytes small_def)
  from assms show ?thesis
  proof (cases rule: string6_shape)
    case 1
    then show ?thesis using parse_no_run [OF us(1,2)] us(3) string6_no_sep(2) [OF assms] by simp
  next
    case (2 pre z suf)
    then show ?thesis
      using parse_run [of pre z suf] us string6_no_sep(2) [OF assms] by simp
  qed
qed

lemma dropWhile_hit:
  assumes "x \<in> set s" "\<not> P x" "\<And>y. y \<in> set s \<Longrightarrow> \<not> P y \<Longrightarrow> y = x"
  obtains t where "dropWhile P s = x # t"
proof -
  have ne: "dropWhile P s \<noteq> []" using assms(1,2) by (auto simp: dropWhile_eq_Nil_conv)
  then obtain y t where t: "dropWhile P s = y # t" by (cases "dropWhile P s") auto
  then have "\<not> P y" "y \<in> set s" using hd_dropWhile [OF ne] set_dropWhileD [of y P s] by auto
  with assms(3) t that show thesis by blast
qed

lemma ParseAddr_string6:
  assumes "length ip = 16"
  shows "ParseAddr (string6 ip) = Some (Addr6 ip [])"
proof -
  let ?P = "\<lambda>c. c \<notin> {CHR ''.'', CHR '':'', CHR ''%''}"
  have "y = CHR '':''" if y: "y \<in> set (string6 ip)" "\<not> ?P y" for y
    using y string6_no_sep(1,2) [OF assms] by auto
  then obtain t where "dropWhile ?P (string6 ip) = CHR '':'' # t"
    by (elim dropWhile_hit [OF string6_set(2) [OF assms], rotated 2]) simp
  then show ?thesis by (simp add: ParseAddr_def parse_string6 [OF assms])
qed

lemma IPNet_String_v6: "canon 16 k n \<Longrightarrow> IPNet_String n = string6 (IP n) @ ''/'' @ Itoa k"
proof -
  assume n: "canon 16 k n"
  have "IP n \<noteq> []" "Mask n \<noteq> []" using canonD(1,2) [OF n] by auto
  moreover have "to4 (IP n) = []" using n by (simp add: canon_def)
  ultimately show ?thesis using canonD [OF n] unfolding IPNet_String_def networkNumberAndMask_canon [OF n]
    by (simp add: IP_String_def ip_len simpleMaskLength_mask_bytes del: mask_bytes.simps)
qed

lemma ParseCIDR_String_v6:
  assumes n: "canon 16 k n"
  shows "ParseCIDR (IPNet_String n) = Some n"
proof -
  have len: "length (IP n) = 16" "k \<le> 128" "Mask n = mask_bytes 16 k" using n by (auto simp: canon_def)
  then have "CIDRMask (int k) 128 = mask_bytes 16 k" by (simp add: CIDRMask_def)
  moreover have "length (mask_bytes 16 k) = 16" by simp
  moreover have "map2 (AND) (IP n) (mask_bytes 16 k) = IP n"
    using canon_masked_id [OF n] len(3) by simp
  ultimately show ?thesis
    using len string6_no_sep(3) [OF len(1)]
    by (simp add: IPNet_String_v6 [OF n] ParseCIDR_def Let_def Split_hd_tl ParseAddr_string6
        mask_digits_Itoa ip_Mask_same del: mask_bytes.simps)
qed

theorem ParseCIDR_String: "canon l k n \<Longrightarrow> ParseCIDR (IPNet_String n) = Some n"
  using ParseCIDR_String_v4 ParseCIDR_String_v6 by (auto simp: canon_def)

end
