(* ===== verification/AllocatorTheorems.thy ===== *)
theory AllocatorTheorems
  imports SystemTheorems Outcomes IPv6Text
begin

text \<open>
  The theorems on the operations of the allocator (\<open>pkg/ipam/cidr_allocator.go\<close>): start and
  reconciliation, the reservation for a new node, the return of blocks, and what a restart
  remembers of an allocation.
\<close>

subsection \<open>Start\<close>

lemma Start_outcome:
  assumes "ip_family_ok env" "alloc_inv c" "\<not> reconcileReady c" "api_List env w = (Inr nodes, w')"
    "\<forall>n\<in>set nodes. std_cidrs (PodCIDRs n)"
  shows "if \<forall>n\<in>set nodes. nets_fit c 0 (node_nets n)
    then \<exists>c'. Start env True c w = (Inr (), c', w') \<and> reconcileReady c'
      \<and> workers c' = workers c + cidrUpdateWorkers
      \<and> (\<forall>i < length (cidrSets c). used_at c' i = used_at c i \<union> (\<Union>n\<in>set nodes. net_cells c 0 (node_nets n) i))
    else \<exists>e c'. Start env True c w = (Inl e, c', w') \<and> \<not> reconcileReady c' \<and> workers c' = workers c"
proof -
  let ?c = "c\<lparr>startCtx := Some False\<rparr>"
  have inv: "alloc_inv ?c" using assms(2) by simp
  have same: "nets_fit ?c = nets_fit c" "net_cells ?c = net_cells c" "used_at ?c = used_at c"
    by (intro ext, simp add: nets_fit_def net_cells_def cells_at_def used_at_def)+
  obtain r d where d: "reconcileLoop env nodes ?c = (r, d)" by (rule prod.exhaust)
  have sd: "set_step ?c d" by (rule reconcileLoop_step [OF inv d])
  show ?thesis
  proof (cases "\<forall>n\<in>set nodes. nets_fit c 0 (node_nets n)")
    case True
    then have "r = Inr ()" "\<forall>i < length (cidrSets c). used_at d i
        = used_at c i \<union> (\<Union>n\<in>set nodes. net_cells c 0 (node_nets n) i)"
      using reconcileLoop_fits [OF assms(1) inv, of nodes] assms(5) d by (auto simp: same)
    then show ?thesis
      using True d assms(3,4) set_step_fields [OF sd]
      by (simp add: Start_def reconcileState_def used_at_def)
  next
    case False
    then obtain e where "r = Inl e"
      using reconcileLoop_stuck [OF assms(1) inv, of nodes] assms(5) d by (auto simp: same)
    then show ?thesis
      using False d assms(3,4) set_step_fields [OF sd]
      by (auto simp: Start_def reconcileState_def split: go_err.split)
  qed
qed


lemma ex_fit:
  assumes "i < 4"
  shows "nets_fit ex_alloc 0 (node_nets (ex_node nm i))"
proof -
  have "touched ex_set (ex_host i) = {i}"
    using ex_cells [OF assms] by (simp add: cells_of_def split: if_splits)
  then have "in_range ex_set (ex_host i)"
    using touched_in_range [OF ex_set_wf ex_host_canon] by (simp add: ex_set_def ex_cidr_def)
  then show ?thesis by (simp add: ex_alloc_def node_nets_def ex_node_def v4_net_def)
qed




subsection \<open>The reservation for a new node\<close>

lemma ex_started_sets: "alloc_inv ex_started" "used_at ex_started 0 = {0, 1}"
proof -
  have inv: "alloc_inv (ctl ex_system)"
    by (rule holds_allD [OF sys_invD(1) [OF sys_start_inv [OF ex_clients ex_sys_start]]])
  then show "alloc_inv ex_started" by (simp add: ex_system_def)
  have 1: "cset_inv (ex_used 1 1)" "used_set (ex_used 1 1) = {0}"
    using Occupy_any [OF ex_set_inv(1) ex_occupy(1)] cs.occupy_ok [OF ex_set_inv(1) ex_text(2) ex_occupy(1)]
      ex_set_inv(2) ex_cells [of 0] by simp_all
  have "cells_of (ex_used 1 1) (ex_host 1) = {1}"
    using cs.same_cells [of ex_set "ex_used 1 1"] Occupy_any [OF ex_set_inv(1) ex_occupy(1)] ex_cells [of 1]
    by simp
  then show "used_at ex_started 0 = {0, 1}"
    using cs.occupy_ok [OF 1(1) ex_text(2) ex_occupy(2)] 1(2)
    by (simp add: used_at_def ex_started_def insert_commute)
qed

text \<open>A call for a node without CIDRs that reaches the allocation.\<close>

lemma AllocateOrOccupyCIDR_reaches:
  assumes "reconcileReady c" "startCtx c \<noteq> Some True" "PodCIDRs node = []" "Name node \<notin> nodesInProcessing c"
  shows "AllocateOrOccupyCIDR env b (Some node) c
    = allocateAndQueue node (c\<lparr>nodesInProcessing := insert (Name node) (nodesInProcessing c)\<rparr>)"
  using assms
  by (auto simp: AllocateOrOccupyCIDR_def insertNodeToProcessing_def allocateAfterWait_def
      allocateAfterWaitNoCtx_def)

lemma new_node_queued:
  assumes "alloc_inv c" "reconcileReady c" "startCtx c \<noteq> Some True" "PodCIDRs node = []"
    "Name node \<notin> nodesInProcessing c" "length (nodeCIDRUpdateChannel c) < CidrUpdateQueueSize"
    "\<forall>i < length (cidrSets c). has_room c i"
  shows "\<exists>item c'. AllocateOrOccupyCIDR env b (Some node) c = (Returned (Inr ()), c')
    \<and> nodeCIDRUpdateChannel c' = nodeCIDRUpdateChannel c @ [item] \<and> nodeName item = Name node
    \<and> nodesInProcessing c' = insert (Name node) (nodesInProcessing c)
    \<and> length (reservedCIDRs item) = length (cidrSets c)
    \<and> (\<forall>i < length (cidrSets c). fresh_block (cidrSets c ! i) (reservedCIDRs item ! i)
        \<and> used_at c' i = used_at c i \<union> cells_at c i (reservedCIDRs item ! i))
    \<and> mode c' = mode c \<and> primaryIPFamily c' = primaryIPFamily c \<and> tickPeriod c' = tickPeriod c
    \<and> nodeCIDRMaskSizeIPv6 c' = nodeCIDRMaskSizeIPv6 c"
proof -
  let ?c = "c\<lparr>nodesInProcessing := insert (Name node) (nodesInProcessing c)\<rparr>"
  have inv: "alloc_inv ?c" using assms(1) by simp
  have same: "has_room ?c = has_room c" "cells_at ?c = cells_at c"
    by (intro ext, simp add: has_room_def cells_at_def)+
  obtain ns d where a: "allocateLoop 0 (length (cidrSets ?c)) ?c = (Inr ns, d)"
    by (rule allocateLoop_possible [OF inv]) (use assms(7) in \<open>simp add: same\<close>)
  note ok = allocateLoop_ok [OF inv a]
  have sd: "set_step ?c d" by (rule allocateLoop_step [OF inv a])
  let ?item = "\<lparr>reservedCIDRs = ns, nodeName = Name node\<rparr>"
  have "AllocateOrOccupyCIDR env b (Some node) c
      = (Returned (Inr ()), d\<lparr>nodeCIDRUpdateChannel := nodeCIDRUpdateChannel c @ [?item]\<rparr>)"
    using a assms(6) set_step_fields [OF sd]
    unfolding AllocateOrOccupyCIDR_reaches [OF assms(2-5)]
    by (simp add: allocateAndQueue_def queueAfterWait_def)
  moreover have "fresh_block (cidrSets c ! i) (ns ! i) \<and> used_at d i = used_at c i \<union> cells_at c i (ns ! i)"
    if "i < length (cidrSets c)" for i
    using ok that by (simp add: net_cells_def same)
  ultimately show ?thesis
    using ok set_step_fields [OF sd] by (intro exI [of _ ?item] exI) auto
qed

text \<open>
  C7: A new node is served: when the state is reconciled, the context is not done, the node is
  not in processing, every set has a free block and the channel has room, the call succeeds
  and queues one item for the node, with one block of every set that was free; the node is in
  processing from then on, and just these blocks are new in use.
\<close>

theorem new_node_reserved:
  assumes "alloc_inv c" "reconcileReady c" "startCtx c \<noteq> Some True" "PodCIDRs node = []"
    "Name node \<notin> nodesInProcessing c" "length (nodeCIDRUpdateChannel c) < CidrUpdateQueueSize"
    "\<forall>i < length (cidrSets c). has_room c i"
  shows "\<exists>item c'. AllocateOrOccupyCIDR env b (Some node) c = (Returned (Inr ()), c')
    \<and> nodeCIDRUpdateChannel c' = nodeCIDRUpdateChannel c @ [item] \<and> nodeName item = Name node
    \<and> nodesInProcessing c' = insert (Name node) (nodesInProcessing c)
    \<and> length (reservedCIDRs item) = length (cidrSets c)
    \<and> (\<forall>i < length (cidrSets c). fresh_block (cidrSets c ! i) (reservedCIDRs item ! i)
        \<and> used_at c' i = used_at c i \<union> cells_at c i (reservedCIDRs item ! i))"
  using new_node_queued [OF assms, of env b] by blast

theorem new_node_reserved_witness:
  "\<exists>item c'. AllocateOrOccupyCIDR ex_env True (Some (ex_fresh ''c'')) ex_started = (Returned (Inr ()), c')
    \<and> nodeCIDRUpdateChannel c' = [item] \<and> length (reservedCIDRs item) = 1"
proof -
  have room: "\<forall>i < length (cidrSets ex_started). has_room ex_started i"
    using ex_started_sets(2) by (simp add: has_room_def) (simp add: ex_started_def ex_used_def)
  show ?thesis
    using new_node_reserved [OF ex_started_sets(1) _ _ _ _ _ room, of "ex_fresh ''c''" ex_env True]
    by (auto simp: ex_started_def ex_alloc_def ex_fresh_def CidrUpdateQueueSize_def)
qed

text \<open>
  C22: When a set is exhausted the call fails with the message of that set's index, the node is
  out of processing again (so a later event retries), an event is recorded and nothing is
  queued. The blocks taken from the sets before it stay in use although nobody holds them: a
  leak, one block of each earlier set for every such call.
\<close>

theorem exhausted_set_leaks:
  assumes "alloc_inv c" "reconcileReady c" "startCtx c \<noteq> Some True" "PodCIDRs node = []"
    "Name node \<notin> nodesInProcessing c" "j < length (cidrSets c)" "\<not> has_room c j" "\<forall>i < j. has_room c i"
  shows "\<exists>c'. AllocateOrOccupyCIDR env b (Some node) c
      = (Returned (Inl (ErrorfV ''failed to allocate cidr from cluster cidr at idx:%v: %v'' [Itoa j]
          (CidrError ErrCIDRRangeNoCIDRsRemaining))), c')
    \<and> nodeCIDRUpdateChannel c' = nodeCIDRUpdateChannel c \<and> nodesInProcessing c' = nodesInProcessing c
    \<and> recorder c' = RecordNodeStatusChange (recorder c) node ''CIDRNotAvailable''
    \<and> (\<forall>i < j. \<exists>x. x \<notin> used_at c i \<and> used_at c' i = insert x (used_at c i))
    \<and> (\<forall>i \<ge> j. used_at c' i = used_at c i)"
proof -
  let ?c = "c\<lparr>nodesInProcessing := insert (Name node) (nodesInProcessing c)\<rparr>"
  have same: "has_room ?c = has_room c" "used_at ?c = used_at c"
    by (intro ext, simp add: has_room_def)+
  obtain d where d: "allocateLoop 0 (length (cidrSets ?c)) ?c = (Inl (j, ErrCIDRRangeNoCIDRsRemaining), d)"
    "set_step ?c d" "\<forall>i < j. \<exists>x. x \<notin> used_at ?c i \<and> used_at d i = insert x (used_at ?c i)"
    "\<forall>i \<ge> j. used_at d i = used_at ?c i"
    by (rule allocateLoop_first_full [of ?c j]) (use assms(1,6-8) in \<open>simp_all add: same\<close>)
  have "AllocateOrOccupyCIDR env b (Some node) c
      = (Returned (Inl (ErrorfV ''failed to allocate cidr from cluster cidr at idx:%v: %v'' [Itoa j]
          (CidrError ErrCIDRRangeNoCIDRsRemaining))),
         (removeNodeFromProcessing (Name node) d)
           \<lparr>recorder := RecordNodeStatusChange (recorder c) node ''CIDRNotAvailable''\<rparr>)"
    using d(1) set_step_fields [OF d(2)]
    unfolding AllocateOrOccupyCIDR_reaches [OF assms(2-5)]
    by (simp add: allocateAndQueue_def lift_cidr_def)
  then show ?thesis
    using d(3,4) assms(5) set_step_fields [OF d(2)] by (simp add: same)
qed

text \<open>Two sets, the second exhausted.\<close>

definition ex_full :: CidrSet where
  "ex_full = ex_set\<lparr>used := 15, allocatedCIDRs := 4\<rparr>"

lemma ex_full_inv: "cset_inv ex_full" "used_set ex_full = {..<4}"
proof -
  have "fst (snd (Occupy ex_set (Some ex_cidr))) = ex_full" by code_simp
  then show inv: "cset_inv ex_full"
    using Occupy_any [OF ex_set_inv(1)] by (cases "Occupy ex_set (Some ex_cidr)") auto
  have "AllocateNext ex_full = (Inl ErrCIDRRangeNoCIDRsRemaining, ex_full, [])" by code_simp
  then show "used_set ex_full = {..<4}" using cs.alloc_err [OF inv] by (auto simp: ex_full_def)
qed

definition ex_two :: cidrAllocator where
  "ex_two = ex_alloc\<lparr>cidrSets := [ex_set, ex_full], reconcileReady := True\<rparr>"

lemma ex_two_room: "alloc_inv ex_two" "has_room ex_two 0" "\<not> has_room ex_two 1"
  using ex_set_inv ex_full_inv
  by (simp_all add: ex_two_def alloc_inv_def has_room_def used_at_def) (simp add: ex_full_def)

theorem exhausted_set_leaks_witness:
  "\<exists>r c'. AllocateOrOccupyCIDR ex_env True (Some (ex_fresh ''c'')) ex_two = (Returned (Inl r), c')
    \<and> nodesInProcessing c' = {} \<and> (\<exists>x. used_at c' 0 = {x})"
  using exhausted_set_leaks [OF ex_two_room(1) _ _ _ _ _ ex_two_room(3), of "ex_fresh ''c''" ex_env True]
    ex_two_room(2) ex_set_inv(2)
  by (auto simp: ex_two_def ex_alloc_def ex_fresh_def used_at_def)

text \<open>
  C33: Nothing is allocated before the state is reconciled: a call for a node without CIDRs waits,
  or fails because the context is done, and in both cases the sets, the channel and the events
  are untouched; one that failed leaves its node out of processing.
\<close>

theorem no_allocation_before_reconcile:
  assumes "\<not> reconcileReady c" "PodCIDRs node = []" "Name node \<notin> nodesInProcessing c"
    "AllocateOrOccupyCIDR env b (Some node) c = (out, c')"
  shows "cidrSets c' = cidrSets c \<and> nodeCIDRUpdateChannel c' = nodeCIDRUpdateChannel c \<and> recorder c' = recorder c
    \<and> (if startCtx c = Some True
       then out = Returned (Inl context_Canceled) \<and> nodesInProcessing c' = nodesInProcessing c
       else out = WaitReconcile \<and> nodesInProcessing c' = insert (Name node) (nodesInProcessing c))"
  using assms
  by (auto simp: AllocateOrOccupyCIDR_def insertNodeToProcessing_def allocateAfterWait_def
      allocateAfterWaitNoCtx_def Let_def split: if_splits)

theorem no_allocation_before_reconcile_witness:
  "\<exists>c'. AllocateOrOccupyCIDR ex_env True (Some (ex_fresh ''c'')) ex_alloc = (WaitReconcile, c')
    \<and> cidrSets c' = [ex_set]"
proof -
  obtain out c' where a: "AllocateOrOccupyCIDR ex_env True (Some (ex_fresh ''c'')) ex_alloc = (out, c')"
    by (rule prod.exhaust)
  show ?thesis
    using no_allocation_before_reconcile [OF _ _ _ a] a by (auto simp: ex_alloc_def ex_fresh_def)
qed



subsection \<open>Restart\<close>

text \<open>What the loops do to a node without IPv4 networks: nothing.\<close>

lemma no_v4_loops:
  assumes "ip_family_ok env" "std_cidrs ts" "v4_nets ts = []"
  shows "occupyLoop env node idx ts c = (Inr (), c)" "releaseLoop env node idx ts c = (Inr (), c)"
proof -
  have "occupyLoop env node idx ts c = (Inr (), c) \<and> releaseLoop env node idx ts c = (Inr (), c)"
    using assms(2,3)
  proof (induction ts)
    case (Cons t ts)
    from assms(1) Cons.prems(1) show ?case
      by (cases rule: cidr_cases) (use Cons in simp_all)
  qed simp
  then show "occupyLoop env node idx ts c = (Inr (), c)" "releaseLoop env node idx ts c = (Inr (), c)" by simp_all
qed

lemma no_v4_reconcile:
  assumes "ip_family_ok env" "\<forall>n\<in>set nodes. std_cidrs (PodCIDRs n) \<and> node_nets n = []"
  shows "reconcileLoop env nodes c = (Inr (), c)"
  using assms(2)
  by (induction nodes) (simp_all add: occupyCIDRsWithoutRemoval_def node_nets_def no_v4_loops [OF assms(1)])

text \<open>What is allocated depends on the sets alone.\<close>

lemma allocateLoop_sets:
  assumes "cidrSets d = cidrSets c" "allocateLoop idx k c = (r, c')"
  shows "\<exists>d'. allocateLoop idx k d = (r, d')"
  using assms
proof (induction k arbitrary: idx c d r c')
  case (Suc k)
  obtain x c1 where x: "on_set idx AllocateNext c = (x, c1)" by (rule prod.exhaust)
  then obtain d1 where d1: "on_set idx AllocateNext d = (x, d1)" "cidrSets d1 = cidrSets c1"
    using Suc.prems(1) by (auto simp: on_set_def split: if_splits prod.splits)
  obtain r1 c2 where c2: "allocateLoop (idx + 1) k c1 = (r1, c2)" by (rule prod.exhaust)
  then obtain d2 where "allocateLoop (idx + 1) k d1 = (r1, d2)" using Suc.IH [OF d1(2) c2] by blast
  then show ?case
    using Suc.prems(2) x d1(1) c2 by (auto split: sum.splits)
qed simp

text \<open>The blocks of an allocation and their texts, in both address families.\<close>

lemma allocated_texts:
  assumes "alloc_inv c" "allocateLoop 0 (length (cidrSets c)) c = (Inr ns, c')" "n \<in> set ns"
  shows "is_canon n" "ParseCIDR (IPNet_String n) = Some n"
proof -
  show n: "is_canon n" using allocateLoop_ok [OF assms(1,2)] assms(3) by (auto simp: in_set_conv_nth)
  then show "ParseCIDR (IPNet_String n) = Some n" using ParseCIDR_String by (auto simp: is_canon_def)
qed

lemma allocated_length:
  assumes "alloc_inv c" "allocateLoop 0 (length (cidrSets c)) c = (Inr ns, c')"
    "\<forall>s\<in>set (cidrSets c). length (IP (clusterCIDR s)) = len" "n \<in> set ns"
  shows "length (IP n) = len"
proof -
  note ok = allocateLoop_ok [OF assms(1,2)]
  obtain j where j: "j < length (cidrSets c)" "n = ns ! j" using ok assms(4) by (auto simp: in_set_conv_nth)
  then have "cells_at c j n \<noteq> {}" using ok by auto
  then show ?thesis using j(1) assms(3) by (auto simp: cells_at_def cells_of_def split: if_splits)
qed

lemma fits_no_v4:
  assumes "std_cidrs (PodCIDRs node)" "nets_fit c 0 (node_nets node)" "len \<noteq> 4"
    "\<forall>s\<in>set (cidrSets c). length (IP (clusterCIDR s)) = len"
  shows "node_nets node = []"
proof (cases "node_nets node")
  case (Cons m ms)
  then have "length (IP m) = 4" using v4_nets_canon [OF assms(1), of m] by (simp add: node_nets_def)
  moreover have "length (IP m) = len" using Cons assms(2,4) by (simp add: in_range_def)
  ultimately show ?thesis using assms(3) by simp
qed

lemma same_family:
  assumes "list_all2 same_config xs ys" "\<forall>s\<in>set xs. length (IP (clusterCIDR s)) = len"
  shows "\<forall>s\<in>set ys. length (IP (clusterCIDR s)) = len"
proof
  fix s assume "s \<in> set ys"
  then obtain i where i: "i < length xs" "s = ys ! i" "same_config (xs ! i) s"
    using assms(1) by (auto simp: list_all2_conv_all_nth in_set_conv_nth)
  then have "clusterCIDR s = clusterCIDR (xs ! i)" using same_configD(1) by blast
  then show "length (IP (clusterCIDR s)) = len" using i(1) assms(2) by simp
qed

text \<open>
  C20: What a restart remembers of an allocation depends on its family. A reservation was written
  into a node as texts, and another process with the same cluster CIDRs starts and lists the node.
  The texts parse to the reserved blocks. With IPv4 cluster CIDRs the cell of every block, free
  before the allocation, is in use again after the start. With IPv6 cluster CIDRs the start leaves
  the sets as they were, so when it began with the sets of the first allocation the next
  reservation gets the very blocks of the node; and the deletion of the node releases nothing.
\<close>

theorem restart_tracks_ipv4_only:
  assumes "ip_family_ok env" "alloc_inv c" "\<forall>s\<in>set (cidrSets c). length (IP (clusterCIDR s)) = len"
    "allocateLoop 0 (length (cidrSets c)) c = (Inr ns, c')" "PodCIDRs node = cidrsAsString ns"
    "alloc_inv c0" "list_all2 same_config (cidrSets c) (cidrSets c0)" "\<not> reconcileReady c0"
    "api_List env w = (Inr nodes, w')" "node \<in> set nodes" "\<forall>n\<in>set nodes. std_cidrs (PodCIDRs n)"
    "Start env True c0 w = (Inr (), d, w'')"
  shows "map ParseCIDR (PodCIDRs node) = map Some ns
    \<and> (if len = 4
      then \<forall>i < length (cidrSets c). \<exists>x. x \<notin> used_at c i \<and> used_at c' i = insert x (used_at c i) \<and> x \<in> used_at d i
      else cidrSets d = cidrSets c0
        \<and> (cidrSets c0 = cidrSets c \<longrightarrow> (\<exists>d'. allocateLoop 0 (length (cidrSets d)) d = (Inr ns, d')))
        \<and> ReleaseCIDR env (Some node) d = (Inr (), d))"
proof -
  have tx: "map ParseCIDR (PodCIDRs node) = map Some ns"
    using allocated_texts(2) [OF assms(2,4)] by (simp add: assms(5) cidrsAsString_def)
  have fit: "nets_fit c0 0 (node_nets n)" if "n \<in> set nodes" for n
    using Start_outcome [OF assms(1,6,8,9,11)] assms(12) that by (auto split: if_splits)
  show ?thesis
  proof (cases "len = 4")
    case True
    have v4: "\<forall>n\<in>set ns. is_canon n \<and> length (IP n) = 4"
      using allocated_texts(1) [OF assms(2,4)] allocated_length [OF assms(2,4,3)] True by simp
    then have nn: "node_nets node = ns" by (simp add: node_nets_def assms(5) v4_nets_texts(1))
    note ok = allocateLoop_ok [OF assms(2,4)]
    have "\<exists>x. x \<notin> used_at c i \<and> used_at c' i = insert x (used_at c i) \<and> x \<in> used_at d i"
      if i: "i < length (cidrSets c)" for i
    proof -
      obtain x where x: "cells_at c i (ns ! i) = {x}" "x \<notin> used_at c i" using ok i by auto
      have len: "length (cidrSets c0) = length (cidrSets c)" using list_all2_lengthD [OF assms(7)] by simp
      have "same_config (cidrSets c ! i) (cidrSets c0 ! i)"
        using assms(7) i by (simp add: list_all2_conv_all_nth)
      then have "cells_at c0 i (ns ! i) = {x}" using x(1) by (simp add: cells_at_def cs.same_cells)
      then have "x \<in> net_cells c0 0 (node_nets node) i" using ok i by (simp add: nn net_cells_def)
      moreover have "\<forall>i < length (cidrSets c0). used_at d i
          = used_at c0 i \<union> (\<Union>n\<in>set nodes. net_cells c0 0 (node_nets n) i)"
        using Start_outcome [OF assms(1,6,8,9,11)] assms(12) fit by (auto split: if_splits)
      ultimately have "x \<in> used_at d i" using assms(10) i len by auto
      then show ?thesis using x ok i by (auto simp: net_cells_def)
    qed
    then show ?thesis using True tx by simp
  next
    case False
    have none: "\<forall>n\<in>set nodes. std_cidrs (PodCIDRs n) \<and> node_nets n = []"
      using assms(11) fits_no_v4 [OF _ fit False same_family [OF assms(7,3)]] by blast
    obtain e where "reconcileLoop env nodes (c0\<lparr>startCtx := Some False\<rparr>) = (Inr (), e)"
      "d = e\<lparr>reconcileReady := True, workers := workers e + cidrUpdateWorkers\<rparr>"
      using assms(9,12) by (auto elim: Start_ready)
    then have d: "cidrSets d = cidrSets c0" using no_v4_reconcile [OF assms(1) none] by auto
    have "ReleaseCIDR env (Some node) d = (Inr (), d)"
      using none assms(10) no_v4_loops(2) [OF assms(1)] by (simp add: ReleaseCIDR_def node_nets_def)
    moreover have "\<exists>d'. allocateLoop 0 (length (cidrSets d)) d = (Inr ns, d')" if "cidrSets c0 = cidrSets c"
      using allocateLoop_sets [OF _ assms(4), of d] that by (simp add: d)
    ultimately show ?thesis using False tx d by simp
  qed
qed

text \<open>An IPv6 cluster CIDR with sets of nodes of 80 bits.\<close>

definition ex_cidr6 :: IPNet where
  "ex_cidr6 = \<lparr>IP = [0x20, 0x01, 0x0d, 0xb8, 0, 0, 0, 0, 0, 0, 0, 0, 0, 0, 0, 0], Mask = mask_bytes 16 64\<rparr>"

lemma ex_cidr6_canon: "canon 16 64 ex_cidr6" "2 ^ 48 \<le> net_first ex_cidr6"
proof -
  have v: "ip_val (IP ex_cidr6) = 0x20010db8 * 2 ^ 96" by (simp add: ex_cidr6_def)
  have "to4 (IP ex_cidr6) = []" by (simp add: to4_def v4InV6Prefix_def ip_len ex_cidr6_def)
  moreover have "(2::nat) ^ (8 * 16 - 64) dvd 0x20010db8 * 2 ^ 96" by simp
  ultimately show "canon 16 64 ex_cidr6" using v by (simp add: canon_def) (simp add: ex_cidr6_def)
  show "2 ^ 48 \<le> net_first ex_cidr6" by (simp add: net_first_def v)
qed

text \<open>An allocation from one empty set, written into a node, and the start that lists the node.\<close>

lemma ex_restart:
  assumes "cset_inv s" "used_set s = {}"
  obtains ns c' d where "allocateLoop 0 1 (ex_alloc\<lparr>cidrSets := [s]\<rparr>) = (Inr ns, c')"
    "std_cidrs (cidrsAsString ns)"
    "Start ex_env True (ex_alloc\<lparr>cidrSets := [s]\<rparr>) [(ex_fresh ''c'')\<lparr>PodCIDRs := cidrsAsString ns\<rparr>]
      = (Inr (), d, [(ex_fresh ''c'')\<lparr>PodCIDRs := cidrsAsString ns\<rparr>])"
proof -
  let ?c = "ex_alloc\<lparr>cidrSets := [s]\<rparr>"
  have inv: "alloc_inv ?c" using assms(1) by (simp add: alloc_inv_def)
  have "has_room ?c 0" using assms by (simp add: has_room_def used_at_def cset_inv_def)
  then obtain ns c' where a: "allocateLoop 0 (length (cidrSets ?c)) ?c = (Inr ns, c')"
    using allocateLoop_possible [OF inv] by auto
  note ok = allocateLoop_ok [OF inv a]
  then obtain n where n: "ns = [n]" by (cases ns) (auto simp: length_Suc_conv)
  have std: "std_cidrs (cidrsAsString ns)"
    using allocated_texts [OF inv a] by (simp add: std_cidrs_def cidrsAsString_def)
  let ?node = "(ex_fresh ''c'')\<lparr>PodCIDRs := cidrsAsString ns\<rparr>"
  have "in_range s n"
    using cells_at_out [OF inv, of 0 n] ok allocated_texts(1) [OF inv a] n by auto
  then have f: "nets_fit ?c 0 (node_nets ?node)"
    using allocated_texts(2) [OF inv a] n by (simp add: node_nets_def cidrsAsString_def v4_net_def)
  have l: "api_List ex_env [?node] = (Inr [?node], [?node])" by (simp add: ex_env_def)
  have z: "\<not> reconcileReady ?c" by (simp add: ex_alloc_def)
  from Start_outcome [OF ex_family inv z l] std f
  obtain d where "Start ex_env True ?c [?node] = (Inr (), d, [?node])" by auto
  then show thesis using that a std by simp
qed

theorem restart_tracks_ipv4_only_witness:
  "(\<exists>ns c' d. allocateLoop 0 1 ex_alloc = (Inr ns, c')
      \<and> Start ex_env True ex_alloc [(ex_fresh ''c'')\<lparr>PodCIDRs := cidrsAsString ns\<rparr>]
        = (Inr (), d, [(ex_fresh ''c'')\<lparr>PodCIDRs := cidrsAsString ns\<rparr>])
      \<and> (\<exists>x. used_at c' 0 = {x} \<and> x \<in> used_at d 0))
    \<and> (\<exists>s ns c' d d'. NewCIDRSet ex_cidr6 80 False = (Inr s, registerCidrsetMetrics False)
      \<and> allocateLoop 0 1 (ex_alloc\<lparr>cidrSets := [s]\<rparr>) = (Inr ns, c')
      \<and> Start ex_env True (ex_alloc\<lparr>cidrSets := [s]\<rparr>) [(ex_fresh ''c'')\<lparr>PodCIDRs := cidrsAsString ns\<rparr>]
        = (Inr (), d, [(ex_fresh ''c'')\<lparr>PodCIDRs := cidrsAsString ns\<rparr>])
      \<and> allocateLoop 0 1 d = (Inr ns, d'))"
proof (rule conjI, goal_cases)
  case 1
  have c: "ex_alloc\<lparr>cidrSets := [ex_set]\<rparr> = ex_alloc" by (simp add: ex_alloc_def)
  obtain ns c' d where r: "allocateLoop 0 1 ex_alloc = (Inr ns, c')" "std_cidrs (cidrsAsString ns)"
    "Start ex_env True ex_alloc [(ex_fresh ''c'')\<lparr>PodCIDRs := cidrsAsString ns\<rparr>]
      = (Inr (), d, [(ex_fresh ''c'')\<lparr>PodCIDRs := cidrsAsString ns\<rparr>])"
    using ex_restart [OF ex_set_inv] unfolding c by metis
  have "length (cidrSets ex_alloc) = 1" "\<forall>s\<in>set (cidrSets ex_alloc). length (IP (clusterCIDR s)) = 4"
    "\<not> reconcileReady ex_alloc" "used_at ex_alloc 0 = {}"
    using ex_set_inv(2) by (simp_all add: ex_alloc_def used_at_def)
  then have "\<exists>x. used_at c' 0 = {x} \<and> x \<in> used_at d 0"
    using restart_tracks_ipv4_only [OF ex_family ex_alloc_inv(1) _ _ _ ex_alloc_inv(1) _ _ _ _ _ r(3),
        of 4 ns c' "(ex_fresh ''c'')\<lparr>PodCIDRs := cidrsAsString ns\<rparr>"] r(1,2)
    by (simp add: list.rel_refl) (simp add: ex_env_def)
  then show ?case using r(1,3) by blast
next
  case 2
  obtain s where s: "NewCIDRSet ex_cidr6 (int 80) False = (Inr s, registerCidrsetMetrics False)"
    "cset_inv s" "used_set s = {}" "clusterCIDR s = ex_cidr6"
    by (rule NewCIDRSet_wf [OF ex_cidr6_canon(1), of 80 False]) (use ex_cidr6_canon(2) in simp_all)
  let ?c = "ex_alloc\<lparr>cidrSets := [s]\<rparr>"
  obtain ns c' d where r: "allocateLoop 0 1 ?c = (Inr ns, c')" "std_cidrs (cidrsAsString ns)"
    "Start ex_env True ?c [(ex_fresh ''c'')\<lparr>PodCIDRs := cidrsAsString ns\<rparr>]
      = (Inr (), d, [(ex_fresh ''c'')\<lparr>PodCIDRs := cidrsAsString ns\<rparr>])"
    using ex_restart [OF s(2,3)] by metis
  have c: "alloc_inv ?c" "\<forall>x\<in>set (cidrSets ?c). length (IP (clusterCIDR x)) = 16" "\<not> reconcileReady ?c"
    using s(2) canonD(1) [OF ex_cidr6_canon(1)] by (simp_all add: alloc_inv_def s(4)) (simp add: ex_alloc_def)
  have l: "api_List ex_env w = (Inr w, w)" for w by (simp add: ex_env_def)
  have "cidrSets d = [s] \<and> (\<exists>d'. allocateLoop 0 (length (cidrSets d)) d = (Inr ns, d'))"
    using restart_tracks_ipv4_only [OF ex_family c(1,2) _ _ c(1) _ c(3) _ _ _ r(3),
        of ns c' "(ex_fresh ''c'')\<lparr>PodCIDRs := cidrsAsString ns\<rparr>"] r(1,2)
    by (auto simp: list.rel_refl l simp del: allocateLoop.simps)
  then show ?case using s(1) r(1,3) by auto
qed

end
