(* ===== verification/UpdateTheorems.thy ===== *)
theory UpdateTheorems
  imports AllocatorTheorems
begin

text \<open>
  The theorems on the update of a node by a worker: what is written, the number of attempts,
  what a failure leaves behind, the IPv6 prefix and its mask, and the patch itself.
\<close>

subsection \<open>Occupying the CIDRs of a node, on every branch\<close>

text \<open>The first \<open>k\<close> of the networks \<open>ns\<close> were occupied, and what stopped the loop there.\<close>

definition stopped_by :: "cidrAllocator \<Rightarrow> Node \<Rightarrow> nat \<Rightarrow> IPNet list \<Rightarrow> go_err + unit" where
  "stopped_by c node idx ns = (case ns of [] \<Rightarrow> Inr ()
     | n # _ \<Rightarrow> if length (cidrSets c) \<le> idx then Inl (GoPanic IndexOutOfRange)
         else Inl (ErrorfV ''failed to mark cidr[%v] at idx [%v] as occupied for node: %v: %v''
           [IPNet_String n, Itoa idx, Name node]
           (CidrError (ErrOutOfClusterRange n (clusterCIDR (cidrSets c ! idx))))))"

definition occupied_until ::
  "cidrAllocator \<Rightarrow> Node \<Rightarrow> nat \<Rightarrow> IPNet list \<Rightarrow> nat \<Rightarrow> go_err + unit \<Rightarrow> cidrAllocator \<Rightarrow> bool" where
  "occupied_until c node idx ns k r c' \<longleftrightarrow> k \<le> length ns \<and> nets_fit c idx (take k ns)
     \<and> (\<forall>i < length (cidrSets c). used_at c' i = used_at c i \<union> net_cells c idx (take k ns) i)
     \<and> r = stopped_by c node (idx + k) (drop k ns)
     \<and> (k < length ns \<longrightarrow> \<not> nets_fit c (idx + k) [ns ! k])"

lemma stopped_by_step:
  assumes "set_step c d"
  shows "stopped_by d node idx ns = stopped_by c node idx ns"
proof (cases "idx < length (cidrSets c)")
  case True
  then show ?thesis
    using same_configD(1) [OF set_step_same [OF assms True]] set_step_fields(12) [OF assms]
    by (simp add: stopped_by_def split: list.split)
qed (simp add: stopped_by_def set_step_fields(12) [OF assms] split: list.split)

lemma occupied_until_Suc:
  assumes d: "set_step c d" "nets_fit c idx [n]"
    "\<And>i. used_at d i = used_at c i \<union> (if i = idx then cells_at c idx n else {})"
    and k: "occupied_until d node (Suc idx) ns k r c'"
  shows "occupied_until c node idx (n # ns) (Suc k) r c'"
  using k d(2,3) unfolding occupied_until_def
  by (auto simp: nets_fit_step [OF d(1)] stopped_by_step [OF d(1)] net_cells_step [OF d(1)]
      step_in_range [OF d(1)] set_step_fields(12) [OF d(1)])

lemma occupied_until_0:
  assumes "\<not> nets_fit c idx [n]" "r = stopped_by c node idx (n # ns)"
  shows "occupied_until c node idx (n # ns) 0 r c"
  using assms by (simp add: occupied_until_def)

lemma occupyLoop_outcome:
  assumes "ip_family_ok env" "std_cidrs ts" "alloc_inv c" "occupyLoop env node idx ts c = (r, c')"
  shows "\<exists>k. occupied_until c node idx (v4_nets ts) k r c'"
  using assms(2-4)
proof (induction ts arbitrary: idx c)
  case Nil
  then show ?case by (simp add: occupied_until_def stopped_by_def)
next
  case (Cons t ts)
  from assms(1) Cons.prems(1) show ?case
  proof (cases rule: cidr_cases)
    case (v6 n)
    then have "occupyLoop env node idx ts c = (r, c')" "std_cidrs ts" using Cons.prems by simp_all
    then show ?thesis unfolding v6(3) by (intro Cons.IH [OF _ Cons.prems(2)])
  next
    case (v4 n)
    from Cons.prems(2) v4(3) show ?thesis
    proof (cases rule: on_set_occupy_cases [where idx = idx])
      case panic
      then have "r = stopped_by c node idx (n # v4_nets ts)" "c' = c"
        using v4 Cons.prems(3) by (auto simp: lift_cidr_def stopped_by_def)
      then show ?thesis
        using panic(1) unfolding v4(4) \<open>c' = c\<close> by (intro exI [where x = 0], intro occupied_until_0) simp_all
    next
      case out
      then have "r = stopped_by c node idx (n # v4_nets ts)" "c' = c"
        using v4 Cons.prems(3) by (auto simp: lift_cidr_def stopped_by_def)
      then show ?thesis
        using out(2) unfolding v4(4) \<open>c' = c\<close> by (intro exI [where x = 0], intro occupied_until_0) simp_all
    next
      case (ok d)
      have "occupyLoop env node (Suc idx) ts d = (r, c')" using Cons.prems(3) v4 ok(3) by simp
      then obtain k where k: "occupied_until d node (Suc idx) (v4_nets ts) k r c'"
        using Cons.IH [OF _ set_step_inv [OF ok(4)]] Cons.prems(1) by auto
      have "nets_fit c idx [n]" using ok(1,2) by simp
      then show ?thesis unfolding v4(4) using occupied_until_Suc [OF ok(4) _ ok(5) k] by blast
    qed
  qed
qed

text \<open>A text that does not parse ends the loop, after what the texts before it occupied.\<close>

lemma occupyLoop_unparsed:
  assumes "ParseCIDR t = None"
  shows "occupyLoop env node idx (ts @ t # us) c = (case occupyLoop env node idx ts c of
      (Inl e, c') \<Rightarrow> (Inl e, c')
    | (Inr _, c') \<Rightarrow> (Inl (Errorf ''failed to parse node %s, CIDR %s'' [Name node, PodCIDR node]), c'))"
  by (induction ts arbitrary: idx c) (auto simp: assms split: option.split prod.split sum.split)

text \<open>The texts before the first that does not parse, and the IPv4 networks among them.\<close>

definition parsed_cidrs :: "Node \<Rightarrow> string list" where
  "parsed_cidrs node = takeWhile (\<lambda>t. ParseCIDR t \<noteq> None) (PodCIDRs node)"

definition parsed_nets :: "Node \<Rightarrow> IPNet list" where
  "parsed_nets node = v4_nets (parsed_cidrs node)"

lemma parsed_cidrs_cases:
  obtains (all) "parsed_cidrs node = PodCIDRs node" "\<forall>t\<in>set (PodCIDRs node). ParseCIDR t \<noteq> None"
  | (stop) t us where "PodCIDRs node = parsed_cidrs node @ t # us" "ParseCIDR t = None"
proof (cases "dropWhile (\<lambda>t. ParseCIDR t \<noteq> None) (PodCIDRs node)")
  case Nil
  then show thesis using all by (simp add: parsed_cidrs_def dropWhile_eq_Nil_conv takeWhile_eq_all_conv)
next
  case (Cons t us)
  then have "ParseCIDR t = None" by (simp add: dropWhile_eq_Cons_conv)
  moreover have "PodCIDRs node = parsed_cidrs node @ t # us"
    unfolding parsed_cidrs_def Cons [symmetric] by (rule takeWhile_dropWhile_id [symmetric])
  ultimately show thesis using stop by blast
qed

lemma parsed_cidrs_std:
  assumes "\<forall>t\<in>set (PodCIDRs node). \<forall>n. ParseCIDR t = Some n \<longrightarrow> \<not> mapped n"
  shows "std_cidrs (parsed_cidrs node)"
  using assms unfolding std_cidrs_iff parsed_cidrs_def by (auto dest!: set_takeWhileD)

lemma occupyCIDRsWithoutRemoval_loop:
  "occupyCIDRsWithoutRemoval env node c = occupyLoop env node 0 (PodCIDRs node) c"
  by (simp add: occupyCIDRsWithoutRemoval_def)

lemma occupy_prefix:
  obtains r0 where "occupyLoop env node 0 (parsed_cidrs node) c = (r0, snd (occupyCIDRsWithoutRemoval env node c))"
    "fst (occupyCIDRsWithoutRemoval env node c) = (if r0 = Inr () \<and> (\<exists>t\<in>set (PodCIDRs node). ParseCIDR t = None)
      then Inl (Errorf ''failed to parse node %s, CIDR %s'' [Name node, PodCIDR node]) else r0)"
proof -
  obtain r0 d where o: "occupyLoop env node 0 (parsed_cidrs node) c = (r0, d)" by (rule prod.exhaust)
  show thesis
  proof (cases node rule: parsed_cidrs_cases)
    case all
    then have "occupyCIDRsWithoutRemoval env node c = (r0, d)"
      using o unfolding occupyCIDRsWithoutRemoval_loop by simp
    then show thesis using that o all(2) by simp
  next
    case (stop t us)
    have "\<exists>t\<in>set (PodCIDRs node). ParseCIDR t = None" unfolding stop(1) using stop(2) by simp
    then show thesis
      using that [of r0] o occupyLoop_unparsed [OF stop(2), of env node 0 "parsed_cidrs node" us c]
      unfolding occupyCIDRsWithoutRemoval_loop stop(1) [symmetric]
      by (cases r0) simp_all
  qed
qed

text \<open>
  C32: Occupying the CIDRs of a node, on every branch: the IPv4 CIDRs are occupied in order, each
  in the set of its position, up to the first that does not fit or does not parse. If all texts
  parse and all networks fit the result is success; if a text does not parse and the networks
  before it fit, the result is the error that names the node; if the node has more IPv4 CIDRs
  than there are sets the index panics; if a CIDR is out of the range of its set the result is
  the error that names it. What was occupied before the failure stays occupied. The CIDRs are any
  texts, but none of an IPv4-mapped IPv6 network.
\<close>

theorem occupy_outcome:
  assumes "ip_family_ok env" "\<forall>t\<in>set (PodCIDRs node). \<forall>n. ParseCIDR t = Some n \<longrightarrow> \<not> mapped n"
    "alloc_inv c" "occupyCIDRsWithoutRemoval env node c = (r, c')"
  shows "\<exists>k \<le> length (parsed_nets node).
      (\<forall>j < k. j < length (cidrSets c) \<and> in_range (cidrSets c ! j) (parsed_nets node ! j))
    \<and> (\<forall>i < length (cidrSets c). used_at c' i
          = used_at c i \<union> (if i < k then cells_at c i (parsed_nets node ! i) else {}))
    \<and> r = (if k = length (parsed_nets node)
          then if \<forall>t\<in>set (PodCIDRs node). ParseCIDR t \<noteq> None then Inr ()
            else Inl (Errorf ''failed to parse node %s, CIDR %s'' [Name node, PodCIDR node])
        else if length (cidrSets c) \<le> k then Inl (GoPanic IndexOutOfRange)
        else Inl (ErrorfV ''failed to mark cidr[%v] at idx [%v] as occupied for node: %v: %v''
          [IPNet_String (parsed_nets node ! k), Itoa k, Name node]
          (CidrError (ErrOutOfClusterRange (parsed_nets node ! k) (clusterCIDR (cidrSets c ! k))))))
    \<and> (k < length (parsed_nets node) \<and> k < length (cidrSets c) \<longrightarrow> \<not> in_range (cidrSets c ! k) (parsed_nets node ! k))"
proof -
  let ?ns = "parsed_nets node"
  obtain r0 where o: "occupyLoop env node 0 (parsed_cidrs node) c = (r0, c')"
    "r = (if r0 = Inr () \<and> (\<exists>t\<in>set (PodCIDRs node). ParseCIDR t = None)
      then Inl (Errorf ''failed to parse node %s, CIDR %s'' [Name node, PodCIDR node]) else r0)"
    using occupy_prefix [of env node c] assms(4) by auto
  obtain k where k: "k \<le> length ?ns" "nets_fit c 0 (take k ?ns)"
    "\<forall>i < length (cidrSets c). used_at c' i = used_at c i \<union> net_cells c 0 (take k ?ns) i"
    "r0 = stopped_by c node k (drop k ?ns)" "k < length ?ns \<longrightarrow> \<not> nets_fit c k [?ns ! k]"
    using occupyLoop_outcome [OF assms(1) parsed_cidrs_std [OF assms(2)] assms(3) o(1)]
    by (auto simp: occupied_until_def parsed_nets_def)
  have 1: "\<forall>j < k. j < length (cidrSets c) \<and> in_range (cidrSets c ! j) (?ns ! j)"
    using k(1,2) by (fastforce simp: nets_fit_def)
  have 2: "net_cells c 0 (take k ?ns) i = (if i < k then cells_at c i (?ns ! i) else {})" for i
    using k(1) by (simp add: net_cells_def)
  have "drop k ?ns = ?ns ! k # drop (Suc k) ?ns" if "k < length ?ns"
    using that by (simp add: Cons_nth_drop_Suc)
  then have "r0 = (if k = length ?ns then Inr ()
        else if length (cidrSets c) \<le> k then Inl (GoPanic IndexOutOfRange)
        else Inl (ErrorfV ''failed to mark cidr[%v] at idx [%v] as occupied for node: %v: %v''
          [IPNet_String (?ns ! k), Itoa k, Name node]
          (CidrError (ErrOutOfClusterRange (?ns ! k) (clusterCIDR (cidrSets c ! k))))))"
    using k(1,4) by (cases "k = length ?ns") (simp_all add: stopped_by_def)
  then show ?thesis using k(1,3,5) 1 o(2) unfolding 2 by (intro exI [of _ k]) auto
qed

lemma ex_in_range: "in_range ex_set (ex_host 0)"
  using ex_fit [of 0 "''a''"] by (simp add: ex_alloc_def)

lemma ex_host_parses: "ParseCIDR (IPNet_String (ex_host i)) = Some n \<Longrightarrow> \<not> mapped n"
  using ex_node_nets(2) [of _ i] unfolding std_cidrs_iff by (auto simp: ex_node_def)

theorem occupy_outcome_witness:
  "(\<exists>c'. occupyCIDRsWithoutRemoval ex_env ((ex_node ''a'' 0)\<lparr>PodCIDRs := map (IPNet_String \<circ> ex_host) [0, 1]\<rparr>) ex_alloc
      = (Inl (GoPanic IndexOutOfRange), c') \<and> used_at c' 0 = {0})
    \<and> (\<exists>c'. occupyCIDRsWithoutRemoval ex_env ((ex_node ''a'' 0)\<lparr>PodCIDRs := [IPNet_String (ex_host 0), ''x'']\<rparr>) ex_alloc
      = (Inl (Errorf ''failed to parse node %s, CIDR %s'' [''a'', PodCIDR (ex_node ''a'' 0)]), c') \<and> used_at c' 0 = {0})"
proof
  let ?n = "(ex_node ''a'' 0)\<lparr>PodCIDRs := map (IPNet_String \<circ> ex_host) [0, 1]\<rparr>"
  have n: "parsed_nets ?n = [ex_host 0, ex_host 1]" "\<forall>t\<in>set (PodCIDRs ?n). ParseCIDR t \<noteq> None"
    by (simp_all add: parsed_nets_def parsed_cidrs_def v4_net_def)
  have m: "\<forall>t\<in>set (PodCIDRs ?n). \<forall>n. ParseCIDR t = Some n \<longrightarrow> \<not> mapped n" using ex_host_parses by auto
  obtain r c' where o: "occupyCIDRsWithoutRemoval ex_env ?n ex_alloc = (r, c')" by (rule prod.exhaust)
  have sets: "cidrSets ex_alloc = [ex_set]" by (simp add: ex_alloc_def)
  show "\<exists>c'. occupyCIDRsWithoutRemoval ex_env ?n ex_alloc = (Inl (GoPanic IndexOutOfRange), c') \<and> used_at c' 0 = {0}"
  proof (rule exE [OF occupy_outcome [OF ex_family m ex_alloc_inv(1) o, unfolded n(1) sets]], goal_cases)
    case (1 k)
    then have "k \<noteq> 0" using ex_in_range by auto
    moreover have "\<forall>j < k. j < length [ex_set]" using 1 by blast
    then have "\<not> 1 < k" by (auto dest: spec [of _ "1 :: nat"])
    ultimately have "k = 1" by linarith
    then show ?thesis
      using o 1 ex_set_inv(2) by (simp add: used_at_def cells_at_def sets ex_cells)
  qed
next
  let ?n = "(ex_node ''a'' 0)\<lparr>PodCIDRs := [IPNet_String (ex_host 0), ''x'']\<rparr>"
  have x: "ParseCIDR ''x'' = None" by code_simp
  then have n: "parsed_nets ?n = [ex_host 0]" "\<exists>t\<in>set (PodCIDRs ?n). ParseCIDR t = None"
    by (simp_all add: parsed_nets_def parsed_cidrs_def v4_net_def)
  have m: "\<forall>t\<in>set (PodCIDRs ?n). \<forall>n. ParseCIDR t = Some n \<longrightarrow> \<not> mapped n" using ex_host_parses x by auto
  obtain r c' where o: "occupyCIDRsWithoutRemoval ex_env ?n ex_alloc = (r, c')" by (rule prod.exhaust)
  have sets: "cidrSets ex_alloc = [ex_set]" by (simp add: ex_alloc_def)
  show "\<exists>c'. occupyCIDRsWithoutRemoval ex_env ?n ex_alloc
      = (Inl (Errorf ''failed to parse node %s, CIDR %s'' [''a'', PodCIDR (ex_node ''a'' 0)]), c') \<and> used_at c' 0 = {0}"
  proof (rule exE [OF occupy_outcome [OF ex_family m ex_alloc_inv(1) o, unfolded n(1) sets]], goal_cases)
    case (1 k)
    then have "k \<noteq> 0" using ex_in_range by auto
    then have "k = 1" using 1 by simp
    then show ?thesis
      using o 1 n(2) ex_set_inv(2) by (simp add: used_at_def cells_at_def sets ex_cells) (simp add: ex_node_def)
  qed
qed

subsection \<open>The number of attempts\<close>

text \<open>The clients with a counter of the patch requests as part of the world.\<close>

definition counting :: "'w api \<Rightarrow> (nat \<times> 'w) api" where
  "counting env = \<lparr>
     api_Get = (\<lambda>n (k, w). map_prod id (Pair k) (api_Get env n w)),
     api_List = (\<lambda>(k, w). map_prod id (Pair k) (api_List env w)),
     api_Patch = (\<lambda>n j (k, w). map_prod id (Pair (Suc k)) (api_Patch env n j w)),
     api_DescribeNetworkInterfaces = (\<lambda>f (k, w). map_prod id (Pair k) (api_DescribeNetworkInterfaces env f w)),
     api_IsServerTimeout = api_IsServerTimeout env,
     api_IsIPv6CIDR = api_IsIPv6CIDR env,
     api_authority_ok = api_authority_ok env\<rparr>"

lemma counting_patch:
  "\<exists>m \<le> 1. PatchNodePodCIDRs (api_Patch (counting env)) (k, w) node cs md fam
    = map_prod id (map_prod (Pair (k + m)) id) (PatchNodePodCIDRs (api_Patch env) w node cs md fam)"
proof (cases "order_cidrs cs md fam")
  case Nil
  then show ?thesis by (intro exI [of _ 0]) (simp add: PatchNodePodCIDRs_def)
next
  case (Cons c0 cs')
  then show ?thesis
    by (intro exI [of _ 1])
      (simp add: PatchNodePodCIDRs_def counting_def Let_def split: prod.split option.split)
qed

lemma patchLoop_next:
  assumes "PatchNodePodCIDRs (api_Patch env) w node cs (mode c) (primaryIPFamily c) = (Inl e, w', cs')"
    "\<forall>p. e \<noteq> GoPanic p"
  shows "patchLoop env node c (Suc n) err cs w = patchLoop env node c n (Some e) cs' w'"
  using assms by (cases e) auto

lemma counting_patchLoop:
  "\<exists>m \<le> n. patchLoop (counting env) node c n err cs (k, w)
    = map_prod id (Pair (k + m)) (patchLoop env node c n err cs w)"
proof (induction n arbitrary: err cs k w)
  case (Suc n)
  obtain r w1 cs1 where p: "PatchNodePodCIDRs (api_Patch env) w node cs (mode c) (primaryIPFamily c) = (r, w1, cs1)"
    by (rule prod_cases3)
  obtain m where m: "m \<le> 1" "PatchNodePodCIDRs (api_Patch (counting env)) (k, w) node cs (mode c) (primaryIPFamily c)
      = (r, (k + m, w1), cs1)"
    using counting_patch [of env k w node cs "mode c" "primaryIPFamily c"] p by auto
  show ?case
  proof (cases "\<exists>e. r = Inl e \<and> (\<forall>q. e \<noteq> GoPanic q)")
    case True
    then obtain e where e: "r = Inl e" "\<forall>q. e \<noteq> GoPanic q" by blast
    obtain m' where m': "m' \<le> n" "patchLoop (counting env) node c n (Some e) cs1 (k + m, w1)
        = map_prod id (Pair (k + m + m')) (patchLoop env node c n (Some e) cs1 w1)"
      using Suc.IH by blast
    show ?thesis
      using m(1) m' unfolding patchLoop_next [OF p [unfolded e(1)] e(2)]
        patchLoop_next [OF m(2) [unfolded e(1)] e(2)]
      by (intro exI [of _ "m + m'"]) (simp add: add.assoc id_def)
  next
    case False
    then show ?thesis
      using m(1) by (intro exI [of _ m]) (auto simp: p m(2) split: sum.split go_err.split)
  qed
qed simp

lemma counting_fetch:
  "fetchIPv6Address (counting env) node (k, w) = map_prod id (Pair k) (fetchIPv6Address env node w)"
  by (auto simp: fetchIPv6Address_def counting_def split: option.split list.split prod.split sum.split)

lemma counting_nodeCIDRs:
  "nodeCIDRs (counting env) node cs c (k, w) = map_prod id (Pair k) (nodeCIDRs env node cs c w)"
  by (auto simp: nodeCIDRs_def counting_fetch split: prod.split sum.split)

lemma counting_giveUp: "giveUp (counting env) = giveUp env"
  by (intro ext) (simp add: giveUp_def counting_def)

lemma counting_updateNode:
  "\<exists>m \<le> cidrUpdateRetries. updateNode (counting env) item node c (k, w)
    = map_prod id (map_prod id (Pair (k + m))) (updateNode env item node c w)"
proof -
  let ?cs = "cidrsAsString (reservedCIDRs item)"
  obtain x w1 where n: "nodeCIDRs env node ?cs c w = (x, w1)" by (rule prod.exhaust)
  have n': "nodeCIDRs (counting env) node ?cs c (k, w) = (x, (k, w1))" by (simp add: counting_nodeCIDRs n)
  show ?thesis
  proof (cases "PodCIDRs node = [] \<and> PodCIDRs node \<noteq> ?cs \<and> (\<exists>ts. x = Inr ts)")
    case True
    then obtain ts where ts: "x = Inr ts" by blast
    obtain m where m: "m \<le> cidrUpdateRetries"
      "patchLoop (counting env) node c cidrUpdateRetries None ts (k, w1)
        = map_prod id (Pair (k + m)) (patchLoop env node c cidrUpdateRetries None ts w1)"
      using counting_patchLoop [of cidrUpdateRetries env node c None ts k w1] by blast
    show ?thesis
      using True m by (intro exI [of _ m])
        (auto simp: updateNode_def Let_def n n' ts counting_giveUp split: prod.split option.split go_err.split)
  next
    case False
    then show ?thesis
      by (intro exI [of _ 0])
        (auto simp: updateNode_def Let_def n n' split: prod.split sum.split)
  qed
qed

text \<open>
  C30: The number of patch requests is bounded: whatever the clients answer, one update sends at
  most \<open>cidrUpdateRetries\<close> of them, and it terminates with the result it has without the
  counter.
\<close>

theorem bounded_attempts:
  "\<exists>m \<le> 3. updateCIDRsAllocation (counting env) item c (k, w)
    = map_prod id (map_prod id (Pair (k + m))) (updateCIDRsAllocation env item c w)"
proof -
  obtain r w1 where g: "api_Get env (nodeName item) w = (r, w1)" by (rule prod.exhaust)
  then have g': "api_Get (counting env) (nodeName item) (k, w) = (r, (k, w1))" by (simp add: counting_def)
  show ?thesis
  proof (cases "0 < tickPeriod c \<and> (\<exists>node. r = Inr node)")
    case True
    then obtain node where "r = Inr node" by blast
    then show ?thesis
      using counting_updateNode [of env item node c k w1] True
      by (auto simp: updateCIDRsAllocation_def g g' cidrUpdateRetries_def)
  next
    case False
    then show ?thesis
      by (intro exI [of _ 0]) (auto simp: updateCIDRsAllocation_def g g' split: sum.split)
  qed
qed

subsection \<open>What an update writes\<close>

lemma patchLoop_exact:
  assumes api: "api_contract env cluster" and t: "texts_for (mode c) ns ts" and md: "mode c \<noteq> DualStack"
  shows "patchLoop env node c k (Some e0) ts w = (None, w') \<or> 0 < k \<and> patchLoop env node c k None ts w = (None, w')
    \<Longrightarrow> Name node \<in> fst ` set (view (cluster w)) \<and> view (cluster w') = set_cidrs (Name node) ts (view (cluster w))"
proof (induction k arbitrary: w e0)
  case (Suc k)
  have o: "order_cidrs ts (mode c) (primaryIPFamily c) = ts" using md by (simp add: order_cidrs_def DualStack_def)
  have names: "fst ` set (set_cidrs n us v) = fst ` set v" for n us v
    by (metis fst_set_cidrs list.set_map)
  obtain r w1 ts1 where p: "PatchNodePodCIDRs (api_Patch env) w node ts (mode c) (primaryIPFamily c) = (r, w1, ts1)"
    by (rule prod_cases3)
  note cs = PatchNodePodCIDRs_cases [OF api t p, unfolded o]
  show ?case
  proof (cases r)
    case (Inr u)
    then have "w' = w1" using Suc.prems p by auto
    then show ?thesis using cs(1) cs(2) [OF Inr] by (auto simp: view_def image_image)
  next
    case (Inl e)
    then have "patchLoop env node c k (Some e) ts w1 = (None, w')"
      using Suc.prems p cs(1) cs(3) [OF Inl] by auto
    then have "Name node \<in> fst ` set (view (cluster w1))"
      "view (cluster w') = set_cidrs (Name node) ts (view (cluster w1))"
      using Suc.IH by blast+
    moreover have v: "view (cluster w1) = view (cluster w) \<or> view (cluster w1) = set_cidrs (Name node) ts (view (cluster w))"
      using cs(1) cs(3) [OF Inl] by simp
    then have "fst ` set (view (cluster w1)) = fst ` set (view (cluster w))" by (metis names)
    ultimately show ?thesis using v by auto
  qed
qed auto

lemma giveUp_fails: "giveUp env node item e c = (r, d) \<Longrightarrow> \<exists>e'. r = Inl e'"
  by (auto simp: giveUp_def Let_def split: if_splits prod.splits sum.splits)

lemma update_writes_texts:
  assumes "api_contract env cluster" "mode c \<noteq> DualStack" "mode c \<noteq> IPv6"
    "\<forall>n\<in>set (reservedCIDRs item). is_canon n \<and> length (IP n) = 4" "reservedCIDRs item \<noteq> []"
    "Name node = nodeName item" "PodCIDRs node = []"
    "updateNode env item node c w = (Inr (), c', w')"
  shows "nodeName item \<in> Name ` set (cluster w) \<and> c' = removeNodeFromProcessing (nodeName item) c
    \<and> map (\<lambda>n. (Name n, PodCIDRs n)) (cluster w') = map (\<lambda>n. (Name n,
        if Name n = nodeName item then cidrsAsString (reservedCIDRs item) else PodCIDRs n)) (cluster w)"
proof -
  let ?ts = "cidrsAsString (reservedCIDRs item)"
  have ne: "?ts \<noteq> []" using assms(5) by (simp add: cidrsAsString_def)
  obtain err w1 where p: "patchLoop env node c cidrUpdateRetries None ?ts w = (err, w1)" by (rule prod.exhaust)
  have md: "nodeCIDRs env node ?ts c w = (Inr ?ts, w)" using assms(2,3) by (simp add: nodeCIDRs_def)
  have "err = None" "w1 = w'" and c': "c' = removeNodeFromProcessing (nodeName item) c"
    using assms(7,8) ne [symmetric] p md
    by (auto simp: updateNode_def Let_def dest: giveUp_fails split: option.splits go_err.splits prod.splits)
  then have p: "patchLoop env node c cidrUpdateRetries None ?ts w = (None, w')" using p by simp
  have "texts_for (mode c) (reservedCIDRs item) ?ts"
    using v4_nets_texts [OF assms(4)] ne assms(2) by (simp add: texts_for_def)
  from patchLoop_exact [OF assms(1) this assms(2), of node cidrUpdateRetries undefined w w'] p
  have "nodeName item \<in> fst ` set (view (cluster w))"
    "view (cluster w') = set_cidrs (nodeName item) ?ts (view (cluster w))"
    by (simp_all add: cidrUpdateRetries_def assms(6))
  then show ?thesis using c' by (auto simp: view_def set_cidrs_def image_image)
qed

text \<open>
  C6: What an IPv4 update that succeeds has done, on each of its three branches; on all of them the
  node is out of processing. If the node it read had no CIDRs, the reservation was written: the
  node exists in the cluster and has exactly the texts of the reserved blocks, in the order of the
  sets, no other node changed its CIDRs, and all blocks are kept. If the node already had exactly
  these texts nothing was written and all blocks are kept. If it had other CIDRs nothing was
  written and the reserved blocks, and no others, are free again.
\<close>

theorem update_writes_reservation:
  assumes "api_contract env cluster" "alloc_inv c" "mode c \<noteq> DualStack" "mode c \<noteq> IPv6"
    "\<forall>n\<in>set (reservedCIDRs item). is_canon n \<and> length (IP n) = 4" "reservedCIDRs item \<noteq> []"
    "length (reservedCIDRs item) \<le> length (cidrSets c)" "Name node = nodeName item"
    "updateNode env item node c w = (Inr (), c', w')"
  shows "nodesInProcessing c' = nodesInProcessing c - {nodeName item}
    \<and> (if PodCIDRs node = [] then
        nodeName item \<in> Name ` set (cluster w) \<and> c' = removeNodeFromProcessing (nodeName item) c
        \<and> map (\<lambda>n. (Name n, PodCIDRs n)) (cluster w') = map (\<lambda>n. (Name n,
            if Name n = nodeName item then cidrsAsString (reservedCIDRs item) else PodCIDRs n)) (cluster w)
      else w' = w
        \<and> (\<forall>i < length (cidrSets c). used_at c' i = used_at c i -
            (if PodCIDRs node \<noteq> cidrsAsString (reservedCIDRs item) \<and> i < length (reservedCIDRs item)
             then cells_at c i (reservedCIDRs item ! i) else {})))"
proof -
  obtain d where d: "releaseReserved 0 (reservedCIDRs item) c = (Inr (), d)" "set_step c d"
    "\<forall>i < length (cidrSets c). used_at d i = used_at c i - net_cells c 0 (reservedCIDRs item) i"
    using releaseReserved_total [OF assms(2), of "reservedCIDRs item" 0] assms(5,7) by auto
  consider "PodCIDRs node = []" | "PodCIDRs node \<noteq> []" "PodCIDRs node = cidrsAsString (reservedCIDRs item)"
    | "PodCIDRs node \<noteq> []" "PodCIDRs node \<noteq> cidrsAsString (reservedCIDRs item)" by blast
  then show ?thesis
  proof cases
    case 1
    then show ?thesis
      using update_writes_texts [OF assms(1,3-6,8) 1 assms(9)] by (simp add: removeNodeFromProcessing_def)
  next
    case 2
    then have "c' = removeNodeFromProcessing (nodeName item) c" "w' = w"
      using assms(9) by (auto simp: updateNode_def)
    then show ?thesis using 2 by (simp add: removeNodeFromProcessing_def)
  next
    case 3
    then have "c' = removeNodeFromProcessing (nodeName item) d" "w' = w"
      using assms(9) d(1) by (auto simp: updateNode_def Let_def)
    then show ?thesis
      using 3 d(3) set_step_fields(4) [OF d(2)] by (simp add: removeNodeFromProcessing_def net_cells_def used_at_def)
  qed
qed

lemma ex_queued_sets: "alloc_inv ex_queued" "cidrSets ex_queued = [ex_reserved]" "cells_at ex_queued 0 (ex_host 2) = {2}"
  "mode ex_queued = ''ipv4''" "cidrsAsString (reservedCIDRs ex_item) = [''10.0.0.2/32'']"
proof -
  show "alloc_inv ex_queued"
    using AllocateOrOccupyCIDR_extends [OF ex_started_sets(1) ex_event] by (simp add: extends_def)
  show s: "cidrSets ex_queued = [ex_reserved]" by (simp add: ex_queued_def)
  have "same_config ex_set ex_reserved" by (simp add: same_config_def ex_reserved_def)
  from cs.same_cells [OF this] show "cells_at ex_queued 0 (ex_host 2) = {2}"
    using ex_cells [of 2] s by (simp add: cells_at_def)
  show "mode ex_queued = ''ipv4''" by (simp add: ex_queued_def ex_started_def ex_alloc_def)
  show "cidrsAsString (reservedCIDRs ex_item) = [''10.0.0.2/32'']" by code_simp
qed

theorem update_writes_reservation_witness:
  "(\<exists>c' w'. updateNode ex_env ex_item (ex_fresh ''c'') ex_queued [ex_fresh ''c''] = (Inr (), c', w')
      \<and> map PodCIDRs w' = [[''10.0.0.2/32'']])
    \<and> (\<exists>c' w'. updateNode ex_env ex_item ((ex_fresh ''c'')\<lparr>PodCIDRs := [''10.0.0.3/32'']\<rparr>) ex_queued [] = (Inr (), c', w')
      \<and> used_at c' 0 = used_at ex_queued 0 - {2})"
proof -
  note t = ex_queued_sets
  note ok = update_writes_reservation [OF conjunct1 [OF conjunct2 [OF ex_clients [unfolded clients_ok_def]]] t(1)]
  let ?n = "(ex_fresh ''c'')\<lparr>PodCIDRs := [''10.0.0.3/32'']\<rparr>"
  obtain r c' w' where u: "updateNode ex_env ex_item (ex_fresh ''c'') ex_queued [ex_fresh ''c''] = (r, c', w')"
    by (rule prod_cases3)
  then have r: "r = Inr ()"
    by (simp add: updateNode_def t ex_fresh_def nodeCIDRs_def DualStack_def IPv6_def cidrUpdateRetries_def
        numeral_3_eq_3 PatchNodePodCIDRs_def order_cidrs_def ex_env_def)
  obtain d where d: "releaseReserved 0 (reservedCIDRs ex_item) ex_queued = (Inr (), d)"
    using releaseReserved_total [OF t(1), of "reservedCIDRs ex_item" 0] by (auto simp: ex_item_def t)
  have v: "updateNode ex_env ex_item ?n ex_queued [] = (Inr (), removeNodeFromProcessing ''c'' d, [])"
    by (simp add: updateNode_def t d Let_def) (simp add: ex_item_def)
  show ?thesis
    using ok [OF _ _ _ _ _ _ u [unfolded r]] ok [OF _ _ _ _ _ _ v] u r v t
    by (auto simp: ex_item_def ex_fresh_def DualStack_def IPv6_def)
qed

subsection \<open>The instance of a node\<close>

lemma fetch_of_instance:
  assumes "ProviderID node = ''aws:///'' @ z @ ''/'' @ i" "plain z" "plain i"
    "api_DescribeNetworkInterfaces env [(Some ''attachment.instance-id'', [i])] w = (Inr [eni], w')"
    "Ipv6Prefixes eni = [Some p]"
  shows "fetchIPv6Address env node w = (Inr p, w')"
proof -
  have "url_Path (api_authority_ok env) (ProviderID node) = Some (''/'' @ z @ ''/'' @ i)"
    unfolding assms(1) by (rule url_Path_aws [OF assms(2,3)])
  moreover have "ProviderID node \<noteq> []" by (simp add: assms(1))
  ultimately show ?thesis
    unfolding fetchIPv6Address_def using Split_provider_path [OF assms(2,3)] assms(4,5) by (simp add: PtrTo_def)
qed

lemma fetch_without_zone:
  assumes "ProviderID node = ''aws:///'' @ i" "plain i"
  shows "fetchIPv6Address env node w = (Inl (GoPanic IndexOutOfRange), w)"
proof -
  have "url_Path (api_authority_ok env) (ProviderID node) = Some (''/'' @ i)"
    unfolding assms(1) by (rule url_Path_aws_instance [OF assms(2)])
  moreover have "ProviderID node \<noteq> []" by (simp add: assms(1))
  ultimately show ?thesis
    unfolding fetchIPv6Address_def using url_Path_aws_instance(2) [OF assms(2)] by simp
qed

subsection \<open>A new node, from its event to its CIDRs\<close>

text \<open>An API server that accepts every patch of a node it has.\<close>

definition accepting :: "'w api \<Rightarrow> ('w \<Rightarrow> Node list) \<Rightarrow> bool" where
  "accepting env cluster \<longleftrightarrow> (\<forall>n j w. n \<in> Name ` set (cluster w) \<longrightarrow> fst (api_Patch env n j w) = None)"

lemma patch_accepted:
  assumes "api_contract env cluster" "accepting env cluster" "Name node \<in> Name ` set (cluster w)" "cs \<noteq> []"
  obtains w' where "PatchNodePodCIDRs (api_Patch env) w node cs md fam = (Inr (), w', order_cidrs cs md fam)"
    "view (cluster w') = set_cidrs (Name node) (order_cidrs cs md fam) (view (cluster w))"
proof -
  obtain c0 cs' where o: "order_cidrs cs md fam = c0 # cs'"
    using assms(4) mset_order_cidrs [of cs md fam] by (cases "order_cidrs cs md fam") auto
  let ?j = "marshal_patch \<lparr>patchSpec = Some \<lparr>patchPodCIDR = c0, patchPodCIDRs = c0 # cs'\<rparr>, patchMetadata = None\<rparr>"
  obtain w' where a: "api_Patch env (Name node) ?j w = (None, w')"
    using assms(2,3) unfolding accepting_def by (metis prod.collapse)
  have "view (cluster w') = set_cidrs (Name node) (c0 # cs') (view (cluster w))"
    using api_contractD(6) [OF assms(1) a] by (simp add: view_patched)
  then show thesis using that a o by (simp add: PatchNodePodCIDRs_def)
qed

text \<open>
  The texts written into a node: those of its blocks, in dual-stack mode with the IPv6 prefix,
  in IPv6 mode the prefix alone.
\<close>

definition mode_texts :: "cidrAllocator \<Rightarrow> IPNet list \<Rightarrow> string \<Rightarrow> string list" where
  "mode_texts c ns p = order_cidrs (if mode c = DualStack then cidrsAsString ns @ [p]
     else if mode c = IPv6 then [p] else cidrsAsString ns) (mode c) (primaryIPFamily c)"

lemma update_accepted:
  assumes api: "api_contract env cluster" "accepting env cluster" and ns: "reservedCIDRs item \<noteq> []"
    and n: "Name node = nodeName item" "nodeName item \<in> Name ` set (cluster w)" "PodCIDRs node = []"
    and p: "mode c = DualStack \<or> mode c = IPv6 \<Longrightarrow> \<exists>w'. fetchIPv6Address env node w = (Inr (a @ ''/'' @ Itoa k), w')"
      "CHR ''/'' \<notin> set a" "k \<le> 128" "nodeCIDRMaskSizeIPv6 c = int m" "m \<le> 128"
  shows "\<exists>w'. updateNode env item node c w = (Inr (), removeNodeFromProcessing (nodeName item) c, w')
    \<and> view (cluster w') = set_cidrs (nodeName item)
        (mode_texts c (reservedCIDRs item) (a @ ''/'' @ Itoa (max k m))) (view (cluster w))"
proof -
  let ?ts = "cidrsAsString (reservedCIDRs item)"
  let ?us = "if mode c = DualStack then ?ts @ [a @ ''/'' @ Itoa (max k m)]
    else if mode c = IPv6 then [a @ ''/'' @ Itoa (max k m)] else ?ts"
  have ne: "?ts \<noteq> []" using ns by (simp add: cidrsAsString_def)
  have "changeNetmask (a @ ''/'' @ Itoa k) (fmt_int (int m)) = Inr (a @ ''/'' @ Itoa (max k m))"
    using p(3,5) by (intro changeNetmask_text [OF p(2)]) simp_all
  then obtain w1 where w1: "nodeCIDRs env node ?ts c w = (Inr ?us, w1)" "cluster w1 = cluster w"
    using p(1,4) fetchIPv6Address_cluster [OF api(1), of node w]
    by (cases "mode c = DualStack \<or> mode c = IPv6") (auto simp: nodeCIDRs_def)
  obtain w2 where w2: "PatchNodePodCIDRs (api_Patch env) w1 node ?us (mode c) (primaryIPFamily c)
      = (Inr (), w2, order_cidrs ?us (mode c) (primaryIPFamily c))"
    "view (cluster w2) = set_cidrs (Name node) (order_cidrs ?us (mode c) (primaryIPFamily c)) (view (cluster w1))"
    by (rule patch_accepted [OF api, of node w1 ?us]) (use n w1(2) ne in auto)
  have "updateNode env item node c w = (Inr (), removeNodeFromProcessing (nodeName item) c, w2)"
    using w1(1) w2(1) n(3) ne [symmetric]
    by (simp add: updateNode_def Let_def cidrUpdateRetries_def numeral_3_eq_3 del: One_nat_def split del: if_split)
  then show ?thesis using w2(2) w1(2) n(1) by (simp add: mode_texts_def)
qed

text \<open>
  C8: A new node is served, in every mode: when the state is reconciled, every set has a free block,
  the channel is empty, and the API server finds the node without CIDRs and accepts its patch, then
  the event queues a reservation and the next round of a worker writes it: the node has the texts
  of one block of every set that was free (with the IPv6 prefix of its instance in dual-stack mode,
  the prefix alone in IPv6 mode), no other node changed its CIDRs, just these blocks are new in
  use, and the node is out of processing again.
\<close>

theorem new_node_served:
  assumes "alloc_inv c" "reconcileReady c" "startCtx c \<noteq> Some True" "0 < tickPeriod c" "cidrSets c \<noteq> []"
    "PodCIDRs node = []" "Name node \<notin> nodesInProcessing c" "nodeCIDRUpdateChannel c = []"
    "\<forall>i < length (cidrSets c). has_room c i"
    "api_contract env cluster" "accepting env cluster"
    "api_Get env (Name node) w = (Inr node', w1)" "PodCIDRs node' = []"
    "mode c = DualStack \<or> mode c = IPv6 \<longrightarrow> (\<exists>w2. fetchIPv6Address env node' w1 = (Inr (a @ ''/'' @ Itoa k), w2))"
    "CHR ''/'' \<notin> set a" "k \<le> 128" "nodeCIDRMaskSizeIPv6 c = int m" "m \<le> 128"
  shows "\<exists>ns c1 c2 w2. AllocateOrOccupyCIDR env b (Some node) c = (Returned (Inr ()), c1)
    \<and> worker_round env c1 w = (Handled, c2, w2)
    \<and> nodeCIDRUpdateChannel c2 = [] \<and> nodesInProcessing c2 = nodesInProcessing c
    \<and> length ns = length (cidrSets c)
    \<and> (\<forall>i < length (cidrSets c). fresh_block (cidrSets c ! i) (ns ! i)
        \<and> used_at c2 i = used_at c i \<union> cells_at c i (ns ! i))
    \<and> map (\<lambda>n. (Name n, PodCIDRs n)) (cluster w2) = map (\<lambda>n. (Name n, if Name n = Name node
        then mode_texts c ns (a @ ''/'' @ Itoa (max k m)) else PodCIDRs n)) (cluster w)"
proof -
  obtain item c1 where i: "AllocateOrOccupyCIDR env b (Some node) c = (Returned (Inr ()), c1)"
    "nodeCIDRUpdateChannel c1 = [item]" "nodeName item = Name node"
    "nodesInProcessing c1 = insert (Name node) (nodesInProcessing c)"
    "length (reservedCIDRs item) = length (cidrSets c)"
    "\<forall>i < length (cidrSets c). fresh_block (cidrSets c ! i) (reservedCIDRs item ! i)
        \<and> used_at c1 i = used_at c i \<union> cells_at c i (reservedCIDRs item ! i)"
    and par: "mode c1 = mode c" "primaryIPFamily c1 = primaryIPFamily c" "tickPeriod c1 = tickPeriod c"
    "nodeCIDRMaskSizeIPv6 c1 = nodeCIDRMaskSizeIPv6 c"
    using new_node_queued [OF assms(1-3,6,7) _ assms(9), of env b] assms(8) by (auto simp: CidrUpdateQueueSize_def)
  let ?c = "c1\<lparr>nodeCIDRUpdateChannel := []\<rparr>"
  have g: "cluster w1 = cluster w" "node' \<in> set (cluster w)" "Name node' = Name node"
    using api_contractD(1,2) [OF assms(10,12)] by auto
  have ne: "reservedCIDRs item \<noteq> []" using i(5) assms(5) by auto
  have nm: "Name node' = nodeName item" "nodeName item \<in> Name ` set (cluster w1)"
    using g(3) i(3) imageI [OF g(2), of Name] by (simp_all add: g(1))
  have px: "\<exists>w2. fetchIPv6Address env node' w1 = (Inr (a @ ''/'' @ Itoa k), w2)" if "mode ?c = DualStack \<or> mode ?c = IPv6"
    using that assms(14) par(1) by simp
  have mx: "nodeCIDRMaskSizeIPv6 ?c = int m" using assms(17) par(4) by simp
  obtain w2 where u: "updateNode env item node' ?c w1 = (Inr (), removeNodeFromProcessing (nodeName item) ?c, w2)"
    "view (cluster w2) = set_cidrs (nodeName item)
      (mode_texts ?c (reservedCIDRs item) (a @ ''/'' @ Itoa (max k m))) (view (cluster w1))"
    using update_accepted [OF assms(10,11) ne nm assms(13) px assms(15,16) mx assms(18)] by blast
  have "worker_round env c1 w = (Handled, removeNodeFromProcessing (nodeName item) ?c, w2)"
    using i(2,3) u(1) assms(4,12) par by (simp add: worker_round_def updateCIDRsAllocation_def)
  moreover have "map (\<lambda>n. (Name n, PodCIDRs n)) (cluster w2) = map (\<lambda>n. (Name n, if Name n = Name node
        then mode_texts c (reservedCIDRs item) (a @ ''/'' @ Itoa (max k m)) else PodCIDRs n)) (cluster w)"
    using u(2) g(1) i(3) par by (simp add: view_def set_cidrs_def mode_texts_def)
  ultimately show ?thesis
    using i assms(7)
    by (intro exI [of _ "reservedCIDRs item"] exI conjI)
      (assumption | simp add: removeNodeFromProcessing_def used_at_def)+
qed

text \<open>A node of an instance, in a dual-stack cluster.\<close>

definition ex_dual :: cidrAllocator where
  "ex_dual = ex_started\<lparr>mode := DualStack\<rparr>"

definition ex_instance :: Node where
  "ex_instance = (ex_fresh ''c'')\<lparr>ProviderID := ''aws:///eu-1/i-0a''\<rparr>"

lemma ex_instance_prefix: "fetchIPv6Address ex_env ex_instance w = (Inr ''2001:db8::/80'', w)"
  using fetch_of_instance [of ex_instance "''eu-1''" "''i-0a''" ex_env w]
  by (simp add: ex_instance_def ex_env_def ex_eni_def plain_def is_letter_def is_digit_def)

lemma ex_accepting: "accepting ex_env (\<lambda>w. w)"
  by (simp add: accepting_def ex_env_def)

theorem new_node_served_witness:
  "\<exists>ns c1 c2 w2. AllocateOrOccupyCIDR ex_env True (Some ex_instance) ex_dual = (Returned (Inr ()), c1)
    \<and> worker_round ex_env c1 [ex_instance] = (Handled, c2, w2) \<and> length ns = 1
    \<and> map PodCIDRs w2 = [order_cidrs (cidrsAsString ns @ [''2001:db8::/80'']) DualStack ''ipv4'']"
proof -
  have c: "alloc_inv ex_dual" "reconcileReady ex_dual" "startCtx ex_dual \<noteq> Some True" "0 < tickPeriod ex_dual"
    "cidrSets ex_dual \<noteq> []" "nodesInProcessing ex_dual = {}" "nodeCIDRUpdateChannel ex_dual = []"
    "nodeCIDRMaskSizeIPv6 ex_dual = int 80" "mode ex_dual = DualStack" "primaryIPFamily ex_dual = ''ipv4''"
    "length (cidrSets ex_dual) = 1"
    using ex_started_sets(1) by (simp_all add: ex_dual_def ex_started_def ex_alloc_def alloc_inv_def)
  have room: "\<forall>i < length (cidrSets ex_dual). has_room ex_dual i"
    using ex_started_sets(2)
    by (simp add: has_room_def used_at_def ex_dual_def) (simp add: ex_started_def ex_used_def)
  have n: "PodCIDRs ex_instance = []" "Name ex_instance = ''c''" by (simp_all add: ex_instance_def ex_fresh_def)
  have g: "api_Get ex_env (Name ex_instance) [ex_instance] = (Inr ex_instance, [ex_instance])"
    by (simp add: ex_env_def)
  have api: "api_contract ex_env (\<lambda>w. w)" using ex_clients by (simp add: clients_ok_def)
  have "Itoa 80 = ''80''" by code_simp
  then have p: "fetchIPv6Address ex_env ex_instance [ex_instance] = (Inr (''2001:db8::'' @ ''/'' @ Itoa 80), [ex_instance])"
    "''2001:db8::'' @ ''/'' @ Itoa (max 80 80) = ''2001:db8::/80''"
    using ex_instance_prefix by simp_all
  obtain ns c1 c2 w2 where s: "AllocateOrOccupyCIDR ex_env True (Some ex_instance) ex_dual = (Returned (Inr ()), c1)"
    "worker_round ex_env c1 [ex_instance] = (Handled, c2, w2)" "length ns = 1"
    "map (\<lambda>n. (Name n, PodCIDRs n)) w2 = [(''c'', mode_texts ex_dual ns ''2001:db8::/80'')]"
    using new_node_served [OF c(1-5) n(1) _ c(7) room api ex_accepting g n(1) _ _ _ c(8), of "''2001:db8::''" 80 True]
      p c(6,11) n(2) by auto
  have "map PodCIDRs w2 = map snd (map (\<lambda>n. (Name n, PodCIDRs n)) w2)" by simp
  then have "map PodCIDRs w2 = [mode_texts ex_dual ns ''2001:db8::/80'']" unfolding s(4) by simp
  then show ?thesis using s(1-3) c(9,10) by (auto simp: mode_texts_def)
qed

subsection \<open>Failed updates\<close>

text \<open>The documented behaviour of \<open>apierrors.IsServerTimeout\<close>: it looks for an API status in the chain.\<close>

definition timeout_is_status :: "(go_err \<Rightarrow> bool) \<Rightarrow> bool" where
  "timeout_is_status f \<longleftrightarrow> (\<forall>e. f e \<longrightarrow> (\<exists>reason. StatusError reason \<in> set (err_chain e)))"

text \<open>
  C29: A server timeout is never recognised: an error of the API server comes back from
  \<open>PatchNodePodCIDRs\<close> as text only, so the check for a timeout after the last attempt is false
  whatever the server answered, and a failed update always releases its reservation.
\<close>

theorem timeout_never_recognised:
  assumes "timeout_is_status (api_IsServerTimeout env)"
    "PatchNodePodCIDRs (api_Patch env) w node cidr md fam = (Inl e, w', cidr')"
  shows "\<not> api_IsServerTimeout env e
    \<and> giveUp env node item e c = (let (r, c') = releaseReserved 0 (reservedCIDRs item)
          (c\<lparr>recorder := RecordNodeStatusChange (recorder c) node ''CIDRAssignmentFailed''\<rparr>)
        in (case r of Inl p \<Rightarrow> Inl (GoPanic p) | Inr _ \<Rightarrow> Inl e, c'))"
proof -
  have "err_chain e = [e]" "\<And>reason. e \<noteq> StatusError reason"
    using assms(2) by (auto simp: PatchNodePodCIDRs_def Let_def split: list.splits prod.splits option.splits)
  then have "\<not> api_IsServerTimeout env e"
    using assms(1) unfolding timeout_is_status_def by (metis empty_iff list.set(1) set_ConsD)
  then show ?thesis by (simp add: giveUp_def Let_def split: prod.split sum.split)
qed

text \<open>Clients whose API server answers every patch with a timeout.\<close>

definition ex_refusing :: "Node list api" where
  "ex_refusing = ex_env\<lparr>api_Patch := (\<lambda>n j w. (Some (StatusError ''ServerTimeout''), w))\<rparr>"

lemma ex_timeout: "timeout_is_status (api_IsServerTimeout ex_refusing)"
  by (auto simp: timeout_is_status_def ex_refusing_def ex_env_def)

theorem timeout_never_recognised_witness:
  "api_IsServerTimeout ex_refusing (StatusError ''ServerTimeout'')
    \<and> (\<exists>e. PatchNodePodCIDRs (api_Patch ex_refusing) [] (ex_fresh ''c'') [''10.0.0.2/32''] IPv4 IPv4
          = (Inl e, [], [''10.0.0.2/32'']) \<and> \<not> api_IsServerTimeout ex_refusing e)"
proof -
  have p: "PatchNodePodCIDRs (api_Patch ex_refusing) [] (ex_fresh ''c'') [''10.0.0.2/32''] IPv4 IPv4
      = (Inl (ErrorfV ''error applying patch to node: %v'' [] (StatusError ''ServerTimeout'')), [], [''10.0.0.2/32''])"
    by (simp add: PatchNodePodCIDRs_def order_cidrs_def IPv4_def ex_refusing_def)
  have "api_IsServerTimeout ex_refusing (StatusError ''ServerTimeout'')" by (simp add: ex_refusing_def ex_env_def)
  then show ?thesis
    using timeout_never_recognised [OF ex_timeout p, of ex_item ex_queued] p by blast
qed

text \<open>All attempts fail when the API server refuses every patch.\<close>

definition refuses :: "'w api \<Rightarrow> bool" where
  "refuses env \<longleftrightarrow> (\<forall>n j w. fst (api_Patch env n j w) \<noteq> None)"

lemma patch_refused:
  assumes "refuses env" "cs \<noteq> []"
  obtains e w' where "PatchNodePodCIDRs (api_Patch env) w node cs md fam
    = (Inl (ErrorfV ''error applying patch to node: %v'' [] e), w', order_cidrs cs md fam)"
proof -
  have "order_cidrs cs md fam \<noteq> []" using assms(2) mset_order_cidrs [of cs md fam] by force
  then obtain c0 cs' where o: "order_cidrs cs md fam = c0 # cs'" by (cases "order_cidrs cs md fam") auto
  let ?j = "marshal_patch \<lparr>patchSpec = Some \<lparr>patchPodCIDR = c0, patchPodCIDRs = c0 # cs'\<rparr>, patchMetadata = None\<rparr>"
  obtain e w' where "api_Patch env (Name node) ?j w = (Some e, w')"
    using assms(1) unfolding refuses_def by (metis option.exhaust prod.exhaust fst_conv)
  then show thesis using that o by (simp add: PatchNodePodCIDRs_def)
qed

lemma patchLoop_refused:
  assumes "refuses env" "cs \<noteq> []"
  shows "\<exists>e w'. patchLoop env node c (Suc n) err cs w
    = (Some (ErrorfV ''error applying patch to node: %v'' [] e), w')"
  using assms(2)
proof (induction n arbitrary: err cs w)
  case 0
  obtain e w' where "PatchNodePodCIDRs (api_Patch env) w node cs (mode c) (primaryIPFamily c)
      = (Inl (ErrorfV ''error applying patch to node: %v'' [] e), w', order_cidrs cs (mode c) (primaryIPFamily c))"
    by (rule patch_refused [OF assms(1) 0])
  then show ?case by simp
next
  case (Suc n)
  let ?os = "order_cidrs cs (mode c) (primaryIPFamily c)"
  obtain e w' where p: "PatchNodePodCIDRs (api_Patch env) w node cs (mode c) (primaryIPFamily c)
      = (Inl (ErrorfV ''error applying patch to node: %v'' [] e), w', ?os)"
    by (rule patch_refused [OF assms(1) Suc.prems])
  have "?os \<noteq> []" using Suc.prems mset_order_cidrs [of cs "mode c" "primaryIPFamily c"] by force
  then show ?case using patchLoop_next [OF p, of "Suc n" err] Suc.IH [of ?os] by simp
qed

text \<open>
  C21: A refused reservation comes back without its blocks: when the API server refuses the patches
  of an IPv4 update, the round releases the reserved blocks, and the item that still names
  them goes back to the end of the channel. The blocks can be given to another node while the
  item waits to be written, so the addresses of two nodes can overlap.
\<close>

theorem refused_item_keeps_freed_blocks:
  assumes "alloc_inv c" "0 < tickPeriod c" "mode c \<noteq> DualStack" "mode c \<noteq> IPv6"
    "nodeCIDRUpdateChannel c = item # rest" "length rest < CidrUpdateQueueSize"
    "api_Get env (nodeName item) w = (Inr node, w1)" "PodCIDRs node = []"
    "refuses env" "timeout_is_status (api_IsServerTimeout env)"
    "reservedCIDRs item \<noteq> []" "length (reservedCIDRs item) \<le> length (cidrSets c)"
    "\<forall>n\<in>set (reservedCIDRs item). is_canon n"
  shows "\<exists>e c' w'. worker_round env c w = (Requeued e, c', w') \<and> nodeCIDRUpdateChannel c' = rest @ [item]
    \<and> (\<forall>i < length (reservedCIDRs item). used_at c' i = used_at c i - cells_at c i (reservedCIDRs item ! i))"
proof -
  let ?ts = "cidrsAsString (reservedCIDRs item)" and ?c = "c\<lparr>nodeCIDRUpdateChannel := rest\<rparr>"
  let ?c1 = "?c\<lparr>recorder := RecordNodeStatusChange (recorder c) node ''CIDRAssignmentFailed''\<rparr>"
  have ne: "?ts \<noteq> []" using assms(11) by (simp add: cidrsAsString_def)
  obtain e w2 where p: "patchLoop env node ?c 3 None ?ts w1
      = (Some (ErrorfV ''error applying patch to node: %v'' [] e), w2)"
    using patchLoop_refused [OF assms(9) ne, of node ?c 2 None w1] by (auto simp: eval_nat_numeral)
  have no: "\<not> api_IsServerTimeout env (ErrorfV ''error applying patch to node: %v'' [] e)"
    using assms(10) by (auto simp: timeout_is_status_def)
  have inv1: "alloc_inv ?c1" using assms(1) by (simp add: alloc_inv_def)
  obtain d where d: "releaseReserved 0 (reservedCIDRs item) ?c1 = (Inr (), d)" "set_step ?c1 d"
    "\<forall>i < length (cidrSets ?c1). used_at d i = used_at ?c1 i - net_cells ?c1 0 (reservedCIDRs item) i"
    using releaseReserved_total [OF inv1 assms(13), of 0] assms(12) by auto
  have md: "nodeCIDRs env node ?ts ?c w1 = (Inr ?ts, w1)" using assms(3,4) by (simp add: nodeCIDRs_def)
  have "updateCIDRsAllocation env item ?c w
      = (Inl (ErrorfV ''error applying patch to node: %v'' [] e), d, w2)"
    using assms(2,7,8) ne [symmetric] p d(1) no md
    by (simp add: updateCIDRsAllocation_def updateNode_def giveUp_def Let_def cidrUpdateRetries_def)
  moreover have "nodeCIDRUpdateChannel d = rest" using set_step_fields [OF d(2)] by simp
  ultimately have "worker_round env c w = (Requeued (ErrorfV ''error applying patch to node: %v'' [] e),
      d\<lparr>nodeCIDRUpdateChannel := rest @ [item]\<rparr>, w2)"
    using assms(5,6) by (simp add: worker_round_def queueAfterWait_def)
  moreover have "used_at d i = used_at c i - cells_at c i (reservedCIDRs item ! i)"
    if "i < length (reservedCIDRs item)" for i
    using d(3) that assms(12) by (simp add: used_at_def net_cells_def cells_at_def)
  ultimately show ?thesis by auto
qed

theorem refused_item_keeps_freed_blocks_witness:
  "\<exists>e c' w'. worker_round ex_refusing ex_queued [ex_fresh ''c''] = (Requeued e, c', w')
    \<and> nodeCIDRUpdateChannel c' = [ex_item] \<and> 2 \<notin> used_at c' 0"
proof -
  note inv = ex_queued_sets(1)
  have r: "refuses ex_refusing" by (simp add: refuses_def ex_refusing_def)
  have g: "api_Get ex_refusing (nodeName ex_item) [ex_fresh ''c''] = (Inr (ex_fresh ''c''), [ex_fresh ''c''])"
    by (simp add: ex_refusing_def ex_env_def ex_item_def ex_fresh_def)
  have f: "0 < tickPeriod ex_queued" "mode ex_queued \<noteq> DualStack" "mode ex_queued \<noteq> IPv6"
    "nodeCIDRUpdateChannel ex_queued = ex_item # []" "length ([] :: NodeReservedCIDRs list) < CidrUpdateQueueSize"
    "cidrSets ex_queued = [ex_reserved]"
    by (simp_all add: ex_queued_def ex_started_def ex_alloc_def DualStack_def IPv6_def CidrUpdateQueueSize_def)
  show ?thesis
    using ex_queued_sets(3) refused_item_keeps_freed_blocks [OF inv f(1-5) g _ r ex_timeout] f(6)
    by (auto simp: ex_item_def ex_fresh_def)
qed

text \<open>
  C28: In dual-stack mode the release that should spare CIDRs in use does not: when a node already
  has the reserved IPv4 blocks together with its IPv6 prefix, the comparison with the reserved
  CIDRs alone fails, and an update for the node releases the very blocks the node uses, and
  reports success.
\<close>

theorem dual_stack_releases_used_blocks:
  assumes "alloc_inv c" "PodCIDRs node = cidrsAsString (reservedCIDRs item) @ [prefix]"
    "length (reservedCIDRs item) \<le> length (cidrSets c)" "\<forall>n\<in>set (reservedCIDRs item). is_canon n"
  shows "\<exists>c'. updateNode env item node c w = (Inr (), c', w)
    \<and> (\<forall>i < length (reservedCIDRs item). used_at c' i = used_at c i - cells_at c i (reservedCIDRs item ! i))"
proof -
  obtain d where d: "releaseReserved 0 (reservedCIDRs item) c = (Inr (), d)"
    "\<forall>i < length (cidrSets c). used_at d i = used_at c i - net_cells c 0 (reservedCIDRs item) i"
    using releaseReserved_total [OF assms(1,4), of 0] assms(3) by auto
  have "updateNode env item node c w = (Inr (), removeNodeFromProcessing (nodeName item) d, w)"
    using assms(2) d(1) by (simp add: updateNode_def Let_def)
  then show ?thesis using d(2) assms(3) by (simp add: net_cells_def)
qed

theorem dual_stack_releases_used_blocks_witness:
  "\<exists>c'. updateNode ex_env ex_item ((ex_fresh ''c'')\<lparr>PodCIDRs := [''10.0.0.2/32'', ''2001:db8::/80'']\<rparr>)
      (ex_queued\<lparr>mode := DualStack\<rparr>) [] = (Inr (), c', []) \<and> 2 \<notin> used_at c' 0"
proof -
  have inv: "alloc_inv (ex_queued\<lparr>mode := DualStack\<rparr>)" using ex_queued_sets(1) by (simp add: alloc_inv_def)
  note t = ex_queued_sets(5) and sets = ex_queued_sets(2)
  have "cells_at (ex_queued\<lparr>mode := DualStack\<rparr>) 0 (ex_host 2) = {2}"
    using ex_queued_sets(3) by (simp add: cells_at_def)
  then show ?thesis
    using dual_stack_releases_used_blocks [OF inv, of "(ex_fresh ''c'')\<lparr>PodCIDRs := [''10.0.0.2/32'', ''2001:db8::/80'']\<rparr>"
      ex_item "''2001:db8::/80''" ex_env "[]"] sets t
    by (auto simp: ex_item_def)
qed

subsection \<open>The IPv6 prefix and its mask\<close>

text \<open>
  C37: The IPv6 prefix of a node: for a provider ID \<open>aws:///zone/instance\<close> the network interfaces of
  this instance are asked for and nothing else, and when there is one interface with one prefix
  that prefix is the result. A provider ID without the zone, \<open>aws:///instance\<close>, panics: its path
  has two parts and the third is indexed.
\<close>

theorem ipv6_prefix_of_instance:
  assumes "ProviderID node = ''aws:///'' @ z @ ''/'' @ i" "plain z" "plain i"
    "api_DescribeNetworkInterfaces env [(Some ''attachment.instance-id'', [i])] w = (Inr [eni], w')"
    "Ipv6Prefixes eni = [Some p]"
  shows "fetchIPv6Address env node w = (Inr p, w')
    \<and> fetchIPv6Address env (node\<lparr>ProviderID := ''aws:///'' @ i\<rparr>) w = (Inl (GoPanic IndexOutOfRange), w)"
  using fetch_of_instance [OF assms] fetch_without_zone [of "node\<lparr>ProviderID := ''aws:///'' @ i\<rparr>", OF _ assms(3)]
  by simp

theorem ipv6_prefix_of_instance_witness:
  "fetchIPv6Address ex_env ((ex_fresh ''c'')\<lparr>ProviderID := ''aws:///eu-1/i-0a''\<rparr>) [] = (Inr ''2001:db8::/80'', [])
    \<and> fetchIPv6Address ex_env ((ex_fresh ''c'')\<lparr>ProviderID := ''aws:///i-0a''\<rparr>) [] = (Inl (GoPanic IndexOutOfRange), [])"
  using ipv6_prefix_of_instance [of "(ex_fresh ''c'')\<lparr>ProviderID := ''aws:///eu-1/i-0a''\<rparr>" "''eu-1''" "''i-0a''" ex_env "[]"]
  by (simp add: ex_env_def ex_eni_def plain_def is_letter_def is_digit_def)

text \<open>
  C38: The mask of a prefix is only ever made longer: the prefix comes back with the longer of its
  own mask and the node mask. An address without a slash panics, and nothing else does.
\<close>

theorem netmask_grows:
  assumes "CHR ''/'' \<notin> set a" "int old < 2 ^ 63" "int new < 2 ^ 63"
  shows "changeNetmask (a @ ''/'' @ Itoa old) (fmt_int (int new)) = Inr (a @ ''/'' @ Itoa (max old new))
    \<and> (changeNetmask s m = Inl IndexOutOfRange \<longleftrightarrow> CHR ''/'' \<notin> set s)"
proof -
  have "changeNetmask (a @ ''/'' @ Itoa old) (fmt_int (int new)) = Inr (a @ ''/'' @ Itoa (max old new))"
    by (rule changeNetmask_text [OF assms])
  moreover have "changeNetmask s m = Inl IndexOutOfRange \<longleftrightarrow> length (Split CHR ''/'' s) = 1"
    by (cases "Split CHR ''/'' s" rule: remdups_adj.cases)
      (auto simp: changeNetmask_def split: option.split)
  moreover have "length (Split CHR ''/'' s) = 1 \<longleftrightarrow> CHR ''/'' \<notin> set s"
    by (simp add: length_Split count_list_0_iff)
  ultimately show ?thesis by simp
qed

theorem netmask_grows_witness:
  "changeNetmask ''2001:db8::/64'' (fmt_int 80) = Inr ''2001:db8::/80''
    \<and> changeNetmask ''2001:db8::'' ''80'' = Inl IndexOutOfRange"
proof -
  have t: "Itoa 64 = ''64''" "Itoa 80 = ''80''" by code_simp+
  show ?thesis
    using netmask_grows [of "''2001:db8::''" 64 80 "''2001:db8::''" "''80''"] t by simp
qed

end
