(* ===== verification/LimitTheorems.thy ===== *)
theory LimitTheorems
  imports UpdateTheorems
begin

text \<open>
  Where the guarantees end: runs and situations in which the program hands out an address
  twice, keeps blocks nobody uses, or makes no progress. Every theorem here names a decision of
  the source that the theorems on runs have to except.
\<close>

subsection \<open>A lost reply\<close>

text \<open>
  An API server that applies every patch and loses the first reply, a cluster CIDR of one
  address, and the states of a run.
\<close>

definition lossy :: "(Node list \<times> nat) api" where
  "lossy = \<lparr>
     api_Get = (\<lambda>n w. (case find (\<lambda>x. Name x = n) (fst w) of
        None \<Rightarrow> Inl (StatusError ''NotFound'') | Some x \<Rightarrow> Inr x, w)),
     api_List = (\<lambda>w. (Inr (fst w), w)),
     api_Patch = (\<lambda>n j w. if n \<in> Name ` set (fst w)
        then (if snd w = 0 then Some (StatusError ''ServerTimeout'') else None, (patched n j (fst w), Suc (snd w)))
        else (Some (StatusError ''NotFound''), w)),
     api_DescribeNetworkInterfaces = (\<lambda>f w. (Inr [ex_eni], w)),
     api_IsServerTimeout = (\<lambda>e. StatusError ''ServerTimeout'' \<in> set (err_chain e)),
     api_IsIPv6CIDR = (\<lambda>n. length (IP n) = 16),
     api_authority_ok = (\<lambda>a. True)\<rparr>"

lemma lossy_clients: "clients_ok lossy fst"
proof -
  have "node \<in> set ns \<and> Name node = n" if "find (\<lambda>x. Name x = n) ns = Some node" for n ns node
    using that by (induction ns) (auto split: if_splits)
  then have "api_contract lossy fst"
    by (auto simp: api_contract_def lossy_def split: option.splits if_splits)
  moreover have "ec2_prefixes_ok lossy"
    using ex_prefix by (simp add: ec2_prefixes_ok_def lossy_def ex_eni_def)
  moreover have "ip_family_ok lossy" by (simp add: ip_family_ok_def lossy_def)
  ultimately show ?thesis by (simp add: clients_ok_def)
qed

definition one_free :: CidrSet where
  "one_free = \<lparr>clusterCIDR = ex_host 0, clusterMaskSize = 32, nodeMask = [255, 255, 255, 255],
     nodeMaskSize = 32, maxCIDRs = 1, allocatedCIDRs = 0, nextCandidate = 0, used = 0,
     label = ''10.0.0.0/32''\<rparr>"

definition one_full :: CidrSet where
  "one_full = one_free\<lparr>used := 1, allocatedCIDRs := 1\<rparr>"

lemma one_set_new: "NewCIDRSet (ex_host 0) 32 False = (Inr one_free, registerCidrsetMetrics False)"
  by code_simp

lemma one_set_inv: "cset_inv one_free"
proof -
  obtain s where "NewCIDRSet (ex_host 0) (int 32) False = (Inr s, registerCidrsetMetrics False)"
    "cset_inv s" by (rule NewCIDRSet_wf [OF ex_host_canon [of 0], of 32 False]) simp_all
  then show ?thesis using one_set_new by simp
qed

definition one_taken :: "metric list" where
  "one_taken = [AllocationsInc ''10.0.0.0/32'', TriesObserve ''10.0.0.0/32'' 0, UsageSet ''10.0.0.0/32'' 1 1]"

definition one_freed :: "metric list" where
  "one_freed = [ReleasesInc ''10.0.0.0/32'', UsageSet ''10.0.0.0/32'' 0 1]"

lemma one_set_ops:
  "AllocateNext one_free = (Inr (ex_host 0), one_full, one_taken)"
  "Release one_full (Some (ex_host 0)) = (Inr (), one_free, one_freed)"
  by code_simp+

text \<open>
  The states of the run: the nodes with the number of patches, the set, the nodes in processing,
  the channel, the items of the workers, the deletions to be reported, the ghost field and the
  metrics. The nodes \<open>c\<close> and \<open>d\<close> are new or hold the block.
\<close>

definition one_ctl :: "CidrSet \<Rightarrow> string set \<Rightarrow> NodeReservedCIDRs list \<Rightarrow> metric list \<Rightarrow> cidrAllocator" where
  "one_ctl st pr ch log = ex_alloc\<lparr>clusterCIDRs := [ex_host 0], cidrSets := [st],
     nodesInProcessing := pr, nodeCIDRUpdateChannel := ch, reconcileReady := True,
     startCtx := Some False, workers := 30, metricLog := log\<rparr>"

definition one_item :: "string \<Rightarrow> NodeReservedCIDRs" where
  "one_item nm = \<lparr>reservedCIDRs = [ex_host 0], nodeName = nm\<rparr>"

definition one_sys :: "Node list \<times> nat \<Rightarrow> cidrAllocator \<Rightarrow> (NodeReservedCIDRs \<times> phase) list \<Rightarrow> Node list
    \<Rightarrow> bool \<Rightarrow> (Node list \<times> nat) system" where
  "one_sys w c fl dl b = \<lparr>ctl = c, world = w, handling = [], waiting = [], inflight = fl, deleted = dl,
     releases = [], lost_node = b\<rparr>"

lemma one_sys_simps [simp]:
  "ctl (one_sys w c fl dl b) = c" "world (one_sys w c fl dl b) = w" "waiting (one_sys w c fl dl b) = []"
  "handling (one_sys w c fl dl b) = []" "releases (one_sys w c fl dl b) = []"
  "inflight (one_sys w c fl dl b) = fl" "deleted (one_sys w c fl dl b) = dl" "lost_node (one_sys w c fl dl b) = b"
  "(one_sys w c fl dl b)\<lparr>ctl := c'\<rparr> = one_sys w c' fl dl b"
  "(one_sys w c fl dl b)\<lparr>world := w'\<rparr> = one_sys w' c fl dl b"
  "(one_sys w c fl dl b)\<lparr>waiting := []\<rparr> = one_sys w c fl dl b"
  "(one_sys w c fl dl b)\<lparr>handling := []\<rparr> = one_sys w c fl dl b"
  "(one_sys w c fl dl b)\<lparr>inflight := fl'\<rparr> = one_sys w c fl' dl b"
  "(one_sys w c fl dl b)\<lparr>deleted := dl'\<rparr> = one_sys w c fl dl' b"
  "(one_sys w c fl dl b)\<lparr>lost_node := b'\<rparr> = one_sys w c fl dl b'"
  by (simp_all add: one_sys_def)

lemma one_ctl_simps [simp]:
  "cidrSets (one_ctl st pr ch log) = [st]" "nodesInProcessing (one_ctl st pr ch log) = pr"
  "nodeCIDRUpdateChannel (one_ctl st pr ch log) = ch" "reconcileReady (one_ctl st pr ch log)"
  "startCtx (one_ctl st pr ch log) = Some False" "tickPeriod (one_ctl st pr ch log) = 1"
  "recorder (one_ctl st pr ch log) = []" "mode (one_ctl st pr ch log) = IPv4"
  "metricLog (one_ctl st pr ch log) = log"
  "(one_ctl st pr ch log)\<lparr>cidrSets := [st']\<rparr> = one_ctl st' pr ch log"
  "(one_ctl st pr ch log)\<lparr>cidrSets := [st'], metricLog := log'\<rparr> = one_ctl st' pr ch log'"
  "(one_ctl st pr ch log)\<lparr>nodesInProcessing := pr'\<rparr> = one_ctl st pr' ch log"
  "(one_ctl st pr ch log)\<lparr>nodeCIDRUpdateChannel := ch'\<rparr> = one_ctl st pr ch' log"
  "(one_ctl st pr ch log)\<lparr>metricLog := log'\<rparr> = one_ctl st pr ch log'"
  "removeNodeFromProcessing nm (one_ctl st pr ch log) = one_ctl st (pr - {nm}) ch log"
  by (simp_all add: one_ctl_def ex_alloc_def IPv4_def removeNodeFromProcessing_def)

text \<open>A new node takes the one block, a deleted one gives it back.\<close>

lemma one_event:
  "nm \<notin> pr \<Longrightarrow> AllocateOrOccupyCIDR lossy b (Some (ex_fresh nm)) (one_ctl one_free pr [] log)
    = (Returned (Inr ()), one_ctl one_full (insert nm pr) [one_item nm] (log @ one_taken))"
  by (simp add: AllocateOrOccupyCIDR_def insertNodeToProcessing_def ex_fresh_def allocateAfterWait_def
      allocateAndQueue_def queueAfterWait_def on_set_def one_set_ops one_item_def CidrUpdateQueueSize_def
      ex_bool_eq)

lemma one_release:
  "ReleaseCIDR lossy (Some (ex_node nm 0)) (one_ctl one_full pr ch log)
    = (Inr (), one_ctl one_free pr ch (log @ one_freed))"
  by (simp add: ReleaseCIDR_def ex_node_def on_set_def one_set_ops lossy_def)

lemma one_text_nonempty [simp]: "IPNet_String (ex_host i) \<noteq> []"
  by (simp add: IPNet_String_v4 [OF ex_host_canon])

lemma one_patch:
  "nm \<in> Name ` set ns \<Longrightarrow>
    PatchNodePodCIDRs (api_Patch lossy) (ns, k) (ex_fresh nm) [IPNet_String (ex_host 0)] IPv4 fam
    = ((if k = 0 then Inl (ErrorfV ''error applying patch to node: %v'' [] (StatusError ''ServerTimeout'')) else Inr ()),
       (map (\<lambda>x. if Name x = nm then x\<lparr>PodCIDR := IPNet_String (ex_host 0), PodCIDRs := [IPNet_String (ex_host 0)]\<rparr> else x) ns,
        Suc k), [IPNet_String (ex_host 0)])"
  by (simp add: PatchNodePodCIDRs_def order_cidrs_def IPv4_def lossy_def patched_def merge_patch_def ex_fresh_def
      marshal_patch_def marshal_spec_def json_string_def List.map_filter_def Let_def)

lemma one_start:
  "Start lossy True (ex_alloc\<lparr>clusterCIDRs := [ex_host 0], cidrSets := [one_free], metricLog := []\<rparr>) ([], 0)
    = (Inr (), one_ctl one_free {} [] [], ([], 0))"
  by (simp add: Start_def reconcileState_def lossy_def one_ctl_def ex_alloc_def cidrUpdateWorkers_def)

lemma one_sys_start:
  "sys_start lossy fst (ex_alloc\<lparr>clusterCIDRs := [ex_host 0], cidrSets := [one_free], metricLog := []\<rparr>)
    (one_sys ([], 0) (one_ctl one_free {} [] []) [] [] False)"
proof -
  let ?c0 = "ex_alloc\<lparr>clusterCIDRs := [ex_host 0], cidrSets := [one_free], metricLog := []\<rparr>"
  have "\<exists>w0. Start lossy True ?c0 w0 = (Inr (), one_ctl one_free {} [] [], ([], 0))"
    using one_start by blast
  moreover have "alloc_inv ?c0" using one_set_inv by (simp add: alloc_inv_def)
  moreover have "supported ?c0" by (simp add: supported_def one_free_def ex_host_def) (simp add: ex_alloc_def)
  ultimately show ?thesis by (simp add: sys_start_def) (simp add: ex_alloc_def)
qed

text \<open>A worker that has read a new node patches it with the block.\<close>

abbreviation "one_texts \<equiv> [IPNet_String (ex_host 0)]"

lemma one_choose:
  "nodeCIDRs lossy (ex_fresh nm) one_texts (one_ctl st pr ch log) w = (Inr one_texts, w)"
  by (simp add: nodeCIDRs_def DualStack_def IPv4_def IPv6_def)

lemma one_reads:
  "nm \<in> Name ` set ns \<Longrightarrow> \<forall>x\<in>set ns. Name x = nm \<longrightarrow> x = ex_fresh nm \<Longrightarrow>
    (sys_step lossy fst)\<^sup>*\<^sup>* (one_sys (ns, k) (one_ctl st pr [one_item nm] log) [] dl b)
      (one_sys (ns, k) (one_ctl st pr [] log) [(one_item nm, Patching (ex_fresh nm) one_texts 3 None)] dl b)"
proof -
  assume nm: "nm \<in> Name ` set ns" "\<forall>x\<in>set ns. Name x = nm \<longrightarrow> x = ex_fresh nm"
  then have "find (\<lambda>x. Name x = nm) ns = Some (ex_fresh nm)"
    by (induction ns) (auto simp: ex_fresh_def)
  then have g: "api_Get lossy nm (ns, k) = (Inr (ex_fresh nm), (ns, k))" by (simp add: lossy_def)
  let ?S = "\<lambda>ch fl. one_sys (ns, k) (one_ctl st pr ch log) fl dl b"
  have 1: "sys_step lossy fst (?S [one_item nm] []) (?S [] [(one_item nm, Taken)])"
    using worker_take [of "?S [one_item nm] []" "one_item nm" "[]" lossy fst] by simp
  have 2: "sys_step lossy fst (?S [] [(one_item nm, Taken)]) (?S [] [(one_item nm, Read (ex_fresh nm))])"
    using worker_read [of "?S [] [(one_item nm, Taken)]" "[]" "one_item nm" "[]" lossy "Inr (ex_fresh nm)" "(ns, k)" fst] g
    by (simp add: one_item_def)
  have 3: "sys_step lossy fst (?S [] [(one_item nm, Read (ex_fresh nm))])
      (?S [] [(one_item nm, Patching (ex_fresh nm) one_texts 3 None)])"
    using worker_choose [of "?S [] [(one_item nm, Read (ex_fresh nm))]" "[]" "one_item nm" "ex_fresh nm" "[]"
        lossy "Inr one_texts" "(ns, k)" fst] one_choose
    by (simp add: one_item_def cidrsAsString_def ex_fresh_def cidrUpdateRetries_def)
  from 1 2 3 show ?thesis by (meson converse_rtranclp_into_rtranclp r_into_rtranclp)
qed

text \<open>The run: the first attempt for \<open>c\<close> is applied and its reply lost; \<open>c\<close> is deleted and created again.\<close>

lemma lost_run:
  "\<exists>log. (sys_step lossy fst)\<^sup>*\<^sup>* (one_sys ([], 0) (one_ctl one_free {} [] []) [] [] False)
     (one_sys ([ex_node ''c'' 0, ex_node ''d'' 0], 3) (one_ctl one_full {} [] log) [] [] True)"
proof -
  let ?R = "sys_step lossy fst"
  let ?t = one_texts and ?c = "ex_fresh ''c''" and ?d = "ex_fresh ''d''" and ?ic = "one_item ''c''"
  let ?e = "ErrorfV ''error applying patch to node: %v'' [] (StatusError ''ServerTimeout'')"
  let ?l1 = one_taken and ?l2 = "one_taken @ one_freed" and ?l3 = "(one_taken @ one_freed) @ one_taken"
  let ?p = "\<lambda>n. [(?ic, Patching ?c ?t n (Some ?e))]"
  have P: "PodCIDRs (ex_fresh nm) = []" "Name (ex_fresh nm) = nm" "Name (ex_node nm 0) = nm"
    "PodCIDRs (ex_node nm 0) = ?t" "(ex_fresh nm)\<lparr>PodCIDR := IPNet_String (ex_host 0), PodCIDRs := ?t\<rparr> = ex_node nm 0" for nm
    by (simp_all add: ex_fresh_def ex_node_def)
  have a1: "?R (one_sys ([], 0) (one_ctl one_free {} [] []) [] [] False) (one_sys ([?c], 0) (one_ctl one_free {} [] []) [] [] False)"
    using node_created [of fst "([?c], 0)" "one_sys ([], 0) (one_ctl one_free {} [] []) [] [] False" ?c lossy] P by simp
  have a2: "?R\<^sup>*\<^sup>* (one_sys ([?c], 0) (one_ctl one_free {} [] []) [] [] False)
      (one_sys ([?c], 0) (one_ctl one_full {''c''} [?ic] ?l1) [] [] False)"
    using handler_run [of lossy True ?c "one_sys ([?c], 0) (one_ctl one_free {} [] []) [] [] False" "Returned (Inr ())"] one_event P by simp
  have a3: "?R\<^sup>*\<^sup>* (one_sys ([?c], 0) (one_ctl one_full {''c''} [?ic] ?l1) [] [] False)
      (one_sys ([?c], 0) (one_ctl one_full {''c''} [] ?l1) [(?ic, Patching ?c ?t 3 None)] [] False)"
    by (rule one_reads) (simp_all add: P)
  have a4: "?R (one_sys ([?c], 0) (one_ctl one_full {''c''} [] ?l1) [(?ic, Patching ?c ?t 3 None)] [] False)
      (one_sys ([ex_node ''c'' 0], 1) (one_ctl one_full {''c''} [] ?l1) (?p 2) [] False)"
    using worker_retry [of "one_sys ([?c], 0) (one_ctl one_full {''c''} [] ?l1) [(?ic, Patching ?c ?t (Suc 2) None)] [] False"
        "[]" ?ic ?c ?t 2 None "[]" lossy] one_patch [of "''c''" "[?c]" 0] P by (simp add: numeral_3_eq_3)
  have a5: "?R (one_sys ([ex_node ''c'' 0], 1) (one_ctl one_full {''c''} [] ?l1) (?p 2) [] False)
      (one_sys ([], 1) (one_ctl one_full {''c''} [] ?l1) (?p 2) [ex_node ''c'' 0] True)"
    using node_deleted [of fst "one_sys ([ex_node ''c'' 0], 1) (one_ctl one_full {''c''} [] ?l1) (?p 2) [] False"
        "[]" "ex_node ''c'' 0" "[]" "([], 1)" "ex_node ''c'' 0" lossy]
    by (simp add: lost_reply_def one_item_def P v4_text)
  have a6: "?R\<^sup>*\<^sup>* (one_sys ([], 1) (one_ctl one_full {''c''} [] ?l1) (?p 2) [ex_node ''c'' 0] True)
      (one_sys ([], 1) (one_ctl one_free {''c''} [] ?l2) (?p 2) [] True)"
    using delete_run [of "one_sys ([], 1) (one_ctl one_full {''c''} [] ?l1) (?p 2) [ex_node ''c'' 0] True"
        "[]" "ex_node ''c'' 0" "[]" lossy] one_release by simp
  have a7: "?R (one_sys ([], 1) (one_ctl one_free {''c''} [] ?l2) (?p 2) [] True)
      (one_sys ([?c], 1) (one_ctl one_free {''c''} [] ?l2) (?p 2) [] True)"
    using node_created [of fst "([?c], 1)" "one_sys ([], 1) (one_ctl one_free {''c''} [] ?l2) (?p 2) [] True" ?c lossy] P by simp
  have fin: "?R (one_sys w (one_ctl st pr ch log) [(one_item nm, Dropping (Suc 0))] [] True)
      (one_sys w (one_ctl st (pr - {nm}) ch log) [] [] True)" for w st pr ch log nm
    using worker_dropped [of "one_sys w (one_ctl st pr ch log) [(one_item nm, Dropping (Suc 0))] [] True"
        "[]" "one_item nm" "Suc 0" "[]" lossy fst] by (simp add: one_item_def)
  have a8: "?R (one_sys ([?c], 1) (one_ctl one_free {''c''} [] ?l2) (?p 2) [] True)
      (one_sys ([ex_node ''c'' 0], 2) (one_ctl one_free {''c''} [] ?l2) [(?ic, Dropping (Suc 0))] [] True)"
    using worker_patch [of "one_sys ([?c], 1) (one_ctl one_free {''c''} [] ?l2) [(?ic, Patching ?c ?t (Suc 1) (Some ?e))] [] True"
        "[]" ?ic ?c ?t 1 "Some ?e" "[]" lossy "()"] one_patch [of "''c''" "[?c]" 1] P
    by (simp add: numeral_2_eq_2 one_item_def)
  have b8: "?R\<^sup>*\<^sup>* (one_sys ([?c], 1) (one_ctl one_free {''c''} [] ?l2) (?p 2) [] True)
      (one_sys ([ex_node ''c'' 0], 2) (one_ctl one_free {} [] ?l2) [] [] True)"
    using two_steps [OF a8 fin] by simp
  have a9: "?R (one_sys ([ex_node ''c'' 0], 2) (one_ctl one_free {} [] ?l2) [] [] True)
      (one_sys ([ex_node ''c'' 0, ?d], 2) (one_ctl one_free {} [] ?l2) [] [] True)"
    using node_created [of fst "([ex_node ''c'' 0, ?d], 2)" "one_sys ([ex_node ''c'' 0], 2) (one_ctl one_free {} [] ?l2) [] [] True" ?d lossy] P
    by simp
  have a10: "?R\<^sup>*\<^sup>* (one_sys ([ex_node ''c'' 0, ?d], 2) (one_ctl one_free {} [] ?l2) [] [] True)
      (one_sys ([ex_node ''c'' 0, ?d], 2) (one_ctl one_full {''d''} [one_item ''d''] ?l3) [] [] True)"
    using handler_run [of lossy True ?d "one_sys ([ex_node ''c'' 0, ?d], 2) (one_ctl one_free {} [] ?l2) [] [] True" "Returned (Inr ())"] one_event P
    by simp
  have a11: "?R\<^sup>*\<^sup>* (one_sys ([ex_node ''c'' 0, ?d], 2) (one_ctl one_full {''d''} [one_item ''d''] ?l3) [] [] True)
      (one_sys ([ex_node ''c'' 0, ?d], 2) (one_ctl one_full {''d''} [] ?l3) [(one_item ''d'', Patching ?d ?t 3 None)] [] True)"
    by (rule one_reads) (simp_all add: P)
  have a12: "?R (one_sys ([ex_node ''c'' 0, ?d], 2) (one_ctl one_full {''d''} [] ?l3) [(one_item ''d'', Patching ?d ?t 3 None)] [] True)
      (one_sys ([ex_node ''c'' 0, ex_node ''d'' 0], 3) (one_ctl one_full {''d''} [] ?l3) [(one_item ''d'', Dropping (Suc 0))] [] True)"
    using worker_patch [of "one_sys ([ex_node ''c'' 0, ?d], 2) (one_ctl one_full {''d''} [] ?l3) [(one_item ''d'', Patching ?d ?t (Suc 2) None)] [] True"
        "[]" "one_item ''d''" ?d ?t 2 None "[]" lossy "()"] one_patch [of "''d''" "[ex_node ''c'' 0, ?d]" 2] P
    by (simp add: numeral_3_eq_3 one_item_def)
  have b12: "?R\<^sup>*\<^sup>* (one_sys ([ex_node ''c'' 0, ?d], 2) (one_ctl one_full {''d''} [] ?l3) [(one_item ''d'', Patching ?d ?t 3 None)] [] True)
      (one_sys ([ex_node ''c'' 0, ex_node ''d'' 0], 3) (one_ctl one_full {} [] ?l3) [] [] True)"
    using two_steps [OF a12 fin] by simp
  note single = converse_rtranclp_into_rtranclp [where r = ?R]
  have "?R\<^sup>*\<^sup>* (one_sys ([], 0) (one_ctl one_free {} [] []) [] [] False)
     (one_sys ([ex_node ''c'' 0, ex_node ''d'' 0], 3) (one_ctl one_full {} [] ?l3) [] [] True)"
    by (rule single [OF a1], rule rtranclp_trans [OF a2], rule rtranclp_trans [OF a3], rule single [OF a4],
        rule single [OF a5], rule rtranclp_trans [OF a6], rule single [OF a7],
        rule rtranclp_trans [OF b8], rule single [OF a9], rule rtranclp_trans [OF a10], rule rtranclp_trans [OF a11], rule b12)
  then show ?thesis by blast
qed

text \<open>
  C23: Without the exception of a lost reply the safety of runs does not hold: an attempt that is
  repeated after a lost reply patches the node by its name only, and the node may have been
  deleted and created again in between. There are clients within their contract, a start and a
  run without a given-up update after which two nodes have the same block of the cluster CIDR.
\<close>

theorem lost_reply_duplicates:
  "\<exists>(env :: (Node list \<times> nat) api) cluster c0 s0 s a b. clients_ok env cluster \<and> sys_start env cluster c0 s0
    \<and> (sys_step env cluster)\<^sup>*\<^sup>* s0 s \<and> \<not> gave_up (ctl s) \<and> cluster (world s) = [a, b]
    \<and> Name a \<noteq> Name b \<and> node_nets a = [ex_host 0] \<and> node_nets b = [ex_host 0]"
proof -
  let ?a = "ex_node ''c'' 0" and ?b = "ex_node ''d'' 0"
  obtain log where run: "(sys_step lossy fst)\<^sup>*\<^sup>* (one_sys ([], 0) (one_ctl one_free {} [] []) [] [] False)
     (one_sys ([?a, ?b], 3) (one_ctl one_full {} [] log) [] [] True)"
    using lost_run by blast
  have "Name ?a \<noteq> Name ?b" by (simp add: ex_node_def)
  moreover have "\<not> gave_up (ctl (one_sys ([?a, ?b], 3) (one_ctl one_full {} [] log) [] [] True))"
    by (simp add: gave_up_def)
  ultimately show ?thesis
    using lossy_clients one_sys_start run by (intro exI conjI) (assumption | simp)+
qed

subsection \<open>IPv6 mode\<close>

text \<open>Nothing is occupied or released for a node whose CIDRs are IPv6.\<close>

lemma ipv6_prefix_parse:
  assumes "ipv6_prefix t" "ip_family_ok env"
  obtains n where "ParseCIDR t = Some n" "api_IsIPv6CIDR env n"
proof -
  obtain a k ip where t: "t = a @ ''/'' @ Itoa k" "CHR ''/'' \<notin> set a" "k \<le> 128"
    "ParseAddr a = Some (Addr6 ip [])" "length ip = 16" "to4 ip = []"
    using assms(1) by (auto simp: ipv6_prefix_def)
  obtain n where n: "ParseCIDR t = Some n" "canon 16 k n" using ParseCIDR_v6 [OF t(2,4-6,3)] t(1) by blast
  then have "api_IsIPv6CIDR env n"
    using assms(2) canonD(1) [OF n(2)] by (auto simp: ip_family_ok_def is_canon_def)
  with n(1) that show thesis by blast
qed

text \<open>
  C25: In IPv6 mode the blocks of a reservation are lost. An update that succeeds wrote one IPv6
  prefix into the node, left the sets as they were (the reserved blocks in use) and took the
  node out of processing; and when that node is deleted later, its release changes nothing.
\<close>

theorem ipv6_mode_leaks:
  assumes "clients_ok env cluster" "mode c = IPv6"
    "0 \<le> nodeCIDRMaskSizeIPv6 c" "nodeCIDRMaskSizeIPv6 c \<le> 128"
    "PodCIDRs node = []" "reservedCIDRs item \<noteq> []" "Name node = nodeName item"
    "updateNode env item node c w = (Inr (), c', w')"
  shows "cidrSets c' = cidrSets c \<and> nodesInProcessing c' = nodesInProcessing c - {nodeName item}
    \<and> (\<exists>t. ipv6_prefix t \<and> (\<forall>n\<in>set (cluster w'). Name n = nodeName item \<longrightarrow>
         PodCIDRs n = [t] \<and> ReleaseCIDR env (Some n) c' = (Inr (), c')))"
proof -
  let ?ts = "cidrsAsString (reservedCIDRs item)"
  have cl: "ip_family_ok env" "api_contract env cluster" "ec2_prefixes_ok env"
    using assms(1) by (simp_all add: clients_ok_def)
  have ne: "?ts \<noteq> []" using assms(6) by (simp add: cidrsAsString_def)
  obtain x w1 where n: "nodeCIDRs env node ?ts c w = (x, w1)" by (rule prod.exhaust)
  obtain ts where x: "x = Inr ts" using assms(5,8) ne n by (cases x) (auto simp: updateNode_def Let_def)
  obtain p a where a: "fetchIPv6Address env node w = (Inr p, w1)"
      "changeNetmask p (fmt_int (nodeCIDRMaskSizeIPv6 c)) = Inr a" "ts = [a]"
    using n x assms(2) by (auto simp: nodeCIDRs_def IPv6_def DualStack_def split: prod.splits sum.splits)
  have pa: "ipv6_prefix a"
    by (rule changeNetmask_ipv6 [OF fetchIPv6Address_prefix [OF cl(3) a(1)] assms(3,4) a(2)])
  have t: "texts_for (mode c) (reservedCIDRs item) [a]"
    using ipv6_prefix_std [OF pa] assms(2) by (simp add: texts_for_def IPv6_def DualStack_def)
  obtain err w2 where q: "patchLoop env node c cidrUpdateRetries None [a] w1 = (err, w2)" by (rule prod.exhaust)
  have "\<exists>e. r = Inl e" if "giveUp env node item e c = (r, d)" for e r d
    using that by (auto simp: giveUp_def Let_def split: if_splits prod.splits sum.splits)
  then have "err = None" "w2 = w'" and c': "c' = removeNodeFromProcessing (nodeName item) c"
    using assms(5,8) ne [symmetric] n x a(3) q
    by (auto simp: updateNode_def Let_def split: option.splits go_err.splits prod.splits)
  then have v: "view (cluster w') = set_cidrs (nodeName item) [a] (view (cluster w1))"
    using patchLoop_exact [OF cl(2) t, of node cidrUpdateRetries undefined w1 w'] q assms(2,7)
    by (simp add: cidrUpdateRetries_def IPv6_def DualStack_def)
  have "PodCIDRs m = [a]" if "m \<in> set (cluster w')" "Name m = nodeName item" for m
  proof -
    have "(Name m, PodCIDRs m) \<in> set (view (cluster w'))" using that(1) mem_view by blast
    then show ?thesis
      using set_cidrs_mem [of "(Name m, PodCIDRs m)" "nodeName item" "[a]" "view (cluster w1)"] that(2) v by auto
  qed
  moreover have "ReleaseCIDR env (Some m) c' = (Inr (), c')" if "PodCIDRs m = [a]" for m
  proof -
    obtain k where "ParseCIDR a = Some k" "api_IsIPv6CIDR env k" by (rule ipv6_prefix_parse [OF pa cl(1)])
    then show ?thesis using that by (simp add: ReleaseCIDR_def)
  qed
  ultimately show ?thesis using pa c' by auto
qed

definition ex_v6_alloc :: cidrAllocator where
  "ex_v6_alloc = ex_queued\<lparr>mode := IPv6\<rparr>"

theorem ipv6_mode_leaks_witness:
  "\<exists>c' w'. updateNode ex_env ex_item ex_instance ex_v6_alloc [ex_instance] = (Inr (), c', w')
    \<and> cidrSets c' = [ex_reserved] \<and> ReleaseCIDR ex_env (Some (hd w')) c' = (Inr (), c')"
proof -
  note f = ex_instance_prefix
  have m: "mode ex_v6_alloc = IPv6" "nodeCIDRMaskSizeIPv6 ex_v6_alloc = 80" "cidrSets ex_v6_alloc = [ex_reserved]"
    by (simp_all add: ex_v6_alloc_def ex_queued_def ex_started_def ex_alloc_def)
  have "Itoa 80 = ''80''" by code_simp
  then have "changeNetmask ''2001:db8::/80'' (fmt_int 80) = Inr ''2001:db8::/80''"
    using changeNetmask_text [of "''2001:db8::''" 80 80] by simp
  then have nc: "nodeCIDRs ex_env ex_instance ts ex_v6_alloc w = (Inr [''2001:db8::/80''], w)" for ts w
    by (simp add: nodeCIDRs_def f m IPv6_def DualStack_def)
  obtain r c' w' where u: "updateNode ex_env ex_item ex_instance ex_v6_alloc [ex_instance] = (r, c', w')"
    by (rule prod_cases3)
  have v: "PodCIDRs ex_instance = []" "Name ex_instance = ''c''" "cidrsAsString (reservedCIDRs ex_item) \<noteq> []"
    by (simp_all add: ex_instance_def ex_fresh_def cidrsAsString_def ex_item_def)
  have "\<exists>x. patchLoop ex_env ex_instance ex_v6_alloc 3 None [''2001:db8::/80''] [ex_instance] = (None, [x]) \<and> Name x = ''c''"
    using v m by (simp add: numeral_3_eq_3 PatchNodePodCIDRs_def order_cidrs_def ex_env_def patched_def
        merge_patch_def IPv6_def Let_def split: option.split)
  then have r: "r = Inr ()" "\<exists>x. w' = [x] \<and> Name x = ''c''"
    using u v v(3) [symmetric] by (auto simp: updateNode_def nc cidrUpdateRetries_def)
  obtain x where x: "w' = [x]" "Name x = ''c''" using r(2) by blast
  show ?thesis
    using ipv6_mode_leaks [OF ex_clients m(1) _ _ v(1) _ _ u [unfolded r(1)]] m u r v(2) x
    by (auto simp: ex_item_def)
qed

subsection \<open>An IPv4-mapped cluster CIDR\<close>

text \<open>
  C26: A cluster CIDR of IPv4-mapped addresses, such as \<open>::ffff:10.0.0.0/104\<close>, is accepted and gives
  every node the same block. \<open>NewCIDRSet\<close> takes it for IPv4 and checks no bound, the block
  computation reads the first four of its 16 bytes, which are zero, and shifts the index out of the
  word: every index has the block \<open>0.0.0.0\<close>, outside of the cluster CIDR, and two allocations in a
  row succeed with one and the same network.
\<close>

theorem mapped_cluster_one_block:
  assumes "length (IP cidr) = 16" "take 12 (IP cidr) = v4InV6Prefix" "mask_Size (Mask cidr) = (int m, 128)"
    "96 \<le> m" "m < n" "n \<le> 128"
  shows "\<exists>s s1 s2 ms1 ms2. NewCIDRSet cidr (int n) reg = (Inr s, registerCidrsetMetrics reg) \<and> maxCIDRs s = 2 ^ (n - m)
    \<and> (\<forall>i. indexToCIDRBlock s i = \<lparr>IP = [0, 0, 0, 0], Mask = CIDRMask (int n) 128\<rparr>)
    \<and> AllocateNext s = (Inr (indexToCIDRBlock s 0), s1, ms1)
    \<and> AllocateNext s1 = (Inr (indexToCIDRBlock s 0), s2, ms2)"
proof -
  let ?b = "\<lparr>IP = [0, 0, 0, 0], Mask = CIDRMask (int n) 128\<rparr>"
  have t4: "to4 (IP cidr) \<noteq> []" using assms(1,2) by (simp add: to4_def ip_len)
  have "nat (int n - int m) = n - m" by simp
  then have u: "uint32_of (int n - int m) = n - m" using assms(5,6) by simp
  have mx: "sint (go_shl (1 :: 64 word) (n - m)) = 2 ^ (n - m)"
    using assms(4,6) by (intro sint_go_shl_1) simp
  obtain s where s: "NewCIDRSet cidr (int n) reg = (Inr s, registerCidrsetMetrics reg)" "clusterCIDR s = cidr"
    "nodeMask s = CIDRMask (int n) 128" "nodeMaskSize s = int n" "maxCIDRs s = 2 ^ (n - m)"
    "allocatedCIDRs s = 0" "nextCandidate s = 0" "used s = 0"
    using t4 u mx by (auto simp: NewCIDRSet_def assms(3) Let_def split: prod.splits)
  have "take 4 (IP cidr) = take 4 (take 12 (IP cidr))" by simp
  then have z: "take 4 (IP cidr) = [0, 0, 0, 0]"
    unfolding assms(2) by (simp add: v4InV6Prefix_def numeral_eq_Suc)
  have l: "load_be [0, 0, 0, 0] = (0 :: 32 word)" by code_simp
  have p: "put_uint32 0 = [0, 0, 0, 0]" by code_simp
  have "(32 - int n) mod 2 ^ 32 = (32 - int n + 2 ^ 32) mod 2 ^ 32" by (rule mod_add_self2 [symmetric])
  also have "\<dots> = 32 - int n + 2 ^ 32" using assms(4-6) by (intro mod_pos_pos_trivial) simp_all
  finally have "32 \<le> uint32_of (32 - int n)" using assms(6) by (simp add: uint32_of_def)
  then have j: "go_shl w (uint32_of (32 - int n)) = (0 :: 32 word)" for w by (simp add: go_shl_def)
  have b: "indexToCIDRBlock t i = ?b" if "clusterCIDR t = cidr" "nodeMask t = nodeMask s" "nodeMaskSize t = int n" for t i
    using that t4 s(3) by (simp add: indexToCIDRBlock_def blockIPv4_def z l p j)
  let ?s1 = "s\<lparr>nextCandidate := 1, used := 1, allocatedCIDRs := 1\<rparr>"
  have two: "2 \<le> (2::int) ^ (n - m)" using assms(5) by (intro self_le_power) simp_all
  have f: "findCandidate 0 (2 ^ (n - m)) 0 0 = (0, 0)" "findCandidate 1 (2 ^ (n - m)) 0 1 = (1, 0)"
    using assms(5) by (simp_all add: findCandidate.simps [of _ _ 0] big_Bit_def)
  have r: "1 smod (2::int) ^ (n - m) = 1" using assms(5) by (simp add: signed_modulo_int_def)
  have a1: "AllocateNext s = (Inr ?b, ?s1, [AllocationsInc (label s), TriesObserve (label s) 0, UsageSet (label s) 1 (2 ^ (n - m))])"
    using s f(1) r b by (simp add: AllocateNext_def Let_def big_SetBit_def)
  obtain s2 ms2 where a2: "AllocateNext ?s1 = (Inr ?b, s2, ms2)"
    using s(2-5) two f(2) b by (simp add: AllocateNext_def Let_def big_SetBit_def)
  show ?thesis
    using s(1-5) b [of s] a1 a2 by (intro exI conjI) auto
qed

definition ex_mapped :: IPNet where
  "ex_mapped = \<lparr>IP = v4InV6Prefix @ [10, 0, 0, 0], Mask = CIDRMask 104 128\<rparr>"

lemma ex_mapped_groups:
  "groups_loop (Suc (Suc k)) ''ffff:10.0.0.0'' [] (Some 0) = Some ([], [255, 255, 10, 0, 0, 0], Some 0)"
proof -
  have "hex_group 0 0 ''ffff:10.0.0.0'' = Some (4, 65535, '':10.0.0.0'')"
    "hex_group 0 0 ''10.0.0.0'' = Some (2, 16, ''.0.0.0'')"
    by (simp_all add: hex_val_def)
  moreover have "parseIPv4Fields True 0 0 [] ''10.0.0.0'' = Some [10, 0, 0, 0]" by code_simp
  ultimately show ?thesis by (simp add: octets_def del: hex_group.simps parseIPv4Fields.simps)
qed

lemma ex_mapped_parses: "ParseCIDR ''::ffff:10.0.0.0/104'' = Some ex_mapped"
proof -
  have "replicate 10 (0 :: byte) = [0, 0, 0, 0, 0, 0, 0, 0, 0, 0]" by code_simp
  then have "ParseAddr ''::ffff:10.0.0.0'' = Some (Addr6 (v4InV6Prefix @ [10, 0, 0, 0]) [])"
    using ex_mapped_groups [of 6]
    by (simp add: ParseAddr_def parseIPv6_def v4InV6Prefix_def del: groups_loop.simps)
  moreover have "Itoa 104 = ''104''" by code_simp
  then have "mask_digits ''104'' = Some 104" using mask_digits_Itoa [of 104] by simp
  moreover have "ip_Mask (v4InV6Prefix @ [10, 0, 0, 0]) (CIDRMask 104 128) = v4InV6Prefix @ [10, 0, 0, 0]" by code_simp
  ultimately show ?thesis by (simp add: ParseCIDR_def ex_mapped_def)
qed

theorem mapped_cluster_one_block_witness:
  "ParseCIDR ''::ffff:10.0.0.0/104'' = Some ex_mapped
    \<and> (\<exists>s s1 s2 ms1 ms2 b. NewCIDRSet ex_mapped 112 False = (Inr s, registerCidrsetMetrics False) \<and> maxCIDRs s = 256
        \<and> AllocateNext s = (Inr b, s1, ms1) \<and> AllocateNext s1 = (Inr b, s2, ms2) \<and> IP b = [0, 0, 0, 0])"
proof -
  have m: "mask_Size (Mask ex_mapped) = (int 104, 128)" by code_simp
  have c: "length (IP ex_mapped) = 16" "take 12 (IP ex_mapped) = v4InV6Prefix"
    by (simp_all add: ex_mapped_def v4InV6Prefix_def)
  obtain s s1 s2 ms1 ms2 where s: "NewCIDRSet ex_mapped (int 112) False = (Inr s, registerCidrsetMetrics False)"
    "maxCIDRs s = 2 ^ (112 - 104)" "indexToCIDRBlock s 0 = \<lparr>IP = [0, 0, 0, 0], Mask = CIDRMask (int 112) 128\<rparr>"
    "AllocateNext s = (Inr (indexToCIDRBlock s 0), s1, ms1)" "AllocateNext s1 = (Inr (indexToCIDRBlock s 0), s2, ms2)"
    using mapped_cluster_one_block [OF c m, of 112 False] by auto
  then show ?thesis using ex_mapped_parses by auto
qed

subsection \<open>A node that is gone\<close>

lemma absent_round:
  assumes "nodeCIDRUpdateChannel c = [item]" "0 < tickPeriod c"
    "api_Get env (nodeName item) w = (Inl e, w')" "\<And>p. e \<noteq> GoPanic p"
  shows "worker_round env c w = (Requeued e, c, w')"
proof -
  have u: "updateCIDRsAllocation env item (c\<lparr>nodeCIDRUpdateChannel := []\<rparr>) w
      = (Inl e, c\<lparr>nodeCIDRUpdateChannel := []\<rparr>, w')"
    using assms(2,3) by (simp add: updateCIDRsAllocation_def)
  have "c\<lparr>nodeCIDRUpdateChannel := [item]\<rparr> = c" using assms(1) by (cases c) simp
  then show ?thesis
    using assms(1,4) u by (cases e) (auto simp: worker_round_def queueAfterWait_def CidrUpdateQueueSize_def)
qed

text \<open>
  C27: A reservation for a node that was deleted before its patch never leaves the channel. As long
  as the API server answers the read of the node with an error, every round of a worker puts the
  item back and changes nothing: after any number of rounds the blocks are in use, the node is in
  processing, and every later add event for a node of this name is ignored.
\<close>

theorem absent_node_never_ends:
  assumes "nodeCIDRUpdateChannel c = [item]" "0 < tickPeriod c"
    "\<forall>w. \<exists>e w'. api_Get env (nodeName item) w = (Inl e, w') \<and> (\<forall>p. e \<noteq> GoPanic p)"
    "nodeName item \<in> nodesInProcessing c"
  shows "\<exists>w'. ((\<lambda>(c, w). snd (worker_round env c w)) ^^ k) (c, w) = (c, w')
    \<and> (\<forall>b node. Name node = nodeName item \<longrightarrow>
         AllocateOrOccupyCIDR env b (Some node) c = (Returned (Inr ()), c))"
proof -
  have "\<exists>w'. ((\<lambda>(c, w). snd (worker_round env c w)) ^^ k) (c, w) = (c, w')"
  proof (induction k)
    case (Suc k)
    then obtain w1 where w1: "((\<lambda>(c, w). snd (worker_round env c w)) ^^ k) (c, w) = (c, w1)" by blast
    obtain e w2 where e: "api_Get env (nodeName item) w1 = (Inl e, w2)" "\<forall>p. e \<noteq> GoPanic p" using assms(3) by blast
    have "worker_round env c w1 = (Requeued e, c, w2)"
      by (rule absent_round [OF assms(1,2) e(1)]) (use e(2) in blast)
    then show ?case using w1 by simp
  qed simp
  moreover have "AllocateOrOccupyCIDR env b (Some node) c = (Returned (Inr ()), c)"
    if "Name node = nodeName item" for b node
    using that assms(4) by (simp add: AllocateOrOccupyCIDR_def insertNodeToProcessing_def)
  ultimately show ?thesis by blast
qed

text \<open>Clients whose API server knows no node.\<close>

definition ex_empty :: "Node list api" where
  "ex_empty = ex_env\<lparr>api_Get := (\<lambda>n w. (Inl (StatusError ''NotFound''), w))\<rparr>"

theorem absent_node_never_ends_witness:
  "\<exists>w'. ((\<lambda>(c, w). snd (worker_round ex_empty c w)) ^^ 1000) (ex_queued, []) = (ex_queued, w')
    \<and> AllocateOrOccupyCIDR ex_empty True (Some (ex_fresh ''c'')) ex_queued = (Returned (Inr ()), ex_queued)"
  using absent_node_never_ends [of ex_queued ex_item ex_empty 1000 "[]"]
  by (auto simp: ex_empty_def ex_queued_def ex_item_def ex_started_def ex_alloc_def ex_fresh_def)

subsection \<open>A change of leader\<close>

text \<open>
  C24: A replica that takes over as leader can free the blocks of a live node. Its handlers run
  before it is elected, and the call for a new node then blocks until \<open>Start\<close> has reconciled, with the later
  events of the informer behind it. When the former leader has meanwhile given the CIDRs of a
  deleted node to another one, \<open>Start\<close> marks them for that node, and the deletion that is
  reported next takes them out of use: the sets regard the blocks of a listed node as free.
\<close>

theorem failover_frees_live_blocks:
  assumes "ip_family_ok env" "alloc_inv c0"
    "AllocateOrOccupyCIDR env b (Some new) c0 = (WaitReconcile, c)"
    "api_List env w = (Inr nodes, w')" "\<forall>n\<in>set nodes. std_cidrs (PodCIDRs n)"
    "Start env True c w = (Inr (), c1, w'')" "node \<in> set nodes" "PodCIDRs gone = PodCIDRs node"
  shows "\<exists>c2. DeleteFunc env (NodeObj gone) (c1, calls) = (Inr [], (c2, calls)) \<and> reconcileReady c1
    \<and> (\<forall>i < length (cidrSets c). net_cells c 0 (node_nets node) i \<subseteq> used_at c1 i
         \<and> net_cells c 0 (node_nets node) i \<inter> used_at c2 i = {})"
proof -
  have inv: "alloc_inv c" using AllocateOrOccupyCIDR_extends [OF assms(2,3)] by (simp add: extends_def)
  have nr: "\<not> reconcileReady c"
    using assms(3) by (auto simp: AllocateOrOccupyCIDR_def insertNodeToProcessing_def allocateAfterWait_def
        allocateAfterWaitNoCtx_def allocateAndQueue_def queueAfterWait_def Let_def
        split: if_splits prod.splits sum.splits cidr_error.splits)
  note o = Start_outcome [OF assms(1) inv nr assms(4,5)]
  have f: "\<forall>n\<in>set nodes. nets_fit c 0 (node_nets n)" using o assms(6) by (auto split: if_splits)
  then have u: "reconcileReady c1" "\<forall>i < length (cidrSets c). net_cells c 0 (node_nets node) i \<subseteq> used_at c1 i"
    using o assms(6,7) by auto
  obtain d where d: "reconcileLoop env nodes (c\<lparr>startCtx := Some False\<rparr>) = (Inr (), d)"
    "c1 = d\<lparr>reconcileReady := True, workers := workers d + cidrUpdateWorkers\<rparr>"
    using assms(4,6) by (auto elim: Start_ready)
  have sd: "set_step (c\<lparr>startCtx := Some False\<rparr>) d" by (rule reconcileLoop_step [OF _ d(1)]) (use inv in simp)
  have e: "net_cells c1 = net_cells d" "nets_fit c1 = nets_fit d" "length (cidrSets c1) = length (cidrSets d)"
    "net_cells (c\<lparr>startCtx := Some False\<rparr>) = net_cells c" "nets_fit (c\<lparr>startCtx := Some False\<rparr>) = nets_fit c"
    by (auto simp: d(2) nets_fit_def net_cells_def cells_at_def fun_eq_iff)
  have same: "nets_fit c1 0 ns = nets_fit c 0 ns" "length (cidrSets c1) = length (cidrSets c)"
    "i < length (cidrSets c) \<Longrightarrow> net_cells c1 0 ns i = net_cells c 0 ns i" for ns i
    using nets_fit_step [OF sd] net_cells_step [OF sd] set_step_fields(12) [OF sd] by (simp_all add: e)
  have gone: "node_nets gone = node_nets node" "std_cidrs (PodCIDRs gone)"
    using assms(5,7,8) by (simp_all add: node_nets_def)
  have "alloc_inv c1" using set_step_inv [OF sd] by (simp add: d(2))
  then obtain c2 where c2: "ReleaseCIDR env (Some gone) c1 = (Inr (), c2)"
    "\<forall>i < length (cidrSets c1). used_at c2 i = used_at c1 i - net_cells c1 0 (node_nets gone) i"
    by (rule ReleaseCIDR_fits [OF assms(1) gone(2)]) (use f assms(7) in \<open>auto simp: same gone(1)\<close>)
  have "DeleteFunc env (NodeObj gone) (c1, calls) = (Inr [], (c2, calls))"
    by (simp add: DeleteFunc_def CreateDeleteNodeHandler_def release_callback_def handle_result_def c2(1))
  then show ?thesis using u c2(2) by (auto simp: same gone(1))
qed

text \<open>Node \<open>a\<close> had the first block, which the former leader gave to \<open>b\<close>; \<open>n\<close> is new.\<close>

definition ex_standby :: cidrAllocator where
  "ex_standby = ex_alloc\<lparr>cidrSets := [ex_used 1 1]\<rparr>"

theorem failover_frees_live_blocks_witness:
  "\<exists>c c1 c2. AllocateOrOccupyCIDR ex_env True (Some (ex_fresh ''n'')) ex_standby = (WaitReconcile, c)
    \<and> Start ex_env True c [ex_node ''b'' 0] = (Inr (), c1, [ex_node ''b'' 0])
    \<and> DeleteFunc ex_env (NodeObj (ex_node ''a'' 0)) (c1, []) = (Inr [], (c2, []))
    \<and> 0 \<in> used_at c1 0 \<and> 0 \<notin> used_at c2 0"
proof -
  let ?c = "ex_standby\<lparr>nodesInProcessing := {''n''}\<rparr>" and ?b = "ex_node ''b'' 0"
  have a: "AllocateOrOccupyCIDR ex_env True (Some (ex_fresh ''n'')) ex_standby = (WaitReconcile, ?c)"
    by (simp add: AllocateOrOccupyCIDR_def insertNodeToProcessing_def allocateAfterWaitNoCtx_def
        ex_fresh_def ex_standby_def ex_alloc_def)
  have u: "cset_inv (ex_used 1 1)" "cells_of (ex_used 1 1) (ex_host 0) = {0}"
    using Occupy_any [OF ex_set_inv(1) ex_occupy(1)] cs.same_cells [of ex_set "ex_used 1 1"] ex_cells [of 0]
    by simp_all
  then have inv: "alloc_inv ex_standby" by (simp add: alloc_inv_def ex_standby_def)
  have o: "Occupy (ex_used 1 1) (Some (ex_host 0)) = (Inr (), ex_used 1 1, [UsageSet ''10.0.0.0/30'' 1 4])"
    by code_simp
  have v4: "\<not> api_IsIPv6CIDR ex_env (ex_host i)" for i by (simp add: ex_env_def)
  have l: "api_List ex_env w = (Inr w, w)" for w by (simp add: ex_env_def)
  have st: "\<exists>c1. Start ex_env True ?c [?b] = (Inr (), c1, [?b])"
    by (simp add: Start_def reconcileState_def l ex_node_def occupyCIDRsWithoutRemoval_def
        v4 on_set_def o [unfolded One_nat_def] ex_alloc_def ex_standby_def)
  then obtain c1 where c1: "Start ex_env True ?c [?b] = (Inr (), c1, [?b])" by blast
  have nc: "net_cells ?c 0 (node_nets ?b) 0 = {0}" "length (cidrSets ?c) = 1"
    using u(2) by (simp_all add: net_cells_def cells_at_def ex_standby_def)
  have "PodCIDRs (ex_node ''a'' 0) = PodCIDRs ?b" "\<forall>n\<in>set [?b]. std_cidrs (PodCIDRs n)" "?b \<in> set [?b]"
    by simp_all (simp add: ex_node_def)
  from failover_frees_live_blocks [OF ex_family inv a l this(2) c1 this(3,1), of "[]"]
  show ?thesis using a c1 nc by (auto simp: nc(1))
qed

end
