(* ===== verification/ProgramTheorems.thy ===== *)
theory ProgramTheorems
  imports AllocatorTheorems
begin

text \<open>
  The theorems on the other packages and on the program as a whole: the node patch and the
  informer handlers (\<open>pkg/node\<close>), the credentials (\<open>pkg/updater\<close>), the logger, and the start of
  the program (\<open>main.go\<close>).
\<close>

subsection \<open>Nodes\<close>

text \<open>
  C36: The patch of a dual-stack node puts the primary family first, whatever the order of the two
  CIDRs: one request, for this node, whose \<open>podCIDR\<close> is the CIDR of the primary family and
  whose \<open>podCIDRs\<close> are that and the other.
\<close>

theorem patch_primary_first:
  assumes "CHR '':'' \<notin> set a" "CHR '':'' \<in> set b" "cidr = [a, b] \<or> cidr = [b, a]"
    "ps = (if fam = ''ipv6'' then [b, a] else [a, b])"
    "patch (Name node) (JObject [(''spec'', JObject [(''podCIDR'', JString (hd ps)),
       (''podCIDRs'', JArray (map JString ps))])]) w = (None, w')" "a \<noteq> []"
  shows "PatchNodePodCIDRs patch w node cidr DualStack fam = (Inr (), w', ps)"
proof -
  have "order_cidrs cidr DualStack fam = ps"
    using assms(1-4) by (auto simp: order_cidrs_def DualStack_def family_key_def)
  moreover have "b \<noteq> []" using assms(2) by auto
  ultimately show ?thesis
    using assms(4-6)
    by (auto simp: PatchNodePodCIDRs_def Let_def marshal_patch_def marshal_spec_def split: if_splits)
qed

theorem patch_primary_first_witness:
  "PatchNodePodCIDRs (\<lambda>n j w. (None, (n, j) # w)) [] (ex_fresh ''c'') [''10.0.0.2/32'', ''2001:db8::/80''] DualStack ''ipv6''
    = (Inr (), [(''c'', JObject [(''spec'', JObject [(''podCIDR'', JString ''2001:db8::/80''),
         (''podCIDRs'', JArray [JString ''2001:db8::/80'', JString ''10.0.0.2/32''])])])],
       [''2001:db8::/80'', ''10.0.0.2/32''])"
  using patch_primary_first [of "''10.0.0.2/32''" "''2001:db8::/80''" "[''10.0.0.2/32'', ''2001:db8::/80'']"
    "[''2001:db8::/80'', ''10.0.0.2/32'']" "''ipv6''" "\<lambda>n j w. (None, (n, j) # w)" "ex_fresh ''c''" "[]"]
  by (simp add: ex_fresh_def)

text \<open>
  The delete handler accepts what the informer may hand it: a node seen through a tombstone is
  released as the node itself, any other object is skipped without an effect, and the handler
  panics only when the release does.
\<close>

lemma delete_handler_cases:
  "DeleteFunc env (DeletedFinalStateUnknown (NodeObj node)) s = DeleteFunc env (NodeObj node) s
    \<and> DeleteFunc env (OtherObj t) s = (Inr [], s) \<and> DeleteFunc env (DeletedFinalStateUnknown (OtherObj t)) s = (Inr [], s)
    \<and> (\<forall>obj p. fst (DeleteFunc env obj s) = Inl p \<longrightarrow> (\<exists>node. fst (ReleaseCIDR env (Some node) (fst s)) = Inl (GoPanic p)))"
proof -
  have h: "\<exists>node. fst (ReleaseCIDR env (Some node) (fst s)) = Inl (GoPanic p)"
    if "fst (handle_result msg (release_callback env node s)) = Inl p" for msg node p
    using that
    by (intro exI [of _ node])
      (auto simp: handle_result_def release_callback_def split: prod.splits sum.splits go_err.splits)
  have "\<exists>node. fst (ReleaseCIDR env (Some node) (fst s)) = Inl (GoPanic p)"
    if "fst (DeleteFunc env obj s) = Inl p" for obj p
    using that h by (auto simp: DeleteFunc_def CreateDeleteNodeHandler_def split: informer_obj.splits)
  then show ?thesis by (simp add: DeleteFunc_def CreateDeleteNodeHandler_def)
qed

text \<open>
  The update handler allocates for a node that has no CIDRs, as the add handler does, and
  leaves the allocator and the blocked calls untouched for a node that has some, so an update
  never takes a second block for a node that was served.
\<close>

lemma update_handler_cases:
  "UpdateFunc env b (NodeObj old) (NodeObj node) s
    = (if PodCIDRs node = []
       then handle_result ''error while processing Node Add/Delete: %v'' (allocate_callback env b node s)
       else (Inr [], s))"
  by (simp add: UpdateFunc_def CreateUpdateNodeHandler_def update_callback_def handle_result_def)

lemma find_condition_first:
  "case find_condition i conds t of
      (k, Some c) \<Rightarrow> (\<exists>n. k = int (i + n) \<and> n < length conds \<and> conds ! n = c \<and> condType c = t
        \<and> (\<forall>j < n. condType (conds ! j) \<noteq> t))
    | (k, None) \<Rightarrow> k = - 1 \<and> t \<notin> condType ` set conds"
proof (induction conds arbitrary: i)
  case (Cons c cs)
  show ?case
  proof (cases "condType c = t")
    case False
    obtain k x where f: "find_condition (Suc i) cs t = (k, x)" by (rule prod.exhaust)
    show ?thesis
    proof (cases x)
      case None
      then show ?thesis using Cons.IH [of "Suc i"] f False by auto
    next
      case (Some y)
      then obtain n where "k = int (Suc i + n)" "n < length cs" "cs ! n = y" "condType y = t"
        "\<forall>j < n. condType (cs ! j) \<noteq> t" using Cons.IH [of "Suc i"] f by auto
      moreover from this have "\<forall>j < Suc n. condType ((c # cs) ! j) \<noteq> t"
        using False by (simp add: All_less_Suc2)
      ultimately show ?thesis using f False Some by (auto intro!: exI [of _ "Suc n"])
    qed
  qed (auto intro!: exI [of _ 0])
qed simp

text \<open>
  \<open>GetNodeCondition\<close> finds the first condition of the type, with its index, and answers
  \<open>-1\<close> exactly when there is none.
\<close>

lemma first_condition:
  "case GetNodeCondition (Some conds) t of
      (i, Some c) \<Rightarrow> 0 \<le> i \<and> nat i < length conds \<and> conds ! nat i = c \<and> condType c = t
        \<and> (\<forall>j < nat i. condType (conds ! j) \<noteq> t)
    | (i, None) \<Rightarrow> i = - 1 \<and> t \<notin> condType ` set conds"
  using find_condition_first [where i = 0 and conds = conds and t = t]
  by (auto simp: GetNodeCondition_def split: prod.splits option.splits)

subsection \<open>Credentials\<close>

text \<open>
  C40: Exactly the complete secrets are accepted: one with a non-empty token file and role gives
  workload identity (also when static keys are present), one without a token file needs both
  static keys and gives an access key, and nothing else is accepted; the two are never both set.
\<close>

theorem accepted_secrets:
  "extractCredentials d = Inr c \<longleftrightarrow> (\<exists>m. d = Some m
    \<and> ((\<exists>file arn. m WorkloadIdentityTokenFile = Some file \<and> file \<noteq> [] \<and> m RoleARN = Some arn \<and> arn \<noteq> []
          \<and> c = \<lparr>cred_AccessKey = None,
                 cred_WorkloadIdentity = Some \<lparr>wi_TokenRetriever = \<lparr>fileName = file\<rparr>, wi_RoleARN = arn\<rparr>\<rparr>)
      \<or> (\<exists>i k. m WorkloadIdentityTokenFile = None \<and> m AccessKeyID = Some i \<and> m SecretAccessKey = Some k
          \<and> c = \<lparr>cred_AccessKey = Some \<lparr>ak_ID = i, ak_Secret = k\<rparr>, cred_WorkloadIdentity = None\<rparr>)))"
proof (cases d)
  case None
  then show ?thesis by (simp add: extractCredentials_def)
next
  case (Some m)
  show ?thesis
  proof (cases "m WorkloadIdentityTokenFile")
    case None
    then show ?thesis using Some extract_static [where m = m, OF None] by (auto split: option.splits)
  next
    case (Some tok)
    then show ?thesis using \<open>d = Some m\<close> extract_workload [where m = m, OF Some] by auto
  qed
qed

text \<open>
  C39: What the secret says is what EC2 is asked with: credentials that were loaded always give the
  client a provider (the error for missing credentials cannot occur), the one of their kind
  with their values, the configuration is loaded with it for the IPv6 endpoint mode, and the
  region of the client is the region of the flags.
\<close>

theorem loaded_credentials_are_used:
  assumes "LoadCredentials k kubeconfig ns secret = Inr cred"
  shows "NewAWSEC2V2 load cred region
    = (let p = (case cred_AccessKey cred of
          Some a \<Rightarrow> StaticCredentialsProvider (ak_ID a) (ak_Secret a) []
        | None \<Rightarrow> (let wi = the (cred_WorkloadIdentity cred)
            in WebIdentityRoleProvider region (wi_RoleARN wi) (wi_TokenRetriever wi)))
       in case load ''IPv6'' p of Inl e \<Rightarrow> Inl (ErrorfV ''error loading default AWS config: %v'' [] e)
          | Inr config \<Rightarrow> Inr (config\<lparr>Region := region\<rparr>))"
proof -
  obtain d where "extractCredentials d = Inr cred"
    using assms by (auto simp: LoadCredentials_def split: sum.splits if_splits)
  then have "one_kind cred" by (rule extract_one_kind)
  then show ?thesis by (auto simp: NewAWSEC2V2_def one_kind_def Let_def split: option.split)
qed

text \<open>Clients for a secret with static keys.\<close>

definition ex_kube :: "(unit, unit) kube" where
  "ex_kube = \<lparr>rest_InClusterConfig = Inr (), BuildConfigFromFlags = (\<lambda>m p. Inr ()), NewForConfig = (\<lambda>c. Inr ()),
     Secrets_Get = (\<lambda>c ns n. Inr (Some [AccessKeyID \<mapsto> ''id'', SecretAccessKey \<mapsto> ''key'']))\<rparr>"

definition ex_cred :: Credentials where
  "ex_cred = \<lparr>cred_AccessKey = Some \<lparr>ak_ID = ''id'', ak_Secret = ''key''\<rparr>, cred_WorkloadIdentity = None\<rparr>"

definition ex_load :: "string \<Rightarrow> CredentialsProvider \<Rightarrow> go_err + aws_Config" where
  "ex_load m p = Inr \<lparr>Region = [], Provider = Some p, IMDSEndpointMode = m\<rparr>"

lemma ex_loaded: "LoadCredentials ex_kube [] ''kube-system'' ''cloudprovider'' = Inr ex_cred"
  by (simp add: LoadCredentials_def ex_kube_def ex_cred_def extractCredentials_def getSecretDataValue_def
      secret_get_def AccessKeyID_def SecretAccessKey_def WorkloadIdentityTokenFile_def)

theorem loaded_credentials_are_used_witness:
  "LoadCredentials ex_kube [] ''kube-system'' ''cloudprovider'' = Inr ex_cred
    \<and> NewAWSEC2V2 ex_load ex_cred ''eu-1'' = Inr \<lparr>Region = ''eu-1'',
        Provider = Some (StaticCredentialsProvider ''id'' ''key'' []), IMDSEndpointMode = ''IPv6''\<rparr>"
  using loaded_credentials_are_used [OF ex_loaded, of ex_load "''eu-1''"] ex_loaded
  by (simp add: ex_cred_def ex_load_def)

subsection \<open>The program\<close>

text \<open>
  The flags for the log have no effect: the logger is made before the flags are parsed, so
  whatever \<open>log-level\<close> and \<open>log-format\<close> say, valid or not, the program runs the same way with the
  logger of the defaults.
\<close>

lemma log_flags_ignored:
  "main env k (f\<lparr>f_logLevel := level, f_logFormat := format\<rparr>) = main env k f"
proof -
  have "main_allocator env (f\<lparr>f_logLevel := level, f_logFormat := format\<rparr>) = main_allocator env f"
    by (intro ext) (simp add: main_allocator_def)
  then show ?thesis by (simp add: main_def manager_opts_def cong: sum.case_cong)
qed

lemma main_allocator_Finished:
  assumes "main_allocator env f cidrs l e = Finished log ec2 c"
  obtains sizes reg where
    "setNodeCIDRMaskSizes (m_netutils env) cidrs (f_nodeCIDRMaskSizeIPv4 f) (f_nodeCIDRMaskSizeIPv6 f) = Inr sizes"
    "NewCIDRRangeAllocator False \<lparr>ClusterCIDRs = cidrs, NodeCIDRMaskSizes = sizes\<rparr>
      (f_mode f) (f_tickPeriod f) (f_nodeCIDRMaskSizeIPv6 f) (f_primaryIPFamily f) False = (Inr c, reg)" "e = ec2"
proof -
  obtain sizes where s: "setNodeCIDRMaskSizes (m_netutils env) cidrs (f_nodeCIDRMaskSizeIPv4 f)
      (f_nodeCIDRMaskSizeIPv6 f) = Inr sizes"
    using assms by (auto simp: main_allocator_def)
  obtain r reg where n: "NewCIDRRangeAllocator False \<lparr>ClusterCIDRs = cidrs, NodeCIDRMaskSizes = sizes\<rparr>
      (f_mode f) (f_tickPeriod f) (f_nodeCIDRMaskSizeIPv6 f) (f_primaryIPFamily f) False = (r, reg)" by (rule prod.exhaust)
  show thesis
  proof (cases r)
    case (Inl err)
    then show thesis
      using assms s n by (auto simp: main_allocator_def split: cidr_error.splits go_panic.splits)
  next
    case (Inr c')
    then have "c' = c" "e = ec2" using assms s n by (simp_all add: main_allocator_def)
    then show thesis using that s n Inr by simp
  qed
qed

lemma main_Finished:
  assumes "main env k f = Finished log ec2 c"
  obtains cidrs dual cred sizes reg where
    "f_mode f \<noteq> []" "f_namespace f \<noteq> []" "f_secretName f \<noteq> []" "f_clusterName f \<noteq> []"
    "f_region f \<noteq> []" "f_targetKubeconfig f \<noteq> []"
    "processCIDRs (m_netutils env) (f_clusterCIDRs f) = Inr (cidrs, dual)"
    "NewAWSEC2V2 (m_LoadDefaultConfig env) cred (f_region f) = Inr ec2"
    "setNodeCIDRMaskSizes (m_netutils env) cidrs (f_nodeCIDRMaskSizeIPv4 f) (f_nodeCIDRMaskSizeIPv6 f) = Inr sizes"
    "NewCIDRRangeAllocator False \<lparr>ClusterCIDRs = cidrs, NodeCIDRMaskSizes = sizes\<rparr>
      (f_mode f) (f_tickPeriod f) (f_nodeCIDRMaskSizeIPv6 f) (f_primaryIPFamily f) False = (Inr c, reg)"
proof -
  obtain cidrs dual cred l ec2' where m:
    "f_mode f \<noteq> []" "f_namespace f \<noteq> []" "f_secretName f \<noteq> []" "f_clusterName f \<noteq> []"
    "f_region f \<noteq> []" "f_targetKubeconfig f \<noteq> []"
    "processCIDRs (m_netutils env) (f_clusterCIDRs f) = Inr (cidrs, dual)"
    "NewAWSEC2V2 (m_LoadDefaultConfig env) cred (f_region f) = Inr ec2'"
    and a: "main_allocator env f cidrs l ec2' = Finished log ec2 c"
    using assms by (auto simp: main_def simp del: required.simps split: sum.splits)
  from a show thesis by (rule main_allocator_Finished) (use that m in blast)
qed

lemma newCidrSets_v4:
  assumes "\<forall>cidr\<in>set cidrs. \<exists>m \<le> n. canon 4 m cidr \<and> n - m < 32" "n \<le> 32"
    "\<forall>z\<in>set sizes. z = int n" "newCidrSets cidrs sizes reg = (Inr ss, reg', ms)"
  shows "\<forall>s\<in>set ss. cset_inv s \<and> length (IP (clusterCIDR s)) = 4 \<and> used_set s = {}"
  using assms(1,3,4)
proof (induction cidrs sizes reg arbitrary: ss reg' ms rule: newCidrSets.induct)
  case (3 cidr cidrs sz szs reg)
  obtain m where m: "m \<le> n" "canon 4 m cidr" "n - m < 32" using "3.prems"(1) by auto
  obtain s where s: "NewCIDRSet cidr (int n) reg = (Inr s, registerCidrsetMetrics reg)" "cset_inv s"
    "used_set s = {}" "clusterCIDR s = cidr"
    by (rule NewCIDRSet_wf [OF m(2,1) _ m(3), of reg]) (use assms(2) in simp_all)
  obtain reg1 ms1 where r: "registerCidrsetMetrics reg = (reg1, ms1)" by (rule prod.exhaust)
  obtain ss1 ms2 where ss: "newCidrSets cidrs szs reg1 = (Inr ss1, reg', ms2)" "ss = s # ss1"
    using "3.prems"(2,3) s(1) r by (auto split: prod.splits sum.splits)
  have n: "NewCIDRSet cidr sz reg = (Inr s, reg1, ms1)" using s(1) r "3.prems"(2) by simp
  have "\<forall>s\<in>set ss1. cset_inv s \<and> length (IP (clusterCIDR s)) = 4 \<and> used_set s = {}"
    using "3.IH" [OF n [symmetric] refl refl _ _ ss(1)] "3.prems"(1,2) by simp
  then show ?case using ss(2) s m(2) canonD(1) [OF m(2)] by simp
qed simp_all

text \<open>
  C35: A program that came to run its manager had all required flags set, uses the EC2 client of its
  region and an allocator with one set for every cluster CIDR, in the mode and with the tick
  period of the flags, that is not ready yet and has no worker: nothing is allocated before
  its \<open>Start\<close>.
\<close>

theorem started_program:
  assumes "main env k f = Finished log ec2 c"
  shows "f_mode f \<noteq> [] \<and> f_namespace f \<noteq> [] \<and> f_secretName f \<noteq> [] \<and> f_clusterName f \<noteq> []
    \<and> f_region f \<noteq> [] \<and> f_targetKubeconfig f \<noteq> [] \<and> Region ec2 = f_region f
    \<and> (\<exists>dual. processCIDRs (m_netutils env) (f_clusterCIDRs f) = Inr (clusterCIDRs c, dual))
    \<and> length (cidrSets c) = length (clusterCIDRs c) \<and> mode c = f_mode f \<and> tickPeriod c = f_tickPeriod f
    \<and> \<not> reconcileReady c \<and> workers c = 0 \<and> nodeCIDRUpdateChannel c = [] \<and> nodesInProcessing c = {}"
  using assms
proof (rule main_Finished)
  fix cidrs dual cred sizes reg
  assume req: "f_mode f \<noteq> []" "f_namespace f \<noteq> []" "f_secretName f \<noteq> []" "f_clusterName f \<noteq> []"
      "f_region f \<noteq> []" "f_targetKubeconfig f \<noteq> []"
    and p: "processCIDRs (m_netutils env) (f_clusterCIDRs f) = Inr (cidrs, dual)"
    and e: "NewAWSEC2V2 (m_LoadDefaultConfig env) cred (f_region f) = Inr ec2"
    and n: "NewCIDRRangeAllocator False \<lparr>ClusterCIDRs = cidrs, NodeCIDRMaskSizes = sizes\<rparr>
      (f_mode f) (f_tickPeriod f) (f_nodeCIDRMaskSizeIPv6 f) (f_primaryIPFamily f) False = (Inr c, reg)"
  have "Region ec2 = f_region f"
    using e by (auto simp: NewAWSEC2V2_def Let_def split: option.splits sum.splits)
  then show ?thesis
    using req p n by (auto simp: NewCIDRRangeAllocator_def length_newCidrSets split: prod.splits sum.splits)
qed

text \<open>The program started for the cluster CIDR \<open>10.0.0.0/30\<close>.\<close>

definition ex_netutils :: netutils where
  "ex_netutils = \<lparr>ParseCIDRs = (\<lambda>ts. Inr [ex_cidr]), IsDualStackCIDRs = (\<lambda>ns. (False, None)),
     IsIPv6CIDR = (\<lambda>n. length (IP n) = 16)\<rparr>"

definition ex_main_env :: main_env where
  "ex_main_env = \<lparr>m_netutils = ex_netutils, m_BuildConfigFromFlags = (\<lambda>m p. None), m_NewManager = (\<lambda>opts. None),
     m_GetInformer = None, m_NewForConfig = None, m_LoadDefaultConfig = ex_load, m_AddReadyzCheck = None,
     m_AddHealthzCheck = None, m_AddEventHandler = None, m_Add = None, m_Start = None\<rparr>"

definition ex_flags :: flags where
  "ex_flags = default_flags\<lparr>f_clusterName := ''c'', f_clusterCIDRs := ''10.0.0.0/30'', f_nodeCIDRMaskSizeIPv4 := 32,
     f_mode := ''ipv4'', f_namespace := ''kube-system'', f_region := ''eu-1'', f_targetKubeconfig := ''k'',
     f_tickPeriod := 1\<rparr>"

lemma ex_started_program:
  "\<exists>log ec2. main ex_main_env ex_kube ex_flags = Finished log ec2 ex_alloc"
proof -
  have flags: "f_mode ex_flags = ''ipv4''" "f_namespace ex_flags = ''kube-system''" "f_secretName ex_flags = ''cloudprovider''"
    "f_clusterName ex_flags = ''c''" "f_region ex_flags = ''eu-1''" "f_targetKubeconfig ex_flags = ''k''"
    "f_controlKubeconfig ex_flags = InClusterConfig" "f_nodeCIDRMaskSizeIPv4 ex_flags = 32"
    "f_nodeCIDRMaskSizeIPv6 ex_flags = 80" "f_tickPeriod ex_flags = 1" "f_primaryIPFamily ex_flags = ''ipv4''"
    by (simp_all add: ex_flags_def default_flags_def defaultNodeCIDRMaskSizeIPv6_def)
  have p: "processCIDRs ex_netutils (f_clusterCIDRs ex_flags) = Inr ([ex_cidr], False)"
    by (simp add: processCIDRs_def ex_netutils_def)
  have m: "setNodeCIDRMaskSizes ex_netutils [ex_cidr] 32 80 = Inr [32]"
    by (simp add: setNodeCIDRMaskSizes_def ex_netutils_def)
  have l: "LoadCredentials ex_kube InClusterConfig ''kube-system'' ''cloudprovider'' = Inr ex_cred"
    using ex_loaded by (simp add: LoadCredentials_def InClusterConfig_def)
  obtain ec2 where e: "NewAWSEC2V2 ex_load ex_cred ''eu-1'' = Inr ec2"
    by (simp add: NewAWSEC2V2_def ex_cred_def ex_load_def)
  obtain log where g: "MustNewZapLogger (f_logLevel default_flags) (f_logFormat default_flags) [] = Inr log"
    by (simp add: MustNewZapLogger_def NewZapLogger_def default_flags_def InfoLevel_def FormatJSON_def
        DebugLevel_def ErrorLevel_def FormatText_def)
  have env: "m_netutils ex_main_env = ex_netutils" "m_LoadDefaultConfig ex_main_env = ex_load"
    by (simp_all add: ex_main_env_def)
  have "main_allocator ex_main_env ex_flags [ex_cidr] log ec2 = Finished log ec2 ex_alloc"
    unfolding main_allocator_def env flags m exit_or_def
    by (simp add: ex_alloc_new) (simp add: ex_main_env_def exit_on_def)
  then have "main ex_main_env ex_kube ex_flags = Finished log ec2 ex_alloc"
    by (simp add: main_def g env flags p l e exit_or_def checkRequiredFlag_def)
      (simp add: ex_main_env_def exit_on_def)
  then show ?thesis by blast
qed

theorem started_program_witness:
  "\<exists>log ec2. main ex_main_env ex_kube ex_flags = Finished log ec2 ex_alloc \<and> Region ec2 = ''eu-1''
    \<and> length (cidrSets ex_alloc) = length (clusterCIDRs ex_alloc)"
proof -
  obtain log ec2 where m: "main ex_main_env ex_kube ex_flags = Finished log ec2 ex_alloc"
    using ex_started_program by blast
  have "f_region ex_flags = ''eu-1''" by (simp add: ex_flags_def)
  then show ?thesis using started_program [OF m] m by metis
qed

text \<open>
  The allocator of a started program is in a state the theorems on runs start from: for IPv4
  cluster CIDRs with masks at most 31 bits shorter than the node mask, every set has its
  invariant and no block in use, and the flag values are its parameters.
\<close>

lemma started_allocator_ready:
  assumes "main env k f = Finished log ec2 c" "f_nodeCIDRMaskSizeIPv4 f = int n" "n \<le> 32"
    "0 \<le> f_nodeCIDRMaskSizeIPv6 f" "f_nodeCIDRMaskSizeIPv6 f \<le> 128"
    "\<forall>cidr\<in>set (clusterCIDRs c). \<not> IsIPv6CIDR (m_netutils env) cidr"
    "\<forall>cidr\<in>set (clusterCIDRs c). \<exists>m \<le> n. canon 4 m cidr \<and> n - m < 32"
  shows "alloc_inv c \<and> supported c \<and> (\<forall>i < length (cidrSets c). used_at c i = {})
    \<and> recorder c = [] \<and> nodeCIDRUpdateChannel c = [] \<and> primaryIPFamily c = f_primaryIPFamily f
    \<and> nodeCIDRMaskSizeIPv6 c = f_nodeCIDRMaskSizeIPv6 f"
  using assms(1)
proof (rule main_Finished)
  fix cidrs dual cred sizes reg
  assume sz: "setNodeCIDRMaskSizes (m_netutils env) cidrs (f_nodeCIDRMaskSizeIPv4 f) (f_nodeCIDRMaskSizeIPv6 f) = Inr sizes"
    and n: "NewCIDRRangeAllocator False \<lparr>ClusterCIDRs = cidrs, NodeCIDRMaskSizes = sizes\<rparr>
      (f_mode f) (f_tickPeriod f) (f_nodeCIDRMaskSizeIPv6 f) (f_primaryIPFamily f) False = (Inr c, reg)"
  obtain ss ms where ss: "newCidrSets cidrs sizes False = (Inr ss, reg, ms)" "cidrSets c = ss" "clusterCIDRs c = cidrs"
    and rest: "recorder c = []" "nodeCIDRUpdateChannel c = []" "primaryIPFamily c = f_primaryIPFamily f"
      "nodeCIDRMaskSizeIPv6 c = f_nodeCIDRMaskSizeIPv6 f"
    using n by (auto simp: NewCIDRRangeAllocator_def split: prod.splits sum.splits)
  have "\<forall>z\<in>set sizes. z = int n"
    using sz assms(2,6) ss(3)
    by (auto simp: setNodeCIDRMaskSizes_def sortedSizes_def split: if_splits list.splits)
  from newCidrSets_v4 [OF _ assms(3) this ss(1)] assms(7) ss(3)
  have "\<forall>s\<in>set ss. cset_inv s \<and> length (IP (clusterCIDR s)) = 4 \<and> used_set s = {}" by simp
  then show ?thesis using rest ss(2) assms(4,5) by (simp add: alloc_inv_def supported_def used_at_def)
qed

text \<open>The nodes a start finds: CIDRs in canonical form, and no two nodes with a common block.\<close>

definition listed_ok :: "cidrAllocator \<Rightarrow> Node list \<Rightarrow> bool" where
  "listed_ok c nodes \<longleftrightarrow> distinct (map Name nodes) \<and> (\<forall>n\<in>set nodes. std_cidrs (PodCIDRs n))
     \<and> sorted_wrt (\<lambda>a b. apart c (node_nets b) (node_nets a)) nodes"

text \<open>
  C3: The whole program: started with its required flags for IPv4 cluster CIDRs, with an
  allocator whose \<open>Start\<close> has reconciled a cluster without conflicts, it never gives an address
  to two nodes. On every run of handlers, workers and cluster from there, the networks two nodes
  have from one cluster CIDR share no address, up to the two recorded exceptions.
\<close>

theorem program_unique_pod_cidrs:
  assumes "main env k f = Finished log ec2 c0" "f_nodeCIDRMaskSizeIPv4 f = int n" "n \<le> 32"
    "0 \<le> f_nodeCIDRMaskSizeIPv6 f" "f_nodeCIDRMaskSizeIPv6 f \<le> 128"
    "\<forall>cidr\<in>set (clusterCIDRs c0). \<not> IsIPv6CIDR (m_netutils env) cidr"
    "\<forall>cidr\<in>set (clusterCIDRs c0). \<exists>m \<le> n. canon 4 m cidr \<and> n - m < 32"
    "clients_ok api cluster" "Start api True c0 w0 = (Inr (), c, w)" "listed_ok c0 (cluster w)"
    "(sys_step api cluster)\<^sup>*\<^sup>*
      \<lparr>ctl = c, world = w, handling = [], waiting = [], inflight = [], deleted = [], releases = [], lost_node = False\<rparr> s"
    "\<not> gave_up (ctl s)" "\<not> lost_node s" "cluster (world s) = xs @ a # ys @ b # zs"
    "j < length (node_nets a)" "j < length (node_nets b)" "j < length (cidrSets (ctl s))"
  shows "net_addrs (node_nets a ! j) \<inter> net_addrs (node_nets b ! j) = {}"
proof -
  let ?s0 = "\<lparr>ctl = c, world = w, handling = [], waiting = [], inflight = [], deleted = [], releases = [], lost_node = False\<rparr>"
  have "sys_start api cluster c0 ?s0"
    using started_allocator_ready [OF assms(1-7)] assms(9,10) by (auto simp: sys_start_def listed_ok_def)
  then have "sys_inv cluster s" by (rule sys_run_inv [OF assms(8) _ assms(11-13)])
  then show ?thesis by (rule sys_inv_disjoint [where cluster = cluster, OF _ assms(14-17)])
qed

theorem program_unique_pod_cidrs_witness:
  "\<exists>log ec2. main ex_main_env ex_kube ex_flags = Finished log ec2 ex_alloc
    \<and> Start ex_env True ex_alloc ex_nodes = (Inr (), ex_started, ex_nodes)
    \<and> net_addrs (ex_host 0) \<inter> net_addrs (ex_host 1) = {}"
proof -
  obtain log ec2 where m: "main ex_main_env ex_kube ex_flags = Finished log ec2 ex_alloc"
    using ex_started_program by blast
  have c: "clusterCIDRs ex_alloc = [ex_cidr]" by (simp add: ex_alloc_def)
  have f: "f_nodeCIDRMaskSizeIPv4 ex_flags = int 32" "0 \<le> f_nodeCIDRMaskSizeIPv6 ex_flags"
    "f_nodeCIDRMaskSizeIPv6 ex_flags \<le> 128" "(32 :: nat) \<le> 32"
    by (simp_all add: ex_flags_def default_flags_def defaultNodeCIDRMaskSizeIPv6_def)
  have v4: "\<forall>cidr\<in>set (clusterCIDRs ex_alloc). \<not> IsIPv6CIDR (m_netutils ex_main_env) cidr"
    by (simp add: c ex_main_env_def ex_netutils_def)
  have k: "\<forall>cidr\<in>set (clusterCIDRs ex_alloc). \<exists>m \<le> 32. canon 4 m cidr \<and> 32 - m < 32"
    using ex_cidr_canon by (auto simp: c intro!: exI [of _ 30])
  have l: "listed_ok ex_alloc ex_nodes"
    using ex_sys_start by (simp add: sys_start_def ex_system_def listed_ok_def)
  have g: "\<not> gave_up ex_started" by (simp add: gave_up_def ex_started_def ex_alloc_def)
  have "net_addrs (node_nets (ex_node ''a'' 0) ! 0) \<inter> net_addrs (node_nets (ex_node ''b'' 1) ! 0) = {}"
    using program_unique_pod_cidrs [OF m f(1,4,2,3) v4 k ex_clients ex_start l rtranclp.rtrancl_refl,
        of "[]" "ex_node ''a'' 0" "[]" "ex_node ''b'' 1" "[]" 0] g
    by (simp add: ex_nodes_def ex_started_def)
  then show ?thesis using m ex_start by simp
qed

end
