(* ===== verification/Spec2Isabelle.thy ===== *)
theory Spec2Isabelle
  imports SetTheorems SystemTheorems AllocatorTheorems UpdateTheorems LimitTheorems ProgramTheorems
begin

text \<open>
  A model of the AWS IPAM controller, which gives every node of a Kubernetes cluster a pod
  CIDR, and the theorems that make it correct. The definitions follow the Go sources under
  \<open>src/\<close>, operation by operation; the names are those of the source.

  THE PROGRAM. Node events of the informer call \<open>AllocateOrOccupyCIDR\<close> or \<open>ReleaseCIDR\<close>. For a
  new node a block of every cluster CIDR is taken from its CIDR set (a bitmap of blocks of
  the node mask's size) and queued as a reservation; workers take the reservations from
  the channel, read the node, and patch the blocks (and in IPv6 and dual-stack mode a
  prefix asked from EC2) into it, with retries; an update that fails goes back to the
  channel. On start the CIDRs of all existing nodes are occupied before anything is
  allocated.

  THEORIES AND SOURCES.
    Prelude - panics, conversions between Go's integers, arithmetic of aligned blocks.
    GoNet, GoText, NetText, IPv6Text, GoUrl - the parts of Go's standard library the sources
      compute with: \<open>net.IP\<close>, masks and networks on byte lists, \<open>encoding/binary\<close>, strings,
      decimal and hexadecimal text, the text of networks in both families with their round
      trips, \<open>net/url.Parse\<close>.
    CidrSet - \<open>pkg/ipam/cidrset/cidrset.go\<close> and \<open>metrics.go\<close>: the record \<open>CidrSet\<close> and its
      operations; the bitmap is the number \<open>used\<close>, as in \<open>big.Int\<close>.
    CidrBlocks - the index arithmetic of a set on 32-bit words and on 64-bit halves equals
      arithmetic on addresses as numbers; which blocks a network touches.
    CidrOps - the operations against the finite set of used indices; the interface
      \<open>bitmap\<close>, interpreted on the model of \<open>big.Int\<close>; the invariant \<open>cset_inv\<close>.
    CidrPool - the interface of a set towards the allocator in three layers: \<open>cell_space\<close>
      (cells in use, and ownership of pairwise disjoint holdings, \<open>holds\<close>), \<open>cell_pool\<close>
      (occupation and release) and \<open>cidr_pool\<close> (allocation), with their lemmas proved once;
      the interpretations \<open>cs\<close> on the operations of \<open>CidrSet\<close>.
    NodeUtil - \<open>pkg/node/node.go\<close>, \<open>pkg/node/controller_utils.go\<close>: errors, nodes, patches,
      the informer handlers, events, conditions.
    Allocator - \<open>pkg/ipam/cidr_allocator.go\<close>: the record \<open>cidrAllocator\<close>, the handlers, the
      workers, the update of a node and the start.
    AllocatorProps, Holdings, Handlers, Outcomes - what the operations of the allocator do to
      its list of sets, who holds which blocks after them, and their outcomes by cases.
    Controller - the running controller as a step relation \<open>sys_step\<close>: handler calls, releases
      of deleted nodes, workers and the cluster interleaved, one access to a CIDR set, the
      channel, the nodes in processing or a client to a step; the invariant \<open>sys_inv\<close>.
    SystemInv - every step keeps the invariant; the invariant of runs.
    Refinement - the functions of the source, taken as one action, are runs of these steps.
    Credentials - \<open>pkg/updater/credentials.go\<close>. Logger - \<open>pkg/logger/types.go\<close>, \<open>zap.go\<close>.
    MainProgram - \<open>main.go\<close>: flags, start-up with its exits, event handlers.
    Examples - concrete sets, clients and runs the theorems are applied to.
    SetTheorems, SystemTheorems, AllocatorTheorems, UpdateTheorems, LimitTheorems,
      ProgramTheorems - the properties C1 to C40 with their applications to concrete inputs.

  STATE AND EFFECTS. An operation is a function of the state to its result and the next
  state. A mutex of the source makes an operation on a set atomic. The API server, EC2
  and the libraries of the manager are parameters: fields of the records \<open>api\<close>, \<open>kube\<close>,
  \<open>netutils\<close> and \<open>main_env\<close>, functions of the call and of the state of the world. What is
  assumed of them are the named hypotheses \<open>ip_family_ok\<close>, \<open>api_contract\<close>,
  \<open>ec2_prefixes_ok\<close> (together \<open>clients_ok\<close>) and \<open>timeout_is_status\<close>, each stated where it is first used; the
  theory Examples has clients that satisfy them. A panic is an error value that every
  caller passes on. Metrics and events are the lists of what was sent.

  WHAT THE THEOREMS SHOW. The index arithmetic is exact, in both families, and the
  operations of a set are union, difference and first free choice on the used blocks. What is
  held by a node or a reservation is in use and is not allocated again. A new
  node is served, in every mode: its event and the next round of a worker write free blocks
  into it when the sets have room and the API server answers. On
  every run from a start, with all interleavings of handlers and workers on stale nodes,
  no address belongs to two nodes, with two exceptions: an update was given up after its last
  attempt (an event with the reason \<open>CIDRAssignmentFailed\<close> records that), or a node was
  deleted between an attempt whose reply was lost and the next one (the field \<open>lost_node\<close>
  records that). The theorems on failures show why the exceptions are needed: a refused
  reservation is queued again after its blocks were released, a server timeout is never
  recognised as one, and a run with a lost reply ends with one block at two nodes. They also
  show that dual-stack updates can release blocks in use, that an exhausted set leaks blocks
  of the sets before it, that IPv6 mode leaks every reservation, that the blocks of IPv6 cluster CIDRs
  are forgotten by a restart and handed out again, that a cluster CIDR of
  IPv4-mapped addresses gives every node one and the same network, that the item of a node
  that is gone is put back forever, and that a replica that takes over as leader frees the blocks
  of a live node when the deletion of their former owner is reported after its start (a start with
  deletions still to be reported is therefore excluded from \<open>sys_start\<close>).

  BOUNDS. The loops over index ranges, tries, sets and retries are total functions with a
  measure or structural; \<open>count_ones\<close> runs over the 8 bits of a byte and \<open>groups_loop\<close> over the
  8 groups of an IPv6 address, which is all there are. The channel holds 5000 items
  (\<open>CidrUpdateQueueSize\<close>), an update makes 3 attempts (\<open>cidrUpdateRetries\<close>). The theorems on
  the index arithmetic are for a node mask less than 32 bits longer than the cluster mask,
  and for IPv6 clusters outside the first \<open>2 ^ 48\<close> addresses, which contain the
  IPv4-mapped ones that the program mixes up with IPv4 (theory LimitTheorems). The theorems on runs of the system
  are for the configurations \<open>supported\<close>: IPv4 cluster CIDRs (the sets of a cluster; nodes get
  their IPv6 prefix from EC2) and an IPv6 mask size of 0 to 128.

  NOT MODELLED. Logging, the Prometheus and zap libraries behind the calls, the
  parsing of the command line, \<open>HandleCrash\<close>, and \<open>hack/tools.go\<close> (imports of build tools).
  The waiting of goroutines is modelled by outcomes (\<open>WaitReconcile\<close>, \<open>WaitChannel\<close>,
  \<open>WorkerWaits\<close>) and by the places of calls and workers in the step relation, not by a
  scheduler. Runs begin after \<open>Start\<close>, which is one action; calls made before it may still be
  on their way. The informer reports one event after the other, while the step relation lets its
  handler calls overlap, which is more than the program does.
\<close>

end
